(* ===== verification/Renet_Prelude.thy ===== *)
theory Renet_Prelude
  imports Main "HOL-Library.Word" "HOL-Library.Monad_Syntax"
begin

text \<open>
  Shared vocabulary of the development.

  \<^item> Rust's integers: \<open>u8\<close>, \<open>u16\<close>, \<open>u32\<close>, \<open>u64\<close> are words where bits or wrap-around matter;
    lengths, byte counters, message ids and packet sequence numbers are \<open>nat\<close>. Additions on
    those counters do not wrap in the model: reaching \<open>2 ^ 64\<close> takes that many buffered bytes or
    packets. Subtractions are checked, see below.
  \<^item> \<open>Duration\<close> is a number of nanoseconds.
  \<^item> A panic (failed \<open>unwrap\<close>, index or range out of bounds, arithmetic underflow under Rust's
    overflow checks, \<open>unreachable!\<close>) is the value \<open>None\<close> of an outer \<open>option\<close>; a function that
    takes \<open>&mut self\<close> returns the new state, inside that \<open>option\<close> when it can panic.
  \<^item> A function that can both fail with a \<open>Result\<close> and panic, and whose state is dropped on
    failure, returns an \<open>outcome\<close>.
\<close>

type_synonym u8 = "8 word"
type_synonym u16 = "16 word"
type_synonym u32 = "32 word"
type_synonym u64 = "64 word"
type_synonym bytes = "u8 list"
type_synonym duration = nat

datatype ('e, 'a) outcome = Ok 'a | Err 'e | Panic

fun and_then :: "('e, 'a) outcome \<Rightarrow> ('a \<Rightarrow> ('e, 'b) outcome) \<Rightarrow> ('e, 'b) outcome" where
  "and_then (Ok x) f = f x"
| "and_then (Err e) f = Err e"
| "and_then Panic f = Panic"

text \<open>Rust's \<open>a - b\<close> on an unsigned type, with overflow checks.\<close>

definition checked_sub :: "nat \<Rightarrow> nat \<Rightarrow> nat option" where
  "checked_sub a b = (if b \<le> a then Some (a - b) else None)"

definition sub_or_panic :: "nat \<Rightarrow> nat \<Rightarrow> ('e, nat) outcome" where
  "sub_or_panic a b = (if b \<le> a then Ok (a - b) else Panic)"

text \<open>Rust's \<open>xs[i]\<close>, as a read and as the target of an assignment.\<close>

definition index :: "'a list \<Rightarrow> nat \<Rightarrow> 'a option" where
  "index xs i = (if i < length xs then Some (xs ! i) else None)"

definition set_index :: "'a list \<Rightarrow> nat \<Rightarrow> 'a \<Rightarrow> 'a list option" where
  "set_index xs i v = (if i < length xs then Some (xs[i := v]) else None)"

text \<open>Rust's \<open>&xs[a..b]\<close>.\<close>

definition slice_range :: "'a list \<Rightarrow> nat \<Rightarrow> nat \<Rightarrow> 'a list option" where
  "slice_range xs a b = (if a \<le> b \<and> b \<le> length xs then Some (take (b - a) (drop a xs)) else None)"

text \<open>\<open>xs[a..b].copy_from_slice(src)\<close>: the range must lie inside \<open>xs\<close> and have the length of \<open>src\<close>.\<close>

definition copy_range :: "'a list \<Rightarrow> nat \<Rightarrow> nat \<Rightarrow> 'a list \<Rightarrow> 'a list option" where
  "copy_range xs a b src =
     (if a \<le> b \<and> b \<le> length xs \<and> length src = b - a
      then Some (take a xs @ src @ drop b xs) else None)"

text \<open>\<open>Vec::resize\<close>.\<close>

definition resize :: "'a list \<Rightarrow> nat \<Rightarrow> 'a \<Rightarrow> 'a list" where
  "resize xs n v = take n xs @ replicate (n - length xs) v"

text \<open>\<open>usize::div_ceil\<close>, for a non-zero divisor.\<close>

definition div_ceil :: "nat \<Rightarrow> nat \<Rightarrow> nat" where
  "div_ceil a b = (if a mod b > 0 then a div b + 1 else a div b)"

definition from_millis :: "nat \<Rightarrow> duration" where
  "from_millis ms = ms * 1000000"

definition from_secs :: "nat \<Rightarrow> duration" where
  "from_secs s = s * 1000000000"

definition as_millis :: "duration \<Rightarrow> nat" where
  "as_millis d = d div 1000000"

definition as_secs :: "duration \<Rightarrow> nat" where
  "as_secs d = d div 1000000000"

named_theorems panic_simps \<open>unfolding of the panicking primitives\<close>

declare checked_sub_def [panic_simps] sub_or_panic_def [panic_simps] index_def [panic_simps]
  set_index_def [panic_simps] slice_range_def [panic_simps] copy_range_def [panic_simps]

subsection \<open>Outcomes\<close>

lemma and_then_eq_Ok [simp]: "and_then m f = Ok y \<longleftrightarrow> (\<exists>x. m = Ok x \<and> f x = Ok y)"
  by (cases m) auto

lemma and_then_eq_Panic: "and_then m f = Panic \<longleftrightarrow> m = Panic \<or> (\<exists>x. m = Ok x \<and> f x = Panic)"
  by (cases m) auto

lemma and_then_not_Panic [intro]:
  "m \<noteq> Panic \<Longrightarrow> (\<And>x. m = Ok x \<Longrightarrow> f x \<noteq> Panic) \<Longrightarrow> and_then m f \<noteq> Panic"
  by (cases m) auto

lemma and_then_assoc: "and_then (and_then m f) g = and_then m (\<lambda>x. and_then (f x) g)"
  by (cases m) auto

lemma sub_or_panic_Ok [simp]: "b \<le> a \<Longrightarrow> sub_or_panic a b = Ok (a - b)"
  by (simp add: sub_or_panic_def)

lemma checked_sub_Some [simp]: "b \<le> a \<Longrightarrow> checked_sub a b = Some (a - b)"
  by (simp add: checked_sub_def)

lemma index_Some [simp]: "i < length xs \<Longrightarrow> index xs i = Some (xs ! i)"
  by (simp add: index_def)

lemma set_index_Some [simp]: "i < length xs \<Longrightarrow> set_index xs i v = Some (xs[i := v])"
  by (simp add: set_index_def)

lemma slice_range_Some [simp]:
  "a \<le> b \<Longrightarrow> b \<le> length xs \<Longrightarrow> slice_range xs a b = Some (take (b - a) (drop a xs))"
  by (simp add: slice_range_def)

lemma copy_range_Some [simp]:
  "a \<le> b \<Longrightarrow> b \<le> length xs \<Longrightarrow> length src = b - a \<Longrightarrow>
   copy_range xs a b src = Some (take a xs @ src @ drop b xs)"
  by (simp add: copy_range_def)

lemma length_resize [simp]: "length (resize xs n v) = n"
  by (simp add: resize_def)

subsection \<open>Lists\<close>

lemma count_list_update_True:
  "i < length bs \<Longrightarrow> \<not> bs ! i \<Longrightarrow> count_list (bs[i := True]) True = Suc (count_list bs True)"
proof (induction bs arbitrary: i)
  case (Cons b bs)
  then show ?case by (cases i) auto
qed simp

lemma count_list_True_le: "count_list bs True \<le> length bs"
  by (rule count_le_length)

lemma count_list_True_all: "count_list bs True = length bs \<longleftrightarrow> (\<forall>i < length bs. bs ! i)"
proof (induction bs)
  case (Cons b bs)
  have "count_list bs True \<le> length bs" by (rule count_le_length)
  then show ?case
    using Cons by (cases b) (auto simp: less_Suc_eq_0_disj)
qed simp

end
