(* ===== verification/Octets.thy ===== *)
theory Octets
  imports Renet_Prelude
begin

text \<open>
  The interface of the \<open>octets\<close> crate, which the packet codec of \<open>src/renet2/src/packet.rs\<close> and the
  send channels call and which is not part of the repository. Its operations are the fields of a
  record that every definition using them takes as an argument; a reader (\<open>Octets\<close>) is the list of
  the bytes that are left, a writer (\<open>OctetsMut\<close>) the bytes written and the capacity that remains,
  and \<open>None\<close> is \<open>BufferTooShortError\<close>. The locale \<open>octets_laws\<close> states the documented behaviour:
  big-endian fixed-width integers and QUIC variable-length integers (RFC 9000, section 16), which
  represent values below \<open>2 ^ 62\<close>. The theory ends with that encoding as a concrete instance.
\<close>

record octets_mut =
  om_written :: bytes
  om_cap :: nat

record octets_lib =
  oc_put_u8 :: "u8 \<Rightarrow> octets_mut \<Rightarrow> octets_mut option"
  oc_put_u16 :: "u16 \<Rightarrow> octets_mut \<Rightarrow> octets_mut option"
  oc_put_varint :: "nat \<Rightarrow> octets_mut \<Rightarrow> octets_mut option"
  oc_put_bytes :: "bytes \<Rightarrow> octets_mut \<Rightarrow> octets_mut option"
  oc_get_u8 :: "bytes \<Rightarrow> (u8 \<times> bytes) option"
  oc_get_u16 :: "bytes \<Rightarrow> (u16 \<times> bytes) option"
  oc_get_varint :: "bytes \<Rightarrow> (nat \<times> bytes) option"
  oc_get_bytes_with_varint_length :: "bytes \<Rightarrow> (bytes \<times> bytes) option"
  oc_varint_len :: "nat \<Rightarrow> nat"

abbreviation varint_limit :: nat where
  "varint_limit \<equiv> 2 ^ 62"

definition write_bytes :: "bytes \<Rightarrow> octets_mut \<Rightarrow> octets_mut option" where
  "write_bytes bs w =
     (if length bs \<le> om_cap w
      then Some \<lparr>om_written = om_written w @ bs, om_cap = om_cap w - length bs\<rparr> else None)"

definition with_slice :: "nat \<Rightarrow> octets_mut" where
  "with_slice n = \<lparr>om_written = [], om_cap = n\<rparr>"

locale octets_laws =
  fixes lib :: octets_lib
    and enc_u16 :: "u16 \<Rightarrow> bytes"
    and enc_varint :: "nat \<Rightarrow> bytes"
  assumes put_u8: "oc_put_u8 lib b w = write_bytes [b] w"
    and put_u16: "oc_put_u16 lib h w = write_bytes (enc_u16 h) w"
    and put_varint: "v < varint_limit \<Longrightarrow> oc_put_varint lib v w = write_bytes (enc_varint v) w"
    and put_bytes: "oc_put_bytes lib bs w = write_bytes bs w"
    and get_u8: "oc_get_u8 lib bs = (case bs of [] \<Rightarrow> None | b # r \<Rightarrow> Some (b, r))"
    and get_u16: "oc_get_u16 lib (enc_u16 h @ r) = Some (h, r)"
    and get_varint: "v < varint_limit \<Longrightarrow> oc_get_varint lib (enc_varint v @ r) = Some (v, r)"
    and get_varint_limit: "oc_get_varint lib bs = Some (v, r) \<Longrightarrow> v < varint_limit"
    and get_bytes_with_varint_length:
      "oc_get_bytes_with_varint_length lib bs =
         (case oc_get_varint lib bs of None \<Rightarrow> None
          | Some (n, r) \<Rightarrow> if n \<le> length r then Some (take n r, drop n r) else None)"
    and length_enc_u16: "length (enc_u16 h) = 2"
    and length_enc_varint: "v < varint_limit \<Longrightarrow> length (enc_varint v) = oc_varint_len lib v"
    and varint_len: "v < varint_limit \<Longrightarrow>
      oc_varint_len lib v = (if v \<le> 63 then 1 else if v \<le> 16383 then 2 else if v \<le> 1073741823 then 4 else 8)"
begin

lemma get_enc_bytes:
  "length bs < varint_limit \<Longrightarrow>
   oc_get_bytes_with_varint_length lib (enc_varint (length bs) @ bs @ r) = Some (bs, r)"
  by (simp add: get_bytes_with_varint_length get_varint)

lemma varint_len_bounds: "v < varint_limit \<Longrightarrow> 1 \<le> oc_varint_len lib v \<and> oc_varint_len lib v \<le> 8"
  by (simp add: varint_len)

end

subsection \<open>Writing\<close>

lemma write_bytes_append:
  "write_bytes (xs @ ys) w = Option.bind (write_bytes xs w) (write_bytes ys)"
  by (auto simp: write_bytes_def)

lemma write_bytes_with_slice:
  "length bs \<le> n \<Longrightarrow> write_bytes bs (with_slice n) = Some \<lparr>om_written = bs, om_cap = n - length bs\<rparr>"
  by (simp add: write_bytes_def with_slice_def)

subsection \<open>QUIC variable-length integers\<close>

fun be_bytes :: "nat \<Rightarrow> nat \<Rightarrow> bytes" where
  "be_bytes 0 v = []"
| "be_bytes (Suc n) v = word_of_nat (v div 256 ^ n) # be_bytes n v"

fun of_be :: "bytes \<Rightarrow> nat" where
  "of_be [] = 0"
| "of_be (b # bs) = unat b * 256 ^ length bs + of_be bs"

definition quic_varint_len :: "nat \<Rightarrow> nat" where
  "quic_varint_len v = (if v \<le> 63 then 1 else if v \<le> 16383 then 2 else if v \<le> 1073741823 then 4 else 8)"

definition quic_enc_varint :: "nat \<Rightarrow> bytes" where
  "quic_enc_varint v =
     (if v \<le> 63 then be_bytes 1 v
      else if v \<le> 16383 then be_bytes 2 (v + 1 * 2 ^ 14)
      else if v \<le> 1073741823 then be_bytes 4 (v + 2 * 2 ^ 30)
      else be_bytes 8 (v + 3 * 2 ^ 62))"

definition quic_get_varint :: "bytes \<Rightarrow> (nat \<times> bytes) option" where
  "quic_get_varint bs =
     (case bs of [] \<Rightarrow> None
      | b # _ \<Rightarrow>
          let n = 2 ^ (unat b div 64) in
          if n \<le> length bs then Some (of_be (take n bs) mod 2 ^ (8 * n - 2), drop n bs) else None)"

definition quic_lib :: octets_lib where
  "quic_lib = \<lparr>
     oc_put_u8 = (\<lambda>b. write_bytes [b]),
     oc_put_u16 = (\<lambda>h. write_bytes (be_bytes 2 (unat h))),
     oc_put_varint = (\<lambda>v. write_bytes (quic_enc_varint v)),
     oc_put_bytes = write_bytes,
     oc_get_u8 = (\<lambda>bs. case bs of [] \<Rightarrow> None | b # r \<Rightarrow> Some (b, r)),
     oc_get_u16 = (\<lambda>bs. if 2 \<le> length bs then Some (word_of_nat (of_be (take 2 bs)), drop 2 bs) else None),
     oc_get_varint = quic_get_varint,
     oc_get_bytes_with_varint_length =
       (\<lambda>bs. case quic_get_varint bs of None \<Rightarrow> None
         | Some (n, r) \<Rightarrow> if n \<le> length r then Some (take n r, drop n r) else None),
     oc_varint_len = quic_varint_len\<rparr>"

lemma length_be_bytes [simp]: "length (be_bytes n v) = n"
  by (induction n) auto

lemma of_be_be_bytes: "of_be (be_bytes n v) = v mod 256 ^ n"
proof (induction n)
  case (Suc n)
  have "v mod (256 ^ n * 256) = 256 ^ n * (v div 256 ^ n mod 256) + v mod 256 ^ n"
    by (rule mod_mult2_eq)
  then show ?case using Suc by (simp add: unat_of_nat take_bit_eq_mod mult.commute)
qed simp

lemma hd_be_bytes: "be_bytes (Suc n) v = b # r \<Longrightarrow> unat b = v div 256 ^ n mod 256"
  by (auto simp: unat_of_nat take_bit_eq_mod)

lemma quic_tagged:
  fixes v m t :: nat
  assumes v: "v < 2 ^ (8 * m + 6)" and t: "t < 4"
  shows "(v + t * 2 ^ (8 * m + 6)) div 256 ^ m mod 256 div 64 = t"
    and "(v + t * 2 ^ (8 * m + 6)) mod 256 ^ Suc m mod 2 ^ (8 * m + 6) = v"
proof -
  have p: "(2::nat) ^ (8 * m + 6) = 256 ^ m * 64" by (simp add: power_add power_mult)
  have "v div 256 ^ m < 64" using v p by (simp add: less_mult_imp_div_less mult.commute)
  moreover have "(v + t * 2 ^ (8 * m + 6)) div 256 ^ m = v div 256 ^ m + t * 64"
    unfolding p using div_mult_self1 [of "256 ^ m" v "t * 64"] by (simp add: ac_simps)
  ultimately show "(v + t * 2 ^ (8 * m + 6)) div 256 ^ m mod 256 div 64 = t" using t by simp
  have "t * 2 ^ (8 * m + 6) \<le> 3 * 2 ^ (8 * m + 6)" using t by (intro mult_right_mono) simp_all
  then have "v + t * 2 ^ (8 * m + 6) < 4 * 2 ^ (8 * m + 6)" using v by linarith
  then have "v + t * 2 ^ (8 * m + 6) < 256 ^ Suc m" unfolding p by simp
  then show "(v + t * 2 ^ (8 * m + 6)) mod 256 ^ Suc m mod 2 ^ (8 * m + 6) = v" using v by simp
qed

lemma quic_get_tagged:
  assumes v: "v < 2 ^ (8 * m + 6)" and t: "t < 4" and n: "Suc m = 2 ^ t"
  shows "quic_get_varint (be_bytes (Suc m) (v + t * 2 ^ (8 * m + 6)) @ r) = Some (v, r)"
proof -
  let ?v = "v + t * 2 ^ (8 * m + 6)"
  obtain b bs where b: "be_bytes (Suc m) ?v = b # bs" by simp
  have tag: "unat b div 64 = t" using hd_be_bytes [OF b] quic_tagged(1) [OF v t] by simp
  have len: "length bs = m" using arg_cong [OF b, of length] by simp
  have "of_be (b # bs) mod 2 ^ (8 * m + 6) = v"
    using quic_tagged(2) [OF v t] of_be_be_bytes [of "Suc m" ?v] unfolding b by (simp only:)
  then show ?thesis
    using tag len unfolding b by (simp add: quic_get_varint_def Let_def add.commute flip: n)
qed

lemma quic_get_enc_varint:
  assumes "v < varint_limit"
  shows "quic_get_varint (quic_enc_varint v @ r) = Some (v, r)"
proof -
  have "be_bytes 1 v = be_bytes (Suc 0) (v + 0 * 2 ^ (8 * 0 + 6))"
    and "be_bytes 2 (v + 1 * 2 ^ 14) = be_bytes (Suc 1) (v + 1 * 2 ^ (8 * 1 + 6))"
    and "be_bytes 4 (v + 2 * 2 ^ 30) = be_bytes (Suc 3) (v + 2 * 2 ^ (8 * 3 + 6))"
    and "be_bytes 8 (v + 3 * 2 ^ 62) = be_bytes (Suc 7) (v + 3 * 2 ^ (8 * 7 + 6))"
    by (simp_all del: be_bytes.simps add: numeral_2_eq_2)
  then show ?thesis
    using assms quic_get_tagged [of v 0 0 r] quic_get_tagged [of v 1 1 r]
      quic_get_tagged [of v 3 2 r] quic_get_tagged [of v 7 3 r]
    unfolding quic_enc_varint_def by (simp del: be_bytes.simps)
qed

lemma quic_get_varint_lt:
  assumes "quic_get_varint bs = Some (v, r)"
  shows "v < varint_limit"
proof -
  from assms obtain b where "hd bs = b" and v: "v = of_be (take (2 ^ (unat b div 64)) bs) mod 2 ^ (8 * 2 ^ (unat b div 64) - 2)"
    by (auto simp: quic_get_varint_def Let_def split: list.splits if_splits)
  have "unat b < 256" using unsigned_less [of b, where ?'a = nat] by simp
  then have "unat b div 64 \<le> 3" by (simp add: div_le_dividend less_Suc_eq_le [symmetric] less_mult_imp_div_less)
  then have "(2::nat) ^ (unat b div 64) \<le> 2 ^ 3" by (rule power_increasing) simp
  then have "(2::nat) ^ (8 * 2 ^ (unat b div 64) - 2) \<le> 2 ^ 62" by (intro power_increasing) simp_all
  moreover have "v < 2 ^ (8 * 2 ^ (unat b div 64) - 2)" unfolding v by simp
  ultimately show ?thesis by simp
qed

lemma be_bytes_u16: "word_of_nat (of_be (be_bytes 2 (unat h))) = (h :: u16)"
proof -
  have "unat h < 256 ^ 2" using unsigned_less [of h, where ?'a = nat] by simp
  then show ?thesis by (simp add: of_be_be_bytes)
qed

interpretation quic: octets_laws quic_lib "\<lambda>h. be_bytes 2 (unat h)" quic_enc_varint
proof unfold_locales
  show "oc_get_varint quic_lib (quic_enc_varint v @ r) = Some (v, r)" if "v < varint_limit" for v r
    using quic_get_enc_varint [OF that] by (simp add: quic_lib_def)
  show "v < varint_limit" if "oc_get_varint quic_lib bs = Some (v, r)" for bs v r
    using that by (intro quic_get_varint_lt [of bs v r]) (simp add: quic_lib_def)
  show "length (quic_enc_varint v) = oc_varint_len quic_lib v" for v
    by (simp add: quic_lib_def quic_enc_varint_def quic_varint_len_def del: be_bytes.simps)
qed (simp_all add: quic_lib_def be_bytes_u16 quic_varint_len_def del: be_bytes.simps)

end
