(* ===== verification/Renet_Packet.thy ===== *)
theory Renet_Packet
  imports Octets
begin

text \<open>
  \<open>src/renet2/src/packet.rs\<close>: the packets of the message layer and their wire format. Reading and
  writing take the \<open>octets\<close> operations as an argument. \<open>packet_bytes\<close> is a reference encoder, the
  concatenation of the fields; the lemmas show that \<open>to_bytes\<close> writes exactly that, or fails when the
  buffer is too short, that \<open>from_bytes\<close> inverts it, that \<open>from_bytes\<close> panics on no input and which
  conditions the packets it accepts satisfy.
\<close>

definition SLICE_SIZE :: nat where
  "SLICE_SIZE = 1200"

record Slice =
  message_id :: nat
  slice_index :: nat
  num_slices :: nat
  payload :: bytes

type_synonym ack_range = "nat \<times> nat"

datatype Packet =
    SmallReliable nat u8 "(nat \<times> bytes) list"
  | SmallUnreliable nat u8 "bytes list"
  | UnreliableSlice nat u8 Slice
  | ReliableSlice nat u8 Slice
  | Ack nat "ack_range list"

datatype SerializationError =
    BufferTooShort | InvalidNumSlices | SliceSizeAboveLimit | EmptySlice | InvalidAckRange | InvalidPacketType

fun packet_sequence :: "Packet \<Rightarrow> nat" where
  "packet_sequence (SmallReliable s _ _) = s"
| "packet_sequence (SmallUnreliable s _ _) = s"
| "packet_sequence (UnreliableSlice s _ _) = s"
| "packet_sequence (ReliableSlice s _ _) = s"
| "packet_sequence (Ack s _) = s"

text \<open>The conversion \<open>?\<close> applies to an error of \<open>octets\<close>.\<close>

definition from_octets :: "'a option \<Rightarrow> (SerializationError, 'a) outcome" where
  "from_octets r = (case r of None \<Rightarrow> Err BufferTooShort | Some x \<Rightarrow> Ok x)"

subsection \<open>Writing\<close>

fun put_reliable_messages ::
  "octets_lib \<Rightarrow> (nat \<times> bytes) list \<Rightarrow> octets_mut \<Rightarrow> (SerializationError, octets_mut) outcome" where
  "put_reliable_messages lib [] b = Ok b"
| "put_reliable_messages lib ((mid, message) # ms) b =
     and_then (from_octets (oc_put_varint lib mid b)) (\<lambda>b.
     and_then (from_octets (oc_put_varint lib (length message) b)) (\<lambda>b.
     and_then (from_octets (oc_put_bytes lib message b)) (\<lambda>b.
     put_reliable_messages lib ms b)))"

fun put_unreliable_messages ::
  "octets_lib \<Rightarrow> bytes list \<Rightarrow> octets_mut \<Rightarrow> (SerializationError, octets_mut) outcome" where
  "put_unreliable_messages lib [] b = Ok b"
| "put_unreliable_messages lib (message # ms) b =
     and_then (from_octets (oc_put_varint lib (length message) b)) (\<lambda>b.
     and_then (from_octets (oc_put_bytes lib message b)) (\<lambda>b.
     put_unreliable_messages lib ms b))"

definition put_slice ::
  "octets_lib \<Rightarrow> u8 \<Rightarrow> nat \<Rightarrow> u8 \<Rightarrow> Slice \<Rightarrow> octets_mut \<Rightarrow> (SerializationError, octets_mut) outcome" where
  "put_slice lib tag sequence channel_id sl b =
     and_then (from_octets (oc_put_u8 lib tag b)) (\<lambda>b.
     and_then (from_octets (oc_put_varint lib sequence b)) (\<lambda>b.
     and_then (from_octets (oc_put_u8 lib channel_id b)) (\<lambda>b.
     and_then (from_octets (oc_put_varint lib (message_id sl) b)) (\<lambda>b.
     and_then (from_octets (oc_put_varint lib (slice_index sl) b)) (\<lambda>b.
     and_then (from_octets (oc_put_varint lib (num_slices sl) b)) (\<lambda>b.
     and_then (from_octets (oc_put_varint lib (length (payload sl)) b)) (\<lambda>b.
     from_octets (oc_put_bytes lib (payload sl) b))))))))"

text \<open>The loop over the remaining ranges, in reverse order.\<close>

fun put_ack_ranges ::
  "octets_lib \<Rightarrow> nat \<Rightarrow> ack_range list \<Rightarrow> octets_mut \<Rightarrow> (SerializationError, octets_mut) outcome" where
  "put_ack_ranges lib previous_range_start [] b = Ok b"
| "put_ack_ranges lib previous_range_start ((start, end) # it) b =
     and_then (sub_or_panic previous_range_start end) (\<lambda>d.
     and_then (sub_or_panic d 1) (\<lambda>gap.
     and_then (sub_or_panic end 1) (\<lambda>e.
     and_then (sub_or_panic e start) (\<lambda>range_size.
     and_then (from_octets (oc_put_varint lib gap b)) (\<lambda>b.
     and_then (from_octets (oc_put_varint lib range_size b)) (\<lambda>b.
     put_ack_ranges lib start it b))))))"

fun put_packet :: "octets_lib \<Rightarrow> Packet \<Rightarrow> octets_mut \<Rightarrow> (SerializationError, octets_mut) outcome" where
  "put_packet lib (SmallReliable sequence channel_id messages) b =
     and_then (from_octets (oc_put_u8 lib 0 b)) (\<lambda>b.
     and_then (from_octets (oc_put_varint lib sequence b)) (\<lambda>b.
     and_then (from_octets (oc_put_u8 lib channel_id b)) (\<lambda>b.
     and_then (from_octets (oc_put_u16 lib (word_of_nat (length messages)) b)) (\<lambda>b.
     put_reliable_messages lib messages b))))"
| "put_packet lib (SmallUnreliable sequence channel_id messages) b =
     and_then (from_octets (oc_put_u8 lib 1 b)) (\<lambda>b.
     and_then (from_octets (oc_put_varint lib sequence b)) (\<lambda>b.
     and_then (from_octets (oc_put_u8 lib channel_id b)) (\<lambda>b.
     and_then (from_octets (oc_put_u16 lib (word_of_nat (length messages)) b)) (\<lambda>b.
     put_unreliable_messages lib messages b))))"
| "put_packet lib (ReliableSlice sequence channel_id sl) b = put_slice lib 2 sequence channel_id sl b"
| "put_packet lib (UnreliableSlice sequence channel_id sl) b = put_slice lib 3 sequence channel_id sl b"
| "put_packet lib (Ack sequence ack_ranges) b =
     and_then (from_octets (oc_put_u8 lib 4 b)) (\<lambda>b.
     and_then (from_octets (oc_put_varint lib sequence b)) (\<lambda>b.
     case rev ack_ranges of
       [] \<Rightarrow> Panic
     | (start, end) # it \<Rightarrow>
         and_then (sub_or_panic end 1) (\<lambda>e.
         and_then (sub_or_panic e start) (\<lambda>last_range_size.
         and_then (from_octets (oc_put_varint lib e b)) (\<lambda>b.
         and_then (from_octets (oc_put_varint lib last_range_size b)) (\<lambda>b.
         and_then (from_octets (oc_put_varint lib (length it) b)) (\<lambda>b.
         put_ack_ranges lib start it b)))))))"

definition to_bytes ::
  "octets_lib \<Rightarrow> Packet \<Rightarrow> octets_mut \<Rightarrow> (SerializationError, nat \<times> octets_mut) outcome" where
  "to_bytes lib p b =
     and_then (put_packet lib p b) (\<lambda>b'.
     and_then (sub_or_panic (om_cap b) (om_cap b')) (\<lambda>len.
     Ok (len, b')))"

subsection \<open>Reading\<close>

fun get_reliable_messages ::
  "octets_lib \<Rightarrow> nat \<Rightarrow> (nat \<times> bytes) list \<Rightarrow> bytes \<Rightarrow> (SerializationError, (nat \<times> bytes) list \<times> bytes) outcome" where
  "get_reliable_messages lib 0 messages b = Ok (messages, b)"
| "get_reliable_messages lib (Suc n) messages b =
     and_then (from_octets (oc_get_varint lib b)) (\<lambda>(mid, b).
     and_then (from_octets (oc_get_bytes_with_varint_length lib b)) (\<lambda>(pl, b).
     get_reliable_messages lib n (messages @ [(mid, pl)]) b))"

fun get_unreliable_messages ::
  "octets_lib \<Rightarrow> nat \<Rightarrow> bytes list \<Rightarrow> bytes \<Rightarrow> (SerializationError, bytes list \<times> bytes) outcome" where
  "get_unreliable_messages lib 0 messages b = Ok (messages, b)"
| "get_unreliable_messages lib (Suc n) messages b =
     and_then (from_octets (oc_get_bytes_with_varint_length lib b)) (\<lambda>(pl, b).
     get_unreliable_messages lib n (messages @ [pl]) b)"

definition get_reliable_slice ::
  "octets_lib \<Rightarrow> bytes \<Rightarrow> (SerializationError, Packet \<times> bytes) outcome" where
  "get_reliable_slice lib b =
     and_then (from_octets (oc_get_varint lib b)) (\<lambda>(sequence, b).
     and_then (from_octets (oc_get_u8 lib b)) (\<lambda>(channel_id, b).
     and_then (from_octets (oc_get_varint lib b)) (\<lambda>(mid, b).
     and_then (from_octets (oc_get_varint lib b)) (\<lambda>(index, b).
     and_then (from_octets (oc_get_varint lib b)) (\<lambda>(n, b).
     if n = 0 \<or> n > 1000000 then Err InvalidNumSlices else
     and_then (from_octets (oc_get_bytes_with_varint_length lib b)) (\<lambda>(pl, b).
     if pl = [] then Err EmptySlice
     else if length pl > SLICE_SIZE then Err SliceSizeAboveLimit
     else Ok (ReliableSlice sequence channel_id
            \<lparr>message_id = mid, slice_index = index, num_slices = n, payload = pl\<rparr>, b)))))))"

definition get_unreliable_slice ::
  "octets_lib \<Rightarrow> bytes \<Rightarrow> (SerializationError, Packet \<times> bytes) outcome" where
  "get_unreliable_slice lib b =
     and_then (from_octets (oc_get_varint lib b)) (\<lambda>(sequence, b).
     and_then (from_octets (oc_get_u8 lib b)) (\<lambda>(channel_id, b).
     and_then (from_octets (oc_get_varint lib b)) (\<lambda>(mid, b).
     and_then (from_octets (oc_get_varint lib b)) (\<lambda>(index, b).
     and_then (from_octets (oc_get_varint lib b)) (\<lambda>(n, b).
     if n = 0 \<or> n > 1000000 then Err InvalidNumSlices else
     and_then (from_octets (oc_get_bytes_with_varint_length lib b)) (\<lambda>(pl, b).
     Ok (UnreliableSlice sequence channel_id
           \<lparr>message_id = mid, slice_index = index, num_slices = n, payload = pl\<rparr>, b)))))))"

fun get_ack_ranges ::
  "octets_lib \<Rightarrow> nat \<Rightarrow> nat \<Rightarrow> ack_range list \<Rightarrow> bytes \<Rightarrow> (SerializationError, ack_range list \<times> bytes) outcome" where
  "get_ack_ranges lib 0 previous_range_start ack_ranges b = Ok (ack_ranges, b)"
| "get_ack_ranges lib (Suc n) previous_range_start ack_ranges b =
     and_then (from_octets (oc_get_varint lib b)) (\<lambda>(gap, b).
     if previous_range_start < 2 + gap then Err InvalidAckRange else
     and_then (sub_or_panic previous_range_start gap) (\<lambda>d.
     and_then (sub_or_panic d 2) (\<lambda>range_end.
     and_then (from_octets (oc_get_varint lib b)) (\<lambda>(range_size, b).
     if range_end < range_size then Err InvalidAckRange else
     and_then (sub_or_panic range_end range_size) (\<lambda>range_start.
     get_ack_ranges lib n range_start (ack_ranges @ [(range_start, range_end + 1)]) b)))))"

definition get_ack :: "octets_lib \<Rightarrow> bytes \<Rightarrow> (SerializationError, Packet \<times> bytes) outcome" where
  "get_ack lib b =
     and_then (from_octets (oc_get_varint lib b)) (\<lambda>(sequence, b).
     and_then (from_octets (oc_get_varint lib b)) (\<lambda>(first_range_end, b).
     and_then (from_octets (oc_get_varint lib b)) (\<lambda>(first_range_size, b).
     and_then (from_octets (oc_get_varint lib b)) (\<lambda>(num_remaining_ranges, b).
     if first_range_end < first_range_size then Err InvalidAckRange else
     and_then (sub_or_panic first_range_end first_range_size) (\<lambda>first_range_start.
     and_then (get_ack_ranges lib num_remaining_ranges first_range_start
                 [(first_range_start, first_range_end + 1)] b) (\<lambda>(ack_ranges, b).
     Ok (Ack sequence (rev ack_ranges), b)))))))"

definition from_bytes :: "octets_lib \<Rightarrow> bytes \<Rightarrow> (SerializationError, Packet \<times> bytes) outcome" where
  "from_bytes lib b =
     and_then (from_octets (oc_get_u8 lib b)) (\<lambda>(packet_type, b).
     if packet_type = 0 then
       and_then (from_octets (oc_get_varint lib b)) (\<lambda>(sequence, b).
       and_then (from_octets (oc_get_u8 lib b)) (\<lambda>(channel_id, b).
       and_then (from_octets (oc_get_u16 lib b)) (\<lambda>(messages_len, b).
       and_then (get_reliable_messages lib (unat messages_len) [] b) (\<lambda>(messages, b).
       Ok (SmallReliable sequence channel_id messages, b)))))
     else if packet_type = 1 then
       and_then (from_octets (oc_get_varint lib b)) (\<lambda>(sequence, b).
       and_then (from_octets (oc_get_u8 lib b)) (\<lambda>(channel_id, b).
       and_then (from_octets (oc_get_u16 lib b)) (\<lambda>(messages_len, b).
       and_then (get_unreliable_messages lib (unat messages_len) [] b) (\<lambda>(messages, b).
       Ok (SmallUnreliable sequence channel_id messages, b)))))
     else if packet_type = 2 then get_reliable_slice lib b
     else if packet_type = 3 then get_unreliable_slice lib b
     else if packet_type = 4 then get_ack lib b
     else Err InvalidPacketType)"

subsection \<open>Well-formed packets and the reference encoding\<close>

text \<open>
  Ranges are half-open. \<open>pending_acks\<close> keeps them non-empty, ascending and with a gap of at least one
  sequence number between neighbours; this is what the compact encoding of \<open>Ack\<close> can represent.
\<close>

definition ack_ranges_wf :: "ack_range list \<Rightarrow> bool" where
  "ack_ranges_wf rs \<longleftrightarrow> (\<forall>(s, e) \<in> set rs. s < e) \<and> sorted_wrt (\<lambda>a b. snd a < fst b) rs"

fun slice_wf :: "Slice \<Rightarrow> bool" where
  "slice_wf sl \<longleftrightarrow> message_id sl < varint_limit \<and> slice_index sl < varint_limit \<and>
     0 < num_slices sl \<and> num_slices sl \<le> 1000000 \<and> length (payload sl) < varint_limit"

fun packet_wf :: "Packet \<Rightarrow> bool" where
  "packet_wf (SmallReliable s c ms) \<longleftrightarrow> s < varint_limit \<and> length ms < 65536 \<and>
     (\<forall>(mid, m) \<in> set ms. mid < varint_limit \<and> length m < varint_limit)"
| "packet_wf (SmallUnreliable s c ms) \<longleftrightarrow> s < varint_limit \<and> length ms < 65536 \<and>
     (\<forall>m \<in> set ms. length m < varint_limit)"
| "packet_wf (UnreliableSlice s c sl) \<longleftrightarrow> s < varint_limit \<and> slice_wf sl"
| "packet_wf (ReliableSlice s c sl) \<longleftrightarrow> s < varint_limit \<and> slice_wf sl \<and>
     payload sl \<noteq> [] \<and> length (payload sl) \<le> SLICE_SIZE"
| "packet_wf (Ack s rs) \<longleftrightarrow> s < varint_limit \<and> rs \<noteq> [] \<and> ack_ranges_wf rs \<and>
     snd (last rs) \<le> varint_limit \<and> length rs \<le> varint_limit"

fun ack_tail_bytes :: "(nat \<Rightarrow> bytes) \<Rightarrow> nat \<Rightarrow> ack_range list \<Rightarrow> bytes" where
  "ack_tail_bytes ev prev [] = []"
| "ack_tail_bytes ev prev ((s, e) # rs) = ev (prev - e - 1) @ ev (e - 1 - s) @ ack_tail_bytes ev s rs"

definition slice_bytes :: "(nat \<Rightarrow> bytes) \<Rightarrow> u8 \<Rightarrow> nat \<Rightarrow> u8 \<Rightarrow> Slice \<Rightarrow> bytes" where
  "slice_bytes ev tag s c sl =
     [tag] @ ev s @ [c] @ ev (message_id sl) @ ev (slice_index sl) @ ev (num_slices sl) @
     ev (length (payload sl)) @ payload sl"

fun packet_bytes :: "(u16 \<Rightarrow> bytes) \<Rightarrow> (nat \<Rightarrow> bytes) \<Rightarrow> Packet \<Rightarrow> bytes" where
  "packet_bytes e16 ev (SmallReliable s c ms) =
     [0] @ ev s @ [c] @ e16 (word_of_nat (length ms)) @
     concat (map (\<lambda>(mid, m). ev mid @ ev (length m) @ m) ms)"
| "packet_bytes e16 ev (SmallUnreliable s c ms) =
     [1] @ ev s @ [c] @ e16 (word_of_nat (length ms)) @ concat (map (\<lambda>m. ev (length m) @ m) ms)"
| "packet_bytes e16 ev (ReliableSlice s c sl) = slice_bytes ev 2 s c sl"
| "packet_bytes e16 ev (UnreliableSlice s c sl) = slice_bytes ev 3 s c sl"
| "packet_bytes e16 ev (Ack s rs) =
     [4] @ ev s @ ev (snd (last rs) - 1) @ ev (snd (last rs) - 1 - fst (last rs)) @
     ev (length rs - 1) @ ack_tail_bytes ev (fst (last rs)) (rev (butlast rs))"

subsection \<open>Reading never panics, and what it accepts\<close>

lemma from_octets_simps [simp]:
  "from_octets (Some x) = Ok x" "from_octets None = Err BufferTooShort"
  "from_octets r \<noteq> Panic" "from_octets r = Ok x \<longleftrightarrow> r = Some x"
  by (simp_all add: from_octets_def split: option.splits)

lemma get_reliable_messages_no_panic [simp]: "get_reliable_messages lib n acc b \<noteq> Panic"
  by (induction lib n acc b rule: get_reliable_messages.induct)
    (auto simp: and_then_eq_Panic split: prod.splits)

lemma get_unreliable_messages_no_panic [simp]: "get_unreliable_messages lib n acc b \<noteq> Panic"
  by (induction lib n acc b rule: get_unreliable_messages.induct)
    (auto simp: and_then_eq_Panic split: prod.splits)

lemma get_ack_ranges_no_panic [simp]: "get_ack_ranges lib n prev acc b \<noteq> Panic"
  by (induction n arbitrary: prev acc b)
    (auto simp: and_then_eq_Panic sub_or_panic_def split: prod.splits if_splits)

lemma get_slice_no_panic [simp]: "get_reliable_slice lib b \<noteq> Panic" "get_unreliable_slice lib b \<noteq> Panic"
  by (auto simp: get_reliable_slice_def get_unreliable_slice_def and_then_eq_Panic
      split: prod.splits if_splits)

lemma get_ack_no_panic [simp]: "get_ack lib b \<noteq> Panic"
  by (auto simp: get_ack_def and_then_eq_Panic sub_or_panic_def split: prod.splits if_splits)

lemma from_bytes_not_Panic: "from_bytes lib b \<noteq> Panic"
  by (auto simp: from_bytes_def and_then_eq_Panic split: prod.splits if_splits)

text \<open>The descending lists the ack loop builds.\<close>

definition desc_ranges_wf :: "ack_range list \<Rightarrow> bool" where
  "desc_ranges_wf rs \<longleftrightarrow> (\<forall>(s, e) \<in> set rs. s < e) \<and> sorted_wrt (\<lambda>a b. snd b < fst a) rs"

lemma desc_ranges_wf_rev: "desc_ranges_wf rs \<longleftrightarrow> ack_ranges_wf (rev rs)"
  by (simp add: desc_ranges_wf_def ack_ranges_wf_def sorted_wrt_rev)

lemma desc_ranges_wf_snoc:
  assumes "desc_ranges_wf rs" and "rs \<noteq> []" and "fst (last rs) = p" and "s < e" and "e < p"
  shows "desc_ranges_wf (rs @ [(s, e)])"
proof -
  have "e < fst x" if "x \<in> set rs" for x
  proof (cases "x = last rs")
    case False
    then have "x \<in> set (butlast rs)" using that assms(2) by (metis append_butlast_last_id
          UnE empty_iff empty_set set_ConsD set_append)
    moreover have "sorted_wrt (\<lambda>a b. snd b < fst a) (butlast rs @ [last rs])"
      using assms(1,2) by (simp add: desc_ranges_wf_def)
    ultimately have "snd (last rs) < fst x" by (simp add: sorted_wrt_append)
    moreover have "fst (last rs) < snd (last rs)"
      using assms(1,2) by (auto simp: desc_ranges_wf_def split: prod.splits dest: last_in_set)
    ultimately show ?thesis using assms(3,5) by simp
  qed (use assms in simp)
  then show ?thesis using assms(1,4) by (auto simp: desc_ranges_wf_def sorted_wrt_append)
qed

lemma get_ack_ranges_wf:
  "get_ack_ranges lib n prev acc b = Ok (rs, b') \<Longrightarrow> acc \<noteq> [] \<Longrightarrow> fst (last acc) = prev \<Longrightarrow>
   desc_ranges_wf acc \<Longrightarrow> desc_ranges_wf rs \<and> rs \<noteq> [] \<and> hd rs = hd acc"
proof (induction n arbitrary: prev acc b)
  case (Suc n)
  from Suc.prems(1) obtain gap b1 size b2 where gap: "2 + gap \<le> prev" and size: "size \<le> prev - gap - 2"
    and rec: "get_ack_ranges lib n (prev - gap - 2 - size)
                (acc @ [(prev - gap - 2 - size, Suc (prev - gap - 2))]) b2 = Ok (rs, b')"
    by (auto simp: sub_or_panic_def not_less split: prod.splits if_splits)
  have "desc_ranges_wf (acc @ [(prev - gap - 2 - size, Suc (prev - gap - 2))])"
    using gap size Suc.prems by (intro desc_ranges_wf_snoc [where p = prev]) auto
  then have "desc_ranges_wf rs \<and> rs \<noteq> [] \<and>
      hd rs = hd (acc @ [(prev - gap - 2 - size, Suc (prev - gap - 2))])"
    by (intro Suc.IH [OF rec]) simp_all
  then show ?case using Suc.prems(2) by simp
qed simp

lemma get_ack_wf:
  assumes "get_ack lib b = Ok (p, b')"
  shows "\<exists>s rs. p = Ack s rs \<and> rs \<noteq> [] \<and> ack_ranges_wf rs"
proof -
  from assms obtain s rs n en size b1 where p: "p = Ack s (rev rs)"
    and rs: "get_ack_ranges lib n (en - size) [(en - size, Suc en)] b1 = Ok (rs, b')"
    by (auto simp: get_ack_def sub_or_panic_def split: prod.splits if_splits)
  have "desc_ranges_wf rs \<and> rs \<noteq> [] \<and> hd rs = hd [(en - size, Suc en)]"
    by (rule get_ack_ranges_wf [OF rs]) (auto simp: desc_ranges_wf_def)
  with p show ?thesis by (simp add: desc_ranges_wf_rev)
qed

subsection \<open>Round trip\<close>

context octets_laws
begin

lemma write_chain [simp]:
  "and_then (from_octets (write_bytes xs w)) (\<lambda>b. from_octets (write_bytes ys b)) =
   from_octets (write_bytes (xs @ ys) w)"
  by (cases "write_bytes xs w") (simp_all add: write_bytes_append)

lemma write_nil: "Ok b = from_octets (write_bytes [] b)"
  by (simp add: write_bytes_def)

lemma put_reliable_messages_eq:
  "\<forall>(mid, m) \<in> set ms. mid < varint_limit \<and> length m < varint_limit \<Longrightarrow>
   put_reliable_messages lib ms =
   (\<lambda>b. from_octets (write_bytes (concat (map (\<lambda>(mid, m). enc_varint mid @ enc_varint (length m) @ m) ms)) b))"
proof (induction ms)
  case (Cons e ms)
  then show ?case by (cases e) (auto simp: put_varint put_bytes intro!: ext)
qed (simp add: write_nil fun_eq_iff)

lemma put_unreliable_messages_eq:
  "\<forall>m \<in> set ms. length m < varint_limit \<Longrightarrow>
   put_unreliable_messages lib ms =
   (\<lambda>b. from_octets (write_bytes (concat (map (\<lambda>m. enc_varint (length m) @ m) ms)) b))"
proof (induction ms)
  case (Cons e ms)
  then show ?case by (auto simp: put_varint put_bytes intro!: ext)
qed (simp add: write_nil fun_eq_iff)

lemma put_slice_eq:
  "s < varint_limit \<Longrightarrow> slice_wf sl \<Longrightarrow>
   put_slice lib tag s c sl b = from_octets (write_bytes (slice_bytes enc_varint tag s c sl) b)"
  by (simp add: put_slice_def slice_bytes_def put_u8 put_varint put_bytes)

lemma put_ack_ranges_eq:
  assumes "prev \<le> varint_limit" and "sorted_wrt (\<lambda>a b. snd b < fst a) rs"
    and "\<forall>(s, e) \<in> set rs. s < e \<and> e < prev"
  shows "put_ack_ranges lib prev rs = (\<lambda>b. from_octets (write_bytes (ack_tail_bytes enc_varint prev rs) b))"
  using assms
proof (induction rs arbitrary: prev)
  case (Cons r rs)
  obtain s e where r: "r = (s, e)" by (cases r)
  have "put_ack_ranges lib s rs = (\<lambda>b. from_octets (write_bytes (ack_tail_bytes enc_varint s rs) b))"
    using Cons.prems r by (intro Cons.IH) auto
  moreover have "s < e" "e < prev" "prev - e - 1 < varint_limit" "e - 1 - s < varint_limit"
    using Cons.prems r by auto
  ultimately show ?case using r by (auto simp: put_varint intro!: ext)
qed (simp add: write_nil fun_eq_iff)

end

lemma rev_last_butlast: "rs \<noteq> [] \<Longrightarrow> rev rs = last rs # rev (butlast rs)"
  by (cases rs rule: rev_cases) simp_all

lemma ack_ranges_wf_last:
  assumes "ack_ranges_wf rs" and "rs \<noteq> []"
  shows "fst (last rs) < snd (last rs)" and "sorted_wrt (\<lambda>a b. snd b < fst a) (rev (butlast rs))"
    and "\<forall>(s, e) \<in> set (rev (butlast rs)). s < e \<and> e < fst (last rs)"
proof -
  obtain l ls where rs: "rs = ls @ [l]" using assms(2) by (cases rs rule: rev_cases) auto
  show "fst (last rs) < snd (last rs)" "\<forall>(s, e) \<in> set (rev (butlast rs)). s < e \<and> e < fst (last rs)"
    and "sorted_wrt (\<lambda>a b. snd b < fst a) (rev (butlast rs))"
    using assms(1) unfolding rs by (auto simp: ack_ranges_wf_def sorted_wrt_append sorted_wrt_rev)
qed

context octets_laws
begin

lemma put_packet_eq:
  assumes "packet_wf p"
  shows "put_packet lib p b = from_octets (write_bytes (packet_bytes enc_u16 enc_varint p) b)"
proof (cases p)
  case (SmallReliable s c ms)
  with assms show ?thesis
    by (simp add: put_reliable_messages_eq put_u8 put_u16 put_varint)
next
  case (SmallUnreliable s c ms)
  with assms show ?thesis
    by (simp add: put_unreliable_messages_eq put_u8 put_u16 put_varint)
next
  case (UnreliableSlice s c sl)
  with assms show ?thesis by (simp add: put_slice_eq del: slice_wf.simps)
next
  case (ReliableSlice s c sl)
  with assms show ?thesis by (simp add: put_slice_eq del: slice_wf.simps)
next
  case (Ack s rs)
  obtain st en where l: "last rs = (st, en)" by (cases "last rs")
  have wf: "rs \<noteq> []" "ack_ranges_wf rs" "s < varint_limit" "en \<le> varint_limit" "length rs \<le> varint_limit"
    using assms Ack l by auto
  note last = ack_ranges_wf_last [OF wf(2,1), unfolded l, simplified]
  have "put_ack_ranges lib st (rev (butlast rs)) =
    (\<lambda>b. from_octets (write_bytes (ack_tail_bytes enc_varint st (rev (butlast rs))) b))"
    using last wf by (intro put_ack_ranges_eq) auto
  moreover have "st \<le> en - Suc 0" "en - Suc 0 < varint_limit" "en - Suc (st) < varint_limit"
    "Suc 0 \<le> en" "length rs - Suc 0 < varint_limit"
    using last wf by (auto simp: Suc_le_eq)
  ultimately show ?thesis
    using wf Ack l by (simp add: rev_last_butlast put_u8 put_varint)
qed

lemma to_bytes_eq:
  assumes "packet_wf p"
  shows "to_bytes lib p b =
    (if length (packet_bytes enc_u16 enc_varint p) \<le> om_cap b
     then Ok (length (packet_bytes enc_u16 enc_varint p),
       \<lparr>om_written = om_written b @ packet_bytes enc_u16 enc_varint p,
        om_cap = om_cap b - length (packet_bytes enc_u16 enc_varint p)\<rparr>)
     else Err BufferTooShort)"
  using assms by (simp add: to_bytes_def put_packet_eq write_bytes_def)

lemma get_reliable_messages_enc:
  "\<forall>(mid, m) \<in> set ms. mid < varint_limit \<and> length m < varint_limit \<Longrightarrow>
   get_reliable_messages lib (length ms) acc
     (concat (map (\<lambda>(mid, m). enc_varint mid @ enc_varint (length m) @ m) ms) @ r) = Ok (acc @ ms, r)"
  by (induction ms arbitrary: acc) (auto simp: get_varint get_enc_bytes)

lemma get_unreliable_messages_enc:
  "\<forall>m \<in> set ms. length m < varint_limit \<Longrightarrow>
   get_unreliable_messages lib (length ms) acc
     (concat (map (\<lambda>m. enc_varint (length m) @ m) ms) @ r) = Ok (acc @ ms, r)"
  by (induction ms arbitrary: acc) (auto simp: get_enc_bytes)

lemma get_ack_ranges_enc:
  assumes "prev \<le> varint_limit" and "sorted_wrt (\<lambda>a b. snd b < fst a) rs"
    and "\<forall>(s, e) \<in> set rs. s < e \<and> e < prev"
  shows "get_ack_ranges lib (length rs) prev acc (ack_tail_bytes enc_varint prev rs @ r) = Ok (acc @ rs, r)"
  using assms
proof (induction rs arbitrary: prev acc)
  case (Cons x rs)
  obtain s e where x: "x = (s, e)" by (cases x)
  have "get_ack_ranges lib (length rs) s (acc @ [(s, e)]) (ack_tail_bytes enc_varint s rs @ r) =
      Ok ((acc @ [(s, e)]) @ rs, r)"
    using Cons.prems x by (intro Cons.IH) auto
  moreover have "s < e" "e < prev" "prev - Suc e < varint_limit" "e - Suc s < varint_limit"
    "prev - (prev - Suc e) - 2 = e - 1" "e - Suc 0 - (e - Suc s) = s"
    using Cons.prems x by auto
  ultimately show ?case using x by (auto simp: get_varint)
qed simp

lemma from_bytes_packet_bytes:
  assumes "packet_wf p"
  shows "from_bytes lib (packet_bytes enc_u16 enc_varint p @ r) = Ok (p, r)"
proof (cases p)
  case (SmallReliable s c ms)
  then have "unat (word_of_nat (length ms) :: u16) = length ms"
    using assms by (simp add: unat_of_nat take_bit_eq_mod)
  with assms SmallReliable show ?thesis
    by (simp add: from_bytes_def get_u8 get_u16 get_varint get_reliable_messages_enc)
next
  case (SmallUnreliable s c ms)
  then have "unat (word_of_nat (length ms) :: u16) = length ms"
    using assms by (simp add: unat_of_nat take_bit_eq_mod)
  with assms SmallUnreliable show ?thesis
    by (simp add: from_bytes_def get_u8 get_u16 get_varint get_unreliable_messages_enc)
next
  case (UnreliableSlice s c sl)
  with assms show ?thesis
    by (simp add: from_bytes_def get_unreliable_slice_def slice_bytes_def get_u8 get_varint get_enc_bytes)
next
  case (ReliableSlice s c sl)
  with assms show ?thesis
    by (simp add: from_bytes_def get_reliable_slice_def slice_bytes_def get_u8 get_varint get_enc_bytes)
next
  case (Ack s rs)
  obtain st en where l: "last rs = (st, en)" by (cases "last rs")
  have wf: "rs \<noteq> []" "ack_ranges_wf rs" "s < varint_limit" "en \<le> varint_limit" "length rs \<le> varint_limit"
    using assms Ack l by auto
  note last = ack_ranges_wf_last [OF wf(2,1), unfolded l, simplified]
  have "get_ack_ranges lib (length (rev (butlast rs))) st [(st, en)]
      (ack_tail_bytes enc_varint st (rev (butlast rs)) @ r) = Ok ([(st, en)] @ rev (butlast rs), r)"
    using last wf by (intro get_ack_ranges_enc) auto
  moreover have "st \<le> en - Suc 0" "en - Suc 0 < varint_limit" "en - Suc (st) < varint_limit"
    "Suc (en - Suc 0) = en" "length rs - Suc 0 < varint_limit" "en - Suc 0 - (en - Suc st) = st"
    using last wf by auto
  moreover have "butlast rs @ [(st, en)] = rs" using wf(1) l by (metis append_butlast_last_id)
  ultimately show ?thesis
    using wf Ack l by (simp add: from_bytes_def get_ack_def get_u8 get_varint)
qed

end

context octets_laws
begin

lemma get_bytes_limit:
  assumes "oc_get_bytes_with_varint_length lib b = Some (pl, r)"
  shows "length pl < varint_limit"
proof -
  from assms obtain n r' where "oc_get_varint lib b = Some (n, r')" and "pl = take n r'" and "n \<le> length r'"
    by (auto simp: get_bytes_with_varint_length split: option.splits prod.splits if_splits)
  then show ?thesis using get_varint_limit [of b n r'] by simp
qed

lemma get_reliable_messages_wf:
  "get_reliable_messages lib n acc b = Ok (ms, r) \<Longrightarrow>
   \<forall>(mid, m) \<in> set acc. mid < varint_limit \<and> length m < varint_limit \<Longrightarrow>
   length ms = length acc + n \<and> (\<forall>(mid, m) \<in> set ms. mid < varint_limit \<and> length m < varint_limit)"
proof (induction n arbitrary: acc b)
  case (Suc n)
  from Suc.prems(1) obtain mid b1 pl b2 where mid: "oc_get_varint lib b = Some (mid, b1)"
    and pl: "oc_get_bytes_with_varint_length lib b1 = Some (pl, b2)"
    and rec: "get_reliable_messages lib n (acc @ [(mid, pl)]) b2 = Ok (ms, r)"
    by (auto split: prod.splits)
  show ?case
    using Suc.IH [OF rec] Suc.prems(2) get_varint_limit [OF mid] get_bytes_limit [OF pl] by auto
qed simp

lemma get_unreliable_messages_wf:
  "get_unreliable_messages lib n acc b = Ok (ms, r) \<Longrightarrow> \<forall>m \<in> set acc. length m < varint_limit \<Longrightarrow>
   length ms = length acc + n \<and> (\<forall>m \<in> set ms. length m < varint_limit)"
proof (induction n arbitrary: acc b)
  case (Suc n)
  from Suc.prems(1) obtain pl b2 where pl: "oc_get_bytes_with_varint_length lib b = Some (pl, b2)"
    and rec: "get_unreliable_messages lib n (acc @ [pl]) b2 = Ok (ms, r)"
    by (auto split: prod.splits)
  have "\<forall>m \<in> set (acc @ [pl]). length m < varint_limit"
    using get_bytes_limit [OF pl] Suc.prems(2) by simp
  from Suc.IH [OF rec this] show ?case by simp
qed simp

lemma get_ack_ranges_length:
  "get_ack_ranges lib n prev acc b = Ok (rs, r) \<Longrightarrow> length rs = length acc + n"
proof (induction n arbitrary: prev acc b)
  case (Suc n)
  from Suc.prems obtain prev' x b' where "get_ack_ranges lib n prev' (acc @ [x]) b' = Ok (rs, r)"
    by (auto simp: sub_or_panic_def split: prod.splits if_splits)
  from Suc.IH [OF this] show ?case by simp
qed simp

lemma get_ack_packet_wf:
  assumes "get_ack lib b = Ok (p, b')"
  shows "packet_wf p"
proof -
  from assms obtain s b0 rs n b1 en b2 size b3 where p: "p = Ack s (rev rs)"
    and v: "oc_get_varint lib b = Some (s, b0)" "oc_get_varint lib b0 = Some (en, b1)"
      "oc_get_varint lib b2 = Some (n, b3)"
    and rs: "get_ack_ranges lib n (en - size) [(en - size, Suc en)] b3 = Ok (rs, b')"
    by (auto simp: get_ack_def sub_or_panic_def split: prod.splits if_splits)
  have wf: "desc_ranges_wf rs \<and> rs \<noteq> [] \<and> hd rs = hd [(en - size, Suc en)]"
    by (rule get_ack_ranges_wf [OF rs]) (auto simp: desc_ranges_wf_def)
  moreover note v [THEN get_varint_limit]
  moreover have "last (rev rs) = hd rs" using wf by (simp add: last_rev)
  ultimately show ?thesis
    using p get_ack_ranges_length [OF rs] by (simp add: desc_ranges_wf_rev)
qed

lemma get_slice_packet_wf:
  "get_reliable_slice lib b = Ok (p, r) \<Longrightarrow> packet_wf p"
  "get_unreliable_slice lib b = Ok (p, r) \<Longrightarrow> packet_wf p"
  by (auto simp: get_reliable_slice_def get_unreliable_slice_def split: prod.splits if_splits
      dest!: get_varint_limit get_bytes_limit)

lemma from_bytes_packet_wf:
  assumes "from_bytes lib b = Ok (p, r)"
  shows "packet_wf p"
proof -
  have len: "unat (w :: u16) < 65536" for w using unsigned_less [of w, where ?'a = nat] by simp
  from assms consider
      s b0 c n ms b1 b2 b3 where "p = SmallReliable s c ms" "oc_get_varint lib b0 = Some (s, b1)"
        "get_reliable_messages lib (unat (n :: u16)) [] b2 = Ok (ms, b3)"
    | s b0 c n ms b1 b2 b3 where "p = SmallUnreliable s c ms" "oc_get_varint lib b0 = Some (s, b1)"
        "get_unreliable_messages lib (unat (n :: u16)) [] b2 = Ok (ms, b3)"
    | b0 where "get_reliable_slice lib b0 = Ok (p, r)"
    | b0 where "get_unreliable_slice lib b0 = Ok (p, r)"
    | b0 where "get_ack lib b0 = Ok (p, r)"
    by (auto simp: from_bytes_def split: prod.splits if_splits)
  then show ?thesis
  proof cases
    case 1
    then show ?thesis using get_reliable_messages_wf [OF 1(3)] get_varint_limit [OF 1(2)] len by simp
  next
    case 2
    then show ?thesis using get_unreliable_messages_wf [OF 2(3)] get_varint_limit [OF 2(2)] len by simp
  qed (auto intro: get_slice_packet_wf get_ack_packet_wf)
qed

end

subsection \<open>Properties\<close>

text \<open>
  C7: a well-formed packet survives serialisation. Given an \<open>octets\<close> library that behaves as
  documented, writing a well-formed packet into a buffer that is large enough succeeds, the returned
  length is the number of bytes written, and reading those bytes (whatever follows them in the
  buffer) gives the packet back and leaves exactly what follows.
\<close>
theorem packet_roundtrip:
  assumes "octets_laws lib e16 ev" and "packet_wf p" and "length (packet_bytes e16 ev p) \<le> n"
  shows "\<exists>w. to_bytes lib p (with_slice n) = Ok (length (om_written w), w) \<and>
           from_bytes lib (om_written w @ rest) = Ok (p, rest)"
  using assms
  by (auto simp: octets_laws.to_bytes_eq octets_laws.from_bytes_packet_bytes with_slice_def)

theorem packet_roundtrip_witness:
  "\<exists>w. to_bytes quic_lib (Ack 5 [(3, 7), (10, 20), (30, 100)]) (with_slice 1300) =
         Ok (length (om_written w), w) \<and>
       from_bytes quic_lib (om_written w @ [0, 0]) = Ok (Ack 5 [(3, 7), (10, 20), (30, 100)], [0, 0])"
  by (rule packet_roundtrip [OF quic.octets_laws_axioms])
    (simp_all add: ack_ranges_wf_def quic_enc_varint_def)

text \<open>
  C24: parsing is total and sound on arbitrary input. \<open>from_bytes\<close> panics on no byte string (none of
  its subtractions on attacker-chosen ack ranges underflows), and every packet it accepts is
  well-formed: in particular ack ranges are non-empty, ascending and disjoint, slice counts lie
  between 1 and 1000000 and reliable slices carry between 1 and \<open>SLICE_SIZE\<close> bytes.
\<close>
theorem from_bytes_safe:
  assumes "octets_laws lib e16 ev"
  shows "from_bytes lib b \<noteq> Panic \<and> (\<forall>p r. from_bytes lib b = Ok (p, r) \<longrightarrow> packet_wf p)"
  using octets_laws.from_bytes_packet_wf [OF assms] from_bytes_not_Panic by blast

theorem from_bytes_safe_witness:
  "from_bytes quic_lib [4, 5, 19, 9, 0] = Ok (Ack 5 [(10, 20)], []) \<and> packet_wf (Ack 5 [(10, 20)]) \<and>
   from_bytes quic_lib [4, 5] \<noteq> Panic"
proof -
  have "from_bytes quic_lib [4, 5, 19, 9, 0] = Ok (Ack 5 [(10, 20)], [])"
    by (simp add: from_bytes_def get_ack_def quic_lib_def quic_get_varint_def)
  then show ?thesis using from_bytes_safe [OF quic.octets_laws_axioms] by blast
qed

end
