(* ===== verification/Renet_Error.thy ===== *)
theory Renet_Error
  imports Renet_Packet
begin

text \<open>\<open>src/renet2/src/error.rs\<close>: the error values of the message layer.\<close>

datatype ChannelError = ReliableChannelMaxMemoryReached | InvalidSliceMessage

datatype DisconnectReason =
    Transport
  | DisconnectedByClient
  | DisconnectedByServer
  | PacketSerialization SerializationError
  | PacketDeserialization SerializationError
  | ReceivedInvalidChannelId u8
  | SendChannelError u8 ChannelError
  | ReceiveChannelError u8 ChannelError

datatype ClientNotFound = ClientNotFound

end
