(* ===== verification/Slice_Constructor.thy ===== *)
theory Slice_Constructor
  imports Renet_Error
begin

text \<open>
  \<open>src/renet2/src/channel/slice_constructor.rs\<close>: reassembly of a message from its slices. The lemmas
  show that feeding the slices of a message in any order, with repetitions, yields exactly that
  message when the last missing slice arrives and nothing before, and which inputs make
  \<open>process_slice\<close> panic.
\<close>

record slice_constructor =
  sc_message_id :: nat
  sc_num_slices :: nat
  num_received_slices :: nat
  received :: "bool list"
  sliced_data :: bytes

definition sc_new :: "nat \<Rightarrow> nat \<Rightarrow> slice_constructor" where
  "sc_new mid n = \<lparr>sc_message_id = mid, sc_num_slices = n, num_received_slices = 0,
     received = replicate n False, sliced_data = replicate (n * SLICE_SIZE) 0\<rparr>"

text \<open>The body of \<open>if !self.received[slice_index]\<close>.\<close>

definition sc_store :: "slice_constructor \<Rightarrow> nat \<Rightarrow> bytes \<Rightarrow> slice_constructor option" where
  "sc_store sc idx bs = do {
     last \<leftarrow> checked_sub (sc_num_slices sc) 1;
     rcvd \<leftarrow> set_index (received sc) idx True;
     let data = (if idx = last then resize (sliced_data sc) (last * SLICE_SIZE + length bs) 0 else sliced_data sc);
     let start = idx * SLICE_SIZE;
     let end = (if idx = last then last * SLICE_SIZE + length bs else (idx + 1) * SLICE_SIZE);
     data \<leftarrow> copy_range data start end bs;
     Some (sc\<lparr>received := rcvd, num_received_slices := num_received_slices sc + 1, sliced_data := data\<rparr>)
   }"

definition sc_process_slice ::
  "slice_constructor \<Rightarrow> nat \<Rightarrow> bytes \<Rightarrow> (slice_constructor \<times> (ChannelError + bytes option)) option" where
  "sc_process_slice sc idx bs = do {
     last \<leftarrow> checked_sub (sc_num_slices sc) 1;
     let is_last_slice = (idx = last);
     if is_last_slice \<and> length bs > SLICE_SIZE then Some (sc, Inl InvalidSliceMessage)
     else if \<not> is_last_slice \<and> length bs \<noteq> SLICE_SIZE then Some (sc, Inl InvalidSliceMessage)
     else do {
       already \<leftarrow> index (received sc) idx;
       sc \<leftarrow> (if already then Some sc else sc_store sc idx bs);
       if num_received_slices sc = sc_num_slices sc
       then Some (sc\<lparr>sliced_data := []\<rparr>, Inr (Some (sliced_data sc)))
       else Some (sc, Inr None)
     }
   }"

subsection \<open>How a message is cut\<close>

definition num_slices_of :: "bytes \<Rightarrow> nat" where
  "num_slices_of msg = div_ceil (length msg) SLICE_SIZE"

definition slice_of :: "bytes \<Rightarrow> nat \<Rightarrow> bytes" where
  "slice_of msg i = take SLICE_SIZE (drop (i * SLICE_SIZE) msg)"

lemma SLICE_SIZE_pos [simp]: "0 < SLICE_SIZE"
  by (simp add: SLICE_SIZE_def)

lemma div_ceil_bounds:
  assumes "0 < b"
  shows "a \<le> div_ceil a b * b" and "a \<noteq> 0 \<Longrightarrow> (div_ceil a b - 1) * b < a" and "a \<noteq> 0 \<Longrightarrow> 0 < div_ceil a b"
proof -
  have d: "a = a div b * b + a mod b" by simp
  have m: "a mod b < b" using assms by simp
  show "a \<le> div_ceil a b * b"
  proof (cases "a mod b > 0")
    case True
    have "a \<le> a div b * b + b" using d m by linarith
    then show ?thesis using True by (simp add: div_ceil_def add.commute)
  next
    case False
    then show ?thesis using d by (simp add: div_ceil_def)
  qed
  show "(div_ceil a b - 1) * b < a" if "a \<noteq> 0"
  proof (cases "a mod b > 0")
    case True
    then have "a div b * b < a" using d by linarith
    then show ?thesis using True by (simp add: div_ceil_def)
  next
    case False
    then have e: "a div b * b = a" using d by simp
    then have "a div b \<noteq> 0" using that by (metis mult_0)
    then have "(a div b - 1) * b < a div b * b" using assms by simp
    then have "(a div b - 1) * b < a" unfolding e .
    then show ?thesis using False by (simp add: div_ceil_def)
  qed
  show "0 < div_ceil a b" if "a \<noteq> 0"
    using that d by (auto simp: div_ceil_def intro!: gr0I)
qed

lemma num_slices_of_bounds:
  assumes "msg \<noteq> []"
  shows "0 < num_slices_of msg" and "(num_slices_of msg - 1) * SLICE_SIZE < length msg"
    and "length msg \<le> num_slices_of msg * SLICE_SIZE"
  using div_ceil_bounds [of SLICE_SIZE "length msg"] assms by (simp_all add: num_slices_of_def)

lemma num_slices_of_unique:
  assumes "(n - 1) * SLICE_SIZE < length msg" and "length msg \<le> n * SLICE_SIZE"
  shows "num_slices_of msg = n"
proof -
  have "msg \<noteq> []" using assms(1) by auto
  note b = num_slices_of_bounds [OF this]
  from assms b have "(n - 1) * SLICE_SIZE < num_slices_of msg * SLICE_SIZE"
    and "(num_slices_of msg - 1) * SLICE_SIZE < n * SLICE_SIZE" by linarith+
  then have "n - 1 < num_slices_of msg" and "num_slices_of msg - 1 < n" by simp_all
  then show ?thesis by linarith
qed

lemma length_slice_of:
  assumes "i < num_slices_of msg" and "msg \<noteq> []"
  shows "length (slice_of msg i) =
    (if i = num_slices_of msg - 1 then length msg - i * SLICE_SIZE else SLICE_SIZE)"
proof (cases "i = num_slices_of msg - 1")
  case True
  then have "length msg \<le> i * SLICE_SIZE + SLICE_SIZE"
    using num_slices_of_bounds(1,3) [OF assms(2)] by (cases "num_slices_of msg") simp_all
  with True show ?thesis by (simp add: slice_of_def)
next
  case False
  then have "i + 1 \<le> num_slices_of msg - 1" using assms(1) by linarith
  then have "(i + 1) * SLICE_SIZE \<le> (num_slices_of msg - 1) * SLICE_SIZE" by (rule mult_right_mono) simp
  with False show ?thesis using num_slices_of_bounds(2) [OF assms(2)] by (simp add: slice_of_def)
qed

lemma length_slice_of_le: "length (slice_of msg i) \<le> SLICE_SIZE"
  by (simp add: slice_of_def)

lemma slice_of_nonempty:
  assumes "i < num_slices_of msg" and "msg \<noteq> []"
  shows "slice_of msg i \<noteq> []"
proof -
  have "i * SLICE_SIZE \<le> (num_slices_of msg - 1) * SLICE_SIZE" using assms(1) by (intro mult_right_mono) simp_all
  then have "i * SLICE_SIZE < length msg" using num_slices_of_bounds(2) [OF assms(2)] by linarith
  then show ?thesis by (simp add: slice_of_def)
qed

lemma nth_slice_of: "j < length (slice_of msg i) \<Longrightarrow> slice_of msg i ! j = msg ! (i * SLICE_SIZE + j)"
  by (auto simp: slice_of_def)

subsection \<open>Structural invariant and panics\<close>

text \<open>A constructor that is still waiting for a slice.\<close>

definition sc_wf :: "slice_constructor \<Rightarrow> bool" where
  "sc_wf sc \<longleftrightarrow>
     0 < sc_num_slices sc \<and> length (received sc) = sc_num_slices sc \<and>
     num_received_slices sc = count_list (received sc) True \<and>
     num_received_slices sc < sc_num_slices sc \<and>
     (if received sc ! (sc_num_slices sc - 1)
      then (sc_num_slices sc - 1) * SLICE_SIZE \<le> length (sliced_data sc) \<and>
           length (sliced_data sc) \<le> sc_num_slices sc * SLICE_SIZE
      else length (sliced_data sc) = sc_num_slices sc * SLICE_SIZE)"

lemma sc_num_slices_new [simp]: "sc_num_slices (sc_new mid n) = n"
  by (simp add: sc_new_def)

lemma sc_wf_new: "0 < n \<Longrightarrow> sc_wf (sc_new mid n)"
  by (simp add: sc_wf_def sc_new_def)

definition store_data :: "slice_constructor \<Rightarrow> nat \<Rightarrow> bytes \<Rightarrow> bytes" where
  "store_data sc idx bs = take (idx * SLICE_SIZE) (sliced_data sc) @ bs @
     (if idx = sc_num_slices sc - 1 then [] else drop ((idx + 1) * SLICE_SIZE) (sliced_data sc))"

lemma sc_wf_data_covers:
  assumes wf: "sc_wf sc" and i: "idx < sc_num_slices sc"
  shows "idx * SLICE_SIZE \<le> length (sliced_data sc)"
    and "idx \<noteq> sc_num_slices sc - 1 \<Longrightarrow> (idx + 1) * SLICE_SIZE \<le> length (sliced_data sc)"
proof -
  have d: "(sc_num_slices sc - 1) * SLICE_SIZE \<le> length (sliced_data sc)"
    using wf by (auto simp: sc_wf_def split: if_splits)
  have "idx * SLICE_SIZE \<le> (sc_num_slices sc - 1) * SLICE_SIZE" using i by (intro mult_right_mono) simp_all
  with d show "idx * SLICE_SIZE \<le> length (sliced_data sc)" by linarith
  show "(idx + 1) * SLICE_SIZE \<le> length (sliced_data sc)" if "idx \<noteq> sc_num_slices sc - 1"
  proof -
    have "(idx + 1) * SLICE_SIZE \<le> (sc_num_slices sc - 1) * SLICE_SIZE"
      using i that by (intro mult_right_mono) simp_all
    with d show ?thesis by linarith
  qed
qed

lemma sc_store_eq:
  assumes wf: "sc_wf sc" and i: "idx < sc_num_slices sc"
    and len: "if idx = sc_num_slices sc - 1 then length bs \<le> SLICE_SIZE else length bs = SLICE_SIZE"
  shows "sc_store sc idx bs = Some (sc\<lparr>received := (received sc)[idx := True],
     num_received_slices := num_received_slices sc + 1, sliced_data := store_data sc idx bs\<rparr>)"
proof -
  have n: "1 \<le> sc_num_slices sc" and l: "idx < length (received sc)" using wf i by (simp_all add: sc_wf_def)
  note d = sc_wf_data_covers [OF wf i]
  show ?thesis
  proof (cases "idx = sc_num_slices sc - 1")
    case True
    then show ?thesis using n l len d(1) by (simp add: sc_store_def store_data_def resize_def Let_def min_def)
  next
    case False
    then show ?thesis using n l len d(2) by (simp add: sc_store_def store_data_def Let_def)
  qed
qed

lemma length_store_data:
  assumes wf: "sc_wf sc" and i: "idx < sc_num_slices sc"
    and len: "if idx = sc_num_slices sc - 1 then length bs \<le> SLICE_SIZE else length bs = SLICE_SIZE"
  shows "length (store_data sc idx bs) = (if idx = sc_num_slices sc - 1
     then (sc_num_slices sc - 1) * SLICE_SIZE + length bs else length (sliced_data sc))"
  using sc_wf_data_covers [OF wf i] len by (auto simp: store_data_def)

text \<open>Every slice with an index in range is processed, and the constructor stays well-formed or is drained.\<close>

lemma sc_wf_stored:
  assumes wf: "sc_wf sc" and i: "idx < sc_num_slices sc" and new: "\<not> received sc ! idx"
    and len: "if idx = sc_num_slices sc - 1 then length bs \<le> SLICE_SIZE else length bs = SLICE_SIZE"
    and more: "num_received_slices sc + 1 \<noteq> sc_num_slices sc"
  shows "sc_wf (sc\<lparr>received := (received sc)[idx := True],
     num_received_slices := num_received_slices sc + 1, sliced_data := store_data sc idx bs\<rparr>)"
proof -
  have "(sc_num_slices sc - 1) * SLICE_SIZE + SLICE_SIZE = sc_num_slices sc * SLICE_SIZE"
    using i by (cases "sc_num_slices sc") simp_all
  then show ?thesis
    using assms length_store_data [OF wf i len]
    by (auto simp: sc_wf_def count_list_update_True nth_list_update split: if_splits)
qed

lemma sc_process_slice_cases:
  assumes wf: "sc_wf sc" and i: "idx < sc_num_slices sc"
  shows "sc_process_slice sc idx bs =
    (if (if idx = sc_num_slices sc - 1 then length bs > SLICE_SIZE else length bs \<noteq> SLICE_SIZE)
     then Some (sc, Inl InvalidSliceMessage)
     else if received sc ! idx then Some (sc, Inr None)
     else let sc' = sc\<lparr>received := (received sc)[idx := True],
            num_received_slices := num_received_slices sc + 1, sliced_data := store_data sc idx bs\<rparr>
       in if num_received_slices sc + 1 = sc_num_slices sc
          then Some (sc'\<lparr>sliced_data := []\<rparr>, Inr (Some (store_data sc idx bs)))
          else Some (sc', Inr None))"
proof -
  have n: "1 \<le> sc_num_slices sc" and l: "idx < length (received sc)"
    and more: "num_received_slices sc \<noteq> sc_num_slices sc" using wf i by (simp_all add: sc_wf_def)
  show ?thesis
  proof (cases "if idx = sc_num_slices sc - 1 then length bs > SLICE_SIZE else length bs \<noteq> SLICE_SIZE")
    case True
    then show ?thesis using n by (auto simp: sc_process_slice_def Let_def split: if_splits)
  next
    case False
    then have len: "if idx = sc_num_slices sc - 1 then length bs \<le> SLICE_SIZE else length bs = SLICE_SIZE"
      by (simp split: if_splits)
    show ?thesis
      using n l more False sc_store_eq [OF wf i len]
      by (auto simp: sc_process_slice_def Let_def split: if_splits)
  qed
qed

lemma sc_process_slice_safe:
  assumes wf: "sc_wf sc" and i: "idx < sc_num_slices sc"
  obtains sc' r where "sc_process_slice sc idx bs = Some (sc', r)" and "sc_num_slices sc' = sc_num_slices sc"
    and "\<forall>m. r \<noteq> Inr (Some m) \<Longrightarrow> sc_wf sc'"
    and "\<And>m. r = Inr (Some m) \<Longrightarrow> length m \<le> sc_num_slices sc * SLICE_SIZE"
proof (cases "(if idx = sc_num_slices sc - 1 then length bs > SLICE_SIZE else length bs \<noteq> SLICE_SIZE) \<or> received sc ! idx")
  case True
  then show thesis using that sc_process_slice_cases [OF wf i, of bs] wf by (auto split: if_splits)
next
  case False
  then have len: "if idx = sc_num_slices sc - 1 then length bs \<le> SLICE_SIZE else length bs = SLICE_SIZE"
    by (simp split: if_splits)
  have "(sc_num_slices sc - 1) * SLICE_SIZE + SLICE_SIZE = sc_num_slices sc * SLICE_SIZE"
    using i by (cases "sc_num_slices sc") simp_all
  moreover have "length (sliced_data sc) \<le> sc_num_slices sc * SLICE_SIZE"
    using wf by (auto simp: sc_wf_def split: if_splits)
  ultimately have "length (store_data sc idx bs) \<le> sc_num_slices sc * SLICE_SIZE"
    using length_store_data [OF wf i len] len by (auto split: if_splits)
  then show thesis
    using that False sc_process_slice_cases [OF wf i, of bs] sc_wf_stored [OF wf i _ len]
    by (auto simp: Let_def split: if_splits)
qed

subsection \<open>Reassembling a message\<close>

definition sc_have :: "slice_constructor \<Rightarrow> nat set" where
  "sc_have sc = {i. i < length (received sc) \<and> received sc ! i}"

text \<open>The constructor holds slices of \<open>msg\<close> and of no other message.\<close>

definition sc_tracks :: "bytes \<Rightarrow> slice_constructor \<Rightarrow> bool" where
  "sc_tracks msg sc \<longleftrightarrow> sc_wf sc \<and> msg \<noteq> [] \<and> sc_num_slices sc = num_slices_of msg \<and>
     (received sc ! (sc_num_slices sc - 1) \<longrightarrow> length (sliced_data sc) = length msg) \<and>
     (\<forall>j < length msg. received sc ! (j div SLICE_SIZE) \<longrightarrow> sliced_data sc ! j = msg ! j)"

lemma div_SLICE_SIZE_less: "msg \<noteq> [] \<Longrightarrow> j < length msg \<Longrightarrow> j div SLICE_SIZE < num_slices_of msg"
  using num_slices_of_bounds(3) [of msg] by (intro less_mult_imp_div_less) simp

lemma sc_tracks_new:
  assumes "msg \<noteq> []"
  shows "sc_tracks msg (sc_new mid (num_slices_of msg))" and "sc_have (sc_new mid n) = {}"
  using num_slices_of_bounds(1) [OF assms] assms div_SLICE_SIZE_less [OF assms]
  by (simp_all add: sc_tracks_def sc_have_def sc_wf_new) (simp_all add: sc_new_def)

lemma nth_store_data:
  assumes wf: "sc_wf sc" and i: "idx < sc_num_slices sc"
    and len: "if idx = sc_num_slices sc - 1 then length bs \<le> SLICE_SIZE else length bs = SLICE_SIZE"
    and j: "j < length (store_data sc idx bs)"
  shows "store_data sc idx bs ! j = (if idx * SLICE_SIZE \<le> j \<and> j < idx * SLICE_SIZE + length bs
     then bs ! (j - idx * SLICE_SIZE) else sliced_data sc ! j)"
  using sc_wf_data_covers [OF wf i] len j
  by (auto simp: store_data_def nth_append min_def add.commute split: if_splits)

lemma sc_complete_iff:
  assumes "sc_wf sc"
  shows "sc_have sc \<noteq> {..<sc_num_slices sc}"
    and "i < sc_num_slices sc \<Longrightarrow> \<not> received sc ! i \<Longrightarrow>
         insert i (sc_have sc) = {..<sc_num_slices sc} \<longleftrightarrow> num_received_slices sc + 1 = sc_num_slices sc"
proof -
  have l: "length (received sc) = sc_num_slices sc" and c: "num_received_slices sc = count_list (received sc) True"
    and lt: "num_received_slices sc < sc_num_slices sc" using assms by (simp_all add: sc_wf_def)
  have all: "(\<forall>k < length bs. bs ! k) \<longleftrightarrow> {k. k < length bs \<and> bs ! k} = {..<length bs}" for bs
    by auto
  show "sc_have sc \<noteq> {..<sc_num_slices sc}"
    using count_list_True_all [of "received sc"] l c lt by (auto simp: sc_have_def)
  assume i: "i < sc_num_slices sc" "\<not> received sc ! i"
  have "insert i (sc_have sc) = {k. k < length ((received sc)[i := True]) \<and> (received sc)[i := True] ! k}"
    using i l by (auto simp: sc_have_def nth_list_update)
  then show "insert i (sc_have sc) = {..<sc_num_slices sc} \<longleftrightarrow> num_received_slices sc + 1 = sc_num_slices sc"
    using all [of "(received sc)[i := True]"] count_list_True_all [of "(received sc)[i := True]"]
      count_list_update_True [of i "received sc"] i l c by simp
qed

lemma slice_of_length_ok:
  assumes "sc_tracks msg sc" and "i < sc_num_slices sc"
  shows "if i = sc_num_slices sc - 1 then length (slice_of msg i) \<le> SLICE_SIZE
    else length (slice_of msg i) = SLICE_SIZE"
  using assms length_slice_of [of i msg] length_slice_of_le [of msg i] by (auto simp: sc_tracks_def)

lemma store_slice_of:
  assumes tr: "sc_tracks msg sc" and i: "i < sc_num_slices sc" and new: "\<not> received sc ! i"
  shows "(received sc)[i := True] ! (sc_num_slices sc - 1) \<Longrightarrow>
      length (store_data sc i (slice_of msg i)) = length msg"
    and "j < length msg \<Longrightarrow> (received sc)[i := True] ! (j div SLICE_SIZE) \<Longrightarrow>
      store_data sc i (slice_of msg i) ! j = msg ! j"
proof -
  have wf: "sc_wf sc" and ne: "msg \<noteq> []" and n: "sc_num_slices sc = num_slices_of msg"
    and ln: "received sc ! (sc_num_slices sc - 1) \<Longrightarrow> length (sliced_data sc) = length msg"
    and dt: "\<And>j. j < length msg \<Longrightarrow> received sc ! (j div SLICE_SIZE) \<Longrightarrow> sliced_data sc ! j = msg ! j"
    using tr by (auto simp: sc_tracks_def)
  have l: "length (received sc) = sc_num_slices sc" using wf by (simp add: sc_wf_def)
  note len = slice_of_length_ok [OF tr i]
  have sl: "length (slice_of msg i) = (if i = sc_num_slices sc - 1 then length msg - i * SLICE_SIZE else SLICE_SIZE)"
    using length_slice_of [of i msg] i ne n by simp
  have last: "i * SLICE_SIZE < length msg"
    using slice_of_nonempty [of i msg] i ne n by (simp add: slice_of_def)
  note sd = length_store_data [OF wf i len]
  show "length (store_data sc i (slice_of msg i)) = length msg"
    if "(received sc)[i := True] ! (sc_num_slices sc - 1)"
    using that sd sl last ln l i by (auto simp: nth_list_update split: if_splits)
  assume j: "j < length msg" and r: "(received sc)[i := True] ! (j div SLICE_SIZE)"
  have jlen: "j < length (store_data sc i (slice_of msg i))"
  proof (cases "i = sc_num_slices sc - 1 \<or> received sc ! (sc_num_slices sc - 1)")
    case True
    then show ?thesis using sd sl last ln j by auto
  next
    case False
    then have "length (sliced_data sc) = num_slices_of msg * SLICE_SIZE" using wf n by (simp add: sc_wf_def)
    then show ?thesis using False sd j num_slices_of_bounds(3) [OF ne] by simp
  qed
  show "store_data sc i (slice_of msg i) ! j = msg ! j"
  proof (cases "i * SLICE_SIZE \<le> j \<and> j < i * SLICE_SIZE + length (slice_of msg i)")
    case True
    then show ?thesis using nth_store_data [OF wf i len jlen] nth_slice_of [of "j - i * SLICE_SIZE" msg i] by auto
  next
    case False
    have "j div SLICE_SIZE \<noteq> i"
    proof
      assume "j div SLICE_SIZE = i"
      then have "i * SLICE_SIZE \<le> j" "j < i * SLICE_SIZE + SLICE_SIZE"
        using div_times_less_eq_dividend [of j SLICE_SIZE] dividend_less_div_times [of SLICE_SIZE j] by auto
      then show False using False sl j by (auto split: if_splits)
    qed
    then have "received sc ! (j div SLICE_SIZE)" using r by simp
    then show ?thesis using False nth_store_data [OF wf i len jlen] dt [OF j] by auto
  qed
qed

lemma sc_tracks_step:
  assumes tr: "sc_tracks msg sc" and i: "i < sc_num_slices sc"
  shows "if insert i (sc_have sc) = {..<sc_num_slices sc}
    then \<exists>sc'. sc_process_slice sc i (slice_of msg i) = Some (sc', Inr (Some msg))
    else \<exists>sc'. sc_process_slice sc i (slice_of msg i) = Some (sc', Inr None) \<and> sc_tracks msg sc' \<and>
           sc_have sc' = insert i (sc_have sc) \<and> sc_num_slices sc' = sc_num_slices sc"
proof -
  have wf: "sc_wf sc" and l: "length (received sc) = sc_num_slices sc"
    using tr by (auto simp: sc_tracks_def sc_wf_def)
  note len = slice_of_length_ok [OF tr i]
  note step = sc_process_slice_cases [OF wf i, of "slice_of msg i"]
  show ?thesis
  proof (cases "received sc ! i")
    case True
    then have "insert i (sc_have sc) = sc_have sc" using i l by (auto simp: sc_have_def)
    then show ?thesis using True step len tr sc_complete_iff(1) [OF wf] by (auto split: if_splits)
  next
    case False
    note st = store_slice_of [OF tr i False]
    show ?thesis
    proof (cases "num_received_slices sc + 1 = sc_num_slices sc")
      case True
      then have all: "insert i (sc_have sc) = {..<sc_num_slices sc}"
        using sc_complete_iff(2) [OF wf i False] by simp
      have r: "(received sc)[i := True] ! k" if "k < sc_num_slices sc" for k
      proof -
        have "k \<in> insert i (sc_have sc)" using all that by simp
        then show ?thesis using that l by (cases "k = i") (auto simp: sc_have_def)
      qed
      have "length (store_data sc i (slice_of msg i)) = length msg" using i by (intro st(1) r) simp
      moreover have "store_data sc i (slice_of msg i) ! j = msg ! j" if "j < length msg" for j
        using that tr by (intro st(2) r) (auto simp: sc_tracks_def div_SLICE_SIZE_less)
      ultimately have "store_data sc i (slice_of msg i) = msg" by (simp add: nth_equalityI)
      then show ?thesis using True False step len all by (simp add: Let_def split: if_splits)
    next
      case more: False
      let ?sc = "sc\<lparr>received := (received sc)[i := True],
        num_received_slices := num_received_slices sc + 1, sliced_data := store_data sc i (slice_of msg i)\<rparr>"
      have "insert i (sc_have sc) \<noteq> {..<sc_num_slices sc}"
        using more sc_complete_iff(2) [OF wf i False] by simp
      moreover have "sc_process_slice sc i (slice_of msg i) = Some (?sc, Inr None)"
        using step more False len by (simp add: Let_def split: if_splits)
      moreover have "sc_tracks msg ?sc"
        using sc_wf_stored [OF wf i False len more] tr st by (simp add: sc_tracks_def)
      moreover have "sc_have ?sc = insert i (sc_have sc)"
        using i l by (auto simp: sc_have_def nth_list_update)
      ultimately show ?thesis by simp
    qed
  qed
qed
text \<open>Feeding slices one after the other, as long as the message is not complete.\<close>

fun sc_feed :: "slice_constructor \<Rightarrow> (nat \<times> bytes) list \<Rightarrow> slice_constructor option" where
  "sc_feed sc [] = Some sc"
| "sc_feed sc ((i, bs) # xs) =
     (case sc_process_slice sc i bs of Some (sc', Inr None) \<Rightarrow> sc_feed sc' xs | _ \<Rightarrow> None)"

lemma sc_feed_tracks:
  assumes "sc_tracks msg sc" and "set is \<union> sc_have sc \<subset> {..<sc_num_slices sc}"
  shows "\<exists>sc'. sc_feed sc (map (\<lambda>k. (k, slice_of msg k)) is) = Some sc' \<and> sc_tracks msg sc' \<and>
           sc_have sc' = set is \<union> sc_have sc \<and> sc_num_slices sc' = sc_num_slices sc"
  using assms
proof (induction "is" arbitrary: sc)
  case (Cons i "is")
  have "insert i (sc_have sc) \<noteq> {..<sc_num_slices sc}" and "i < sc_num_slices sc"
    using Cons.prems(2) by auto
  then obtain sc1 where sc1: "sc_process_slice sc i (slice_of msg i) = Some (sc1, Inr None)" "sc_tracks msg sc1"
    "sc_have sc1 = insert i (sc_have sc)" "sc_num_slices sc1 = sc_num_slices sc"
    using sc_tracks_step [OF Cons.prems(1), of i] by auto
  then show ?case using Cons.IH [of sc1] Cons.prems(2) by auto
qed auto

subsection \<open>Properties\<close>

text \<open>
  C16: slice reassembly is exact. Feed the slices of a non-empty message in any order, with any
  number of repetitions: as long as one slice is missing the constructor returns no message and no
  error, and the slice that completes the set makes it return exactly the original message.
\<close>
theorem slices_reassemble:
  assumes "msg \<noteq> []" and "set is \<subset> {..<num_slices_of msg}" and "insert i (set is) = {..<num_slices_of msg}"
  shows "\<exists>sc sc'. sc_feed (sc_new mid (num_slices_of msg)) (map (\<lambda>k. (k, slice_of msg k)) is) = Some sc \<and>
           sc_process_slice sc i (slice_of msg i) = Some (sc', Inr (Some msg))"
proof -
  obtain sc where "sc_feed (sc_new mid (num_slices_of msg)) (map (\<lambda>k. (k, slice_of msg k)) is) = Some sc"
    and "sc_tracks msg sc" and "sc_have sc = set is" and "sc_num_slices sc = num_slices_of msg"
    using sc_feed_tracks [OF sc_tracks_new(1) [OF assms(1), of mid], of "is"] assms(2)
    by (auto simp: sc_tracks_new(2) [OF assms(1)])
  moreover have "i < num_slices_of msg" using assms(3) by auto
  ultimately show ?thesis using sc_tracks_step [of msg sc i] assms(3) by auto
qed

theorem slices_reassemble_witness:
  "\<exists>sc sc'. sc_feed (sc_new 9 (num_slices_of (replicate 1300 7)))
              (map (\<lambda>k. (k, slice_of (replicate 1300 7) k)) [1, 1]) = Some sc \<and>
            sc_process_slice sc 0 (slice_of (replicate 1300 7) 0) = Some (sc', Inr (Some (replicate 1300 7)))"
  by (rule slices_reassemble) (auto simp: num_slices_of_def div_ceil_def SLICE_SIZE_def)

text \<open>
  C32: exactly which slices make the receiver panic. On a constructor that still waits for a slice,
  \<open>process_slice\<close> panics if and only if the index is out of range and the payload has the length of a
  full slice; no check on the path from the network rejects such a slice, since \<open>from_bytes\<close> does not
  compare the index with the number of slices.
\<close>
theorem process_slice_panic_iff:
  assumes "sc_wf sc"
  shows "sc_process_slice sc idx bs = None \<longleftrightarrow> sc_num_slices sc \<le> idx \<and> length bs = SLICE_SIZE"
proof (cases "idx < sc_num_slices sc")
  case True
  then show ?thesis using sc_process_slice_cases [OF assms True, of bs] by (simp add: Let_def)
next
  case False
  moreover have "1 \<le> sc_num_slices sc" "length (received sc) = sc_num_slices sc" using assms by (auto simp: sc_wf_def)
  ultimately show ?thesis by (auto simp: sc_process_slice_def Let_def index_def)
qed

theorem process_slice_panic_witness:
  "sc_process_slice (sc_new 0 2) 2 (replicate SLICE_SIZE 1) = None"
  using process_slice_panic_iff [OF sc_wf_new, of 2 0 2 "replicate SLICE_SIZE 1"] by simp

end
