(* ===== verification/Ordered_Map.thy ===== *)
theory Ordered_Map
  imports Renet_Prelude
begin

text \<open>
  The map containers of Rust's standard library that the code keeps its state in. A \<open>BTreeMap\<close> is
  the list of its entries in ascending key order, so that iteration, \<open>range\<close> and \<open>pop_first\<close> are
  list operations; a \<open>HashMap\<close> uses the same representation and no operation of the code depends on
  its iteration order. The interface the components rely on is the locale \<open>finite_map\<close>: what a
  lookup returns after an update, and how the total weight of the stored values (the bytes a channel
  accounts for) changes.
\<close>

type_synonym ('k, 'v) btree_map = "('k \<times> 'v) list"

text \<open>A \<open>BTreeSet\<close> is a \<open>BTreeMap\<close> to the unit type.\<close>

type_synonym 'k btree_set = "('k, unit) btree_map"

definition bt_wf :: "('k::linorder, 'v) btree_map \<Rightarrow> bool" where
  "bt_wf m \<longleftrightarrow> sorted_wrt (<) (map fst m)"

definition bt_get :: "('k, 'v) btree_map \<Rightarrow> 'k \<Rightarrow> 'v option" where
  "bt_get m k = map_of m k"

definition bt_contains_key :: "('k, 'v) btree_map \<Rightarrow> 'k \<Rightarrow> bool" where
  "bt_contains_key m k \<longleftrightarrow> bt_get m k \<noteq> None"

fun bt_insert :: "'k::linorder \<Rightarrow> 'v \<Rightarrow> ('k, 'v) btree_map \<Rightarrow> ('k, 'v) btree_map" where
  "bt_insert k v [] = [(k, v)]"
| "bt_insert k v ((k', v') # m) =
     (if k < k' then (k, v) # (k', v') # m
      else if k = k' then (k, v) # m
      else (k', v') # bt_insert k v m)"

definition bt_remove :: "'k \<Rightarrow> ('k, 'v) btree_map \<Rightarrow> ('k, 'v) btree_map" where
  "bt_remove k m = filter (\<lambda>e. fst e \<noteq> k) m"

definition bt_pop_first :: "('k, 'v) btree_map \<Rightarrow> (('k \<times> 'v) \<times> ('k, 'v) btree_map) option" where
  "bt_pop_first m = (case m of [] \<Rightarrow> None | e # r \<Rightarrow> Some (e, r))"

text \<open>The keys of \<open>range(lo..hi)\<close>, in iteration order.\<close>

definition bt_range_keys :: "'k::linorder \<Rightarrow> 'k \<Rightarrow> ('k, 'v) btree_map \<Rightarrow> 'k list" where
  "bt_range_keys lo hi m = filter (\<lambda>k. lo \<le> k \<and> k < hi) (map fst m)"

definition bt_weight :: "('v \<Rightarrow> nat) \<Rightarrow> ('k, 'v) btree_map \<Rightarrow> nat" where
  "bt_weight f m = sum_list (map (\<lambda>e. f (snd e)) m)"

subsection \<open>The interface\<close>

locale finite_map =
  fixes wf :: "'m \<Rightarrow> bool"
    and empty :: 'm
    and get :: "'m \<Rightarrow> 'k \<Rightarrow> 'v option"
    and insert :: "'k \<Rightarrow> 'v \<Rightarrow> 'm \<Rightarrow> 'm"
    and remove :: "'k \<Rightarrow> 'm \<Rightarrow> 'm"
    and weight :: "('v \<Rightarrow> nat) \<Rightarrow> 'm \<Rightarrow> nat"
  assumes wf_empty: "wf empty"
    and wf_insert: "wf m \<Longrightarrow> wf (insert k v m)"
    and wf_remove: "wf m \<Longrightarrow> wf (remove k m)"
    and get_empty: "get empty k = None"
    and get_insert: "get (insert k v m) k' = (if k' = k then Some v else get m k')"
    and get_remove: "get (remove k m) k' = (if k' = k then None else get m k')"
    and insert_remove: "wf m \<Longrightarrow> insert k v (remove k m) = insert k v m"
    and weight_empty: "weight f empty = 0"
    and weight_insert: "wf m \<Longrightarrow> get m k = None \<Longrightarrow> weight f (insert k v m) = weight f m + f v"
    and weight_remove: "wf m \<Longrightarrow> get m k = Some v \<Longrightarrow> weight f (remove k m) + f v = weight f m"
begin

lemma weight_ge_entry: "wf m \<Longrightarrow> get m k = Some v \<Longrightarrow> f v \<le> weight f m"
  using weight_remove [of m k v f] by simp

lemma weight_removed: "wf m \<Longrightarrow> get m k = Some v \<Longrightarrow> weight f (remove k m) = weight f m - f v"
  using weight_remove [of m k v f] by simp

lemma weight_replace:
  assumes "wf m" and "get m k = Some v"
  shows "weight f (insert k v' m) = weight f m - f v + f v'"
proof -
  have "weight f (insert k v' (remove k m)) = weight f (remove k m) + f v'"
    using assms(1) by (intro weight_insert) (simp_all add: wf_remove get_remove)
  with assms show ?thesis by (simp add: insert_remove weight_removed)
qed

lemma weight_replace_same:
  assumes "wf m" and "get m k = Some v" and "f v' = f v"
  shows "weight f (insert k v' m) = weight f m"
  using weight_replace [OF assms(1,2), of f v'] weight_ge_entry [OF assms(1,2), of f] assms(3) by simp

end

subsection \<open>The sorted association list implements it\<close>

lemma fst_set_bt_insert: "fst ` set (bt_insert k v m) = insert k (fst ` set m)"
  by (induction k v m rule: bt_insert.induct) auto

lemma set_map_fst_bt_insert [simp]: "set (map fst (bt_insert k v m)) = insert k (set (map fst m))"
  using fst_set_bt_insert [of k v m] by simp

lemma bt_wf_Nil [simp]: "bt_wf []"
  by (simp add: bt_wf_def)

lemma bt_wf_Cons: "bt_wf ((k, v) # m) \<longleftrightarrow> (\<forall>k' \<in> set (map fst m). k < k') \<and> bt_wf m"
  by (simp add: bt_wf_def)

lemma bt_wf_bt_insert: "bt_wf m \<Longrightarrow> bt_wf (bt_insert k v m)"
proof (induction k v m rule: bt_insert.induct)
  case (2 k v k' v' m)
  show ?case
    using 2 by (cases k k' rule: linorder_cases) (auto simp: bt_wf_Cons fst_set_bt_insert)
qed (simp add: bt_wf_Cons)

lemma bt_wf_filter: "bt_wf m \<Longrightarrow> bt_wf (filter P m)"
  by (induction m) (auto simp: bt_wf_Cons)

lemma bt_wf_bt_remove: "bt_wf m \<Longrightarrow> bt_wf (bt_remove k m)"
  by (simp add: bt_remove_def bt_wf_filter)

lemma bt_wf_distinct: "bt_wf m \<Longrightarrow> distinct (map fst m)"
  by (simp add: bt_wf_def strict_sorted_iff)

lemma bt_get_bt_insert: "bt_get (bt_insert k v m) k' = (if k' = k then Some v else bt_get m k')"
  by (induction k v m rule: bt_insert.induct) (auto simp: bt_get_def)

lemma bt_get_bt_remove: "bt_get (bt_remove k m) k' = (if k' = k then None else bt_get m k')"
  unfolding bt_get_def bt_remove_def by (induction m) auto

lemma bt_get_None_iff: "bt_get m k = None \<longleftrightarrow> k \<notin> fst ` set m"
  by (simp add: bt_get_def map_of_eq_None_iff)

lemma bt_remove_notin: "k \<notin> fst ` set m \<Longrightarrow> bt_remove k m = m"
  unfolding bt_remove_def by (induction m) auto

lemma bt_remove_absent: "bt_get m k = None \<Longrightarrow> bt_remove k m = m"
  by (simp add: bt_get_None_iff bt_remove_notin)

lemma bt_remove_smaller: "\<forall>k' \<in> set (map fst m). (k :: 'k::linorder) < k' \<Longrightarrow> bt_remove k m = m"
  by (rule bt_remove_notin) force

lemma bt_remove_Cons: "bt_remove k ((k', v) # m) = (if k' = k then bt_remove k m else (k', v) # bt_remove k m)"
  by (simp add: bt_remove_def)

lemma bt_insert_smaller: "\<forall>k' \<in> set (map fst m). k < k' \<Longrightarrow> bt_insert k v m = (k, v) # m"
  by (cases m) auto

lemma bt_insert_bt_remove: "bt_wf m \<Longrightarrow> bt_insert k v (bt_remove k m) = bt_insert k v m"
proof (induction m)
  case (Cons e m)
  obtain k' v' where e: "e = (k', v')" by (cases e)
  show ?case
  proof (cases k k' rule: linorder_cases)
    case less
    then have "\<forall>k'' \<in> set (map fst m). k < k''" using Cons.prems e by (auto simp: bt_wf_Cons)
    then show ?thesis using less e bt_remove_smaller [of m k] by (auto simp: bt_remove_Cons)
  next
    case equal
    then have "\<forall>k'' \<in> set (map fst m). k < k''" using Cons.prems e by (auto simp: bt_wf_Cons)
    then show ?thesis
      using equal e bt_remove_smaller [of m k] bt_insert_smaller [of m k v] by (simp add: bt_remove_Cons)
  next
    case greater
    then show ?thesis using Cons e by (auto simp: bt_wf_Cons bt_remove_def)
  qed
qed (simp add: bt_remove_def)

lemma bt_weight_bt_insert:
  "bt_get m k = None \<Longrightarrow> bt_weight f (bt_insert k v m) = bt_weight f m + f v"
  unfolding bt_weight_def bt_get_None_iff by (induction k v m rule: bt_insert.induct) auto

lemma bt_weight_bt_remove:
  "distinct (map fst m) \<Longrightarrow> bt_get m k = Some v \<Longrightarrow> bt_weight f (bt_remove k m) + f v = bt_weight f m"
proof (induction m)
  case (Cons e m)
  show ?case
  proof (cases "fst e = k")
    case True
    then have "bt_remove k (e # m) = m"
      using Cons.prems(1) bt_remove_notin [of k m] by (cases e) (simp add: bt_remove_Cons)
    then show ?thesis using True Cons.prems(2) by (simp add: bt_weight_def bt_get_def)
  next
    case False
    then have "bt_weight f (bt_remove k m) + f v = bt_weight f m"
      using Cons by (simp add: bt_get_def)
    then show ?thesis using False by (simp add: bt_weight_def bt_remove_def)
  qed
qed (simp add: bt_get_def)

interpretation bt: finite_map bt_wf "[]" bt_get bt_insert bt_remove bt_weight
proof unfold_locales
  show "bt_weight f [] = 0" for f :: "'v \<Rightarrow> nat" by (simp add: bt_weight_def)
  show "bt_get [] k = (None :: 'v option)" for k :: 'k by (simp add: bt_get_def)
qed (simp_all add: bt_wf_bt_insert bt_wf_bt_remove bt_get_bt_insert bt_get_bt_remove bt_insert_bt_remove
      bt_weight_bt_insert bt_weight_bt_remove bt_wf_distinct)

lemmas bt_map_simps = bt.get_insert bt.get_remove bt.get_empty bt.wf_empty bt.wf_insert bt.wf_remove

subsection \<open>Entries, ranges and the first entry\<close>

lemma bt_get_in_set: "bt_get m k = Some v \<Longrightarrow> (k, v) \<in> set m"
  by (simp add: bt_get_def map_of_SomeD)

lemma bt_in_set_get: "bt_wf m \<Longrightarrow> (k, v) \<in> set m \<Longrightarrow> bt_get m k = Some v"
  by (simp add: bt_get_def bt_wf_distinct)

lemma in_set_bt_insert: "bt_wf m \<Longrightarrow> (k', v') \<in> set (bt_insert k v m) \<Longrightarrow> (k' = k \<and> v' = v) \<or> (k', v') \<in> set m"
  using bt_in_set_get [of "bt_insert k v m" k' v'] bt_get_in_set [of m k' v']
  by (auto simp: bt_map_simps split: if_splits)

lemma in_set_bt_remove: "(k', v') \<in> set (bt_remove k m) \<Longrightarrow> k' \<noteq> k \<and> (k', v') \<in> set m"
  by (auto simp: bt_remove_def)

lemma bt_remove_insert: "bt_remove k (bt_insert k v m) = bt_remove k m"
  unfolding bt_remove_def by (induction k v m rule: bt_insert.induct) auto

lemma bt_contains_key_simps [simp]:
  "bt_contains_key (bt_insert k v m) k' \<longleftrightarrow> k' = k \<or> bt_contains_key m k'"
  "bt_contains_key (bt_remove k m) k' \<longleftrightarrow> k' \<noteq> k \<and> bt_contains_key m k'"
  "bt_contains_key [] k' = False"
  by (auto simp: bt_contains_key_def bt_map_simps)

lemma bt_contains_key_Some: "bt_get m k = Some v \<Longrightarrow> bt_contains_key m k"
  by (simp add: bt_contains_key_def)

text \<open>Removing a key that is present shortens the list: the measure of the loops that drain a map.\<close>

lemma length_bt_remove: "bt_contains_key m k \<Longrightarrow> length (bt_remove k m) < length m"
proof -
  assume "bt_contains_key m k"
  then obtain v where "(k, v) \<in> set m" by (auto simp: bt_contains_key_def dest: bt_get_in_set)
  then show ?thesis unfolding bt_remove_def by (intro length_filter_less) auto
qed

lemma bt_pop_first_Some:
  assumes "bt_wf m" and "bt_pop_first m = Some ((k, v), r)"
  shows "bt_get m k = Some v" and "r = bt_remove k m" and "\<forall>k' \<in> fst ` set r. k < k'"
proof -
  from assms(2) have m: "m = (k, v) # r" by (auto simp: bt_pop_first_def split: list.splits)
  with assms(1) show lt: "\<forall>k' \<in> fst ` set r. k < k'" by (simp add: bt_wf_Cons)
  from m show "bt_get m k = Some v" by (simp add: bt_get_def)
  from m lt show "r = bt_remove k m" using bt_remove_smaller [of r k] by (simp add: bt_remove_Cons)
qed

lemma bt_pop_first_None [simp]: "bt_pop_first m = None \<longleftrightarrow> m = []"
  by (simp add: bt_pop_first_def split: list.splits)

lemma set_bt_range_keys [simp]:
  "set (bt_range_keys lo hi m) = {k \<in> fst ` set m. lo \<le> k \<and> k < hi}"
  by (auto simp: bt_range_keys_def)

lemma distinct_bt_range_keys: "bt_wf m \<Longrightarrow> distinct (bt_range_keys lo hi m)"
  by (simp add: bt_range_keys_def bt_wf_distinct)

end
