(* ===== verification/Channel_Send.thy ===== *)
theory Channel_Send
  imports Slice_Constructor Ordered_Map
begin

text \<open>
  What the connection relies on when it asks a send channel for packets. Both send channels thread the
  connection's packet sequence counter and the byte budget of the tick through
  \<open>get_packets_to_send\<close>; the locale \<open>send_channel\<close> is their common contract, and its lemmas are what
  the connection uses. The loops of both channels share the bookkeeping defined here.
\<close>

text \<open>The local variables of \<open>get_packets_to_send\<close>, with the messages that wait for a packet.\<close>

record 'm send_state =
  st_packets :: "Packet list"
  st_small :: "'m list"
  st_small_bytes :: nat
  st_sequence :: nat
  st_available :: nat

fun packet_payload_bytes :: "Packet \<Rightarrow> nat" where
  "packet_payload_bytes (SmallReliable _ _ ms) = sum_list (map (\<lambda>e. length (snd e)) ms)"
| "packet_payload_bytes (SmallUnreliable _ _ ms) = sum_list (map length ms)"
| "packet_payload_bytes (UnreliableSlice _ _ sl) = length (payload sl)"
| "packet_payload_bytes (ReliableSlice _ _ sl) = length (payload sl)"
| "packet_payload_bytes (Ack _ _) = 0"

definition payload_bytes :: "Packet list \<Rightarrow> nat" where
  "payload_bytes ps = sum_list (map packet_payload_bytes ps)"

lemma payload_bytes_simps [simp]:
  "payload_bytes [] = 0" "payload_bytes (ps @ qs) = payload_bytes ps + payload_bytes qs"
  "payload_bytes (p # ps) = packet_payload_bytes p + payload_bytes ps"
  by (simp_all add: payload_bytes_def)

lemma upt_append: "i \<le> j \<Longrightarrow> j \<le> k \<Longrightarrow> [i..<j] @ [j..<k] = [i..<k]"
  by (metis le_Suc_ex upt_add_eq_append)

locale send_channel =
  fixes inv :: "'c \<Rightarrow> bool"
    and get_packets :: "'c \<Rightarrow> nat \<Rightarrow> nat \<Rightarrow> ('c \<times> nat \<times> nat \<times> Packet list) option"
  assumes get_packets_total: "inv c \<Longrightarrow> get_packets c s a \<noteq> None"
    and get_packets_inv: "inv c \<Longrightarrow> get_packets c s a = Some (c', s', a', ps) \<Longrightarrow> inv c'"
    and get_packets_sequences:
      "inv c \<Longrightarrow> get_packets c s a = Some (c', s', a', ps) \<Longrightarrow> map packet_sequence ps = [s..<s'] \<and> s \<le> s'"
    and get_packets_budget:
      "inv c \<Longrightarrow> get_packets c s a = Some (c', s', a', ps) \<Longrightarrow> a' + payload_bytes ps = a"
begin

lemma get_packets_Some:
  assumes "inv c"
  obtains c' s' a' ps where "get_packets c s a = Some (c', s', a', ps)" and "inv c'"
    and "map packet_sequence ps = [s..<s']" and "s \<le> s'" and "a' + payload_bytes ps = a"
  using get_packets_total [OF assms, of s a] get_packets_inv [OF assms, of s a]
    get_packets_sequences [OF assms, of s a] get_packets_budget [OF assms, of s a]
  by (metis option.exhaust prod.exhaust)

lemma get_packets_count:
  assumes "inv c" and "get_packets c s a = Some (c', s', a', ps)"
  shows "length ps = s' - s"
proof -
  have "length (map packet_sequence ps) = length [s..<s']" using get_packets_sequences [OF assms] by simp
  then show ?thesis by simp
qed

text \<open>Two channels asked one after the other, as the connection does, never reuse a sequence number.\<close>

lemma sequences_chain:
  assumes "map packet_sequence ps = [s..<s']" and "s \<le> s'"
    and "inv c" and "get_packets c s' a = Some (c', s'', a', qs)"
  shows "map packet_sequence (ps @ qs) = [s..<s'']" and "s \<le> s''"
  using get_packets_sequences [OF assms(3,4)] assms(1,2) by (auto simp: upt_append)

end

subsection \<open>Cutting a slice\<close>

text \<open>The payload of slice \<open>i\<close>: \<open>message.slice(start..end)\<close>, the last slice ending with the message.\<close>

definition message_slice :: "bytes \<Rightarrow> nat \<Rightarrow> nat \<Rightarrow> bytes option" where
  "message_slice message n i = do {
     n1 \<leftarrow> checked_sub n 1;
     let start = i * SLICE_SIZE;
     let end = (if i = n1 then length message else (i + 1) * SLICE_SIZE);
     slice_range message start end
   }"

lemma message_slice_eq:
  assumes "i < num_slices_of m" and "m \<noteq> []"
  shows "message_slice m (num_slices_of m) i = Some (slice_of m i)"
proof (cases "i = num_slices_of m - 1")
  case True
  have "i * SLICE_SIZE \<le> length m" using slice_of_nonempty [OF assms] by (simp add: slice_of_def)
  moreover have "length m - i * SLICE_SIZE \<le> SLICE_SIZE"
    using length_slice_of [OF assms] True length_slice_of_le [of m i] by simp
  ultimately show ?thesis using True assms(1) by (simp add: message_slice_def slice_of_def min_def Let_def)
next
  case False
  then have "SLICE_SIZE \<le> length m - i * SLICE_SIZE"
    using length_slice_of [OF assms] by (simp add: slice_of_def)
  then have "i * SLICE_SIZE + SLICE_SIZE \<le> length m" using SLICE_SIZE_pos by linarith
  then show ?thesis using False assms(1) by (simp add: message_slice_def slice_of_def Let_def add.commute)
qed

subsection \<open>Bookkeeping of the packing loops\<close>

text \<open>
  \<open>flush_small\<close> closes the packet that is being filled; \<open>mk\<close> builds it from the sequence number and
  the messages collected so far.
\<close>

definition flush_small :: "(nat \<Rightarrow> 'm list \<Rightarrow> Packet) \<Rightarrow> 'm send_state \<Rightarrow> 'm send_state" where
  "flush_small mk st = st\<lparr>st_packets := st_packets st @ [mk (st_sequence st) (st_small st)],
     st_small := [], st_small_bytes := 0, st_sequence := st_sequence st + 1\<rparr>"

text \<open>Add one message of the given serialised size, closing the current packet if it does not fit.\<close>

definition push_small :: "(nat \<Rightarrow> 'm list \<Rightarrow> Packet) \<Rightarrow> nat \<Rightarrow> 'm \<Rightarrow> 'm send_state \<Rightarrow> 'm send_state" where
  "push_small mk serialized_size m st =
     (let st = (if st_small_bytes st + serialized_size > SLICE_SIZE then flush_small mk st else st)
      in st\<lparr>st_small_bytes := st_small_bytes st + serialized_size, st_small := st_small st @ [m]\<rparr>)"

definition push_slice :: "(nat \<Rightarrow> Packet) \<Rightarrow> 'm send_state \<Rightarrow> 'm send_state" where
  "push_slice mk st = st\<lparr>st_packets := st_packets st @ [mk (st_sequence st)],
     st_sequence := st_sequence st + 1\<rparr>"

definition finish_small :: "(nat \<Rightarrow> 'm list \<Rightarrow> Packet) \<Rightarrow> 'm send_state \<Rightarrow> 'm send_state" where
  "finish_small mk st = (if st_small st = [] then st else flush_small mk st)"

definition initial_state :: "nat \<Rightarrow> nat \<Rightarrow> 'm send_state" where
  "initial_state s a = \<lparr>st_packets = [], st_small = [], st_small_bytes = 0, st_sequence = s, st_available = a\<rparr>"

text \<open>
  The invariant of the loops: the packets so far carry the sequence numbers from \<open>s\<close> on, the bytes
  taken from the budget \<open>a\<close> are the bytes in the packets and in the messages that wait, the counter
  \<open>small_messages_bytes\<close> is the serialised size of the messages that wait, and it exceeds
  \<open>SLICE_SIZE\<close> only for a single message.
\<close>

definition loop_inv ::
  "('m \<Rightarrow> nat) \<Rightarrow> ('m \<Rightarrow> nat) \<Rightarrow> nat \<Rightarrow> nat \<Rightarrow> 'm send_state \<Rightarrow> bool" where
  "loop_inv len ssz s a st \<longleftrightarrow>
     map packet_sequence (st_packets st) = [s..<st_sequence st] \<and> s \<le> st_sequence st \<and>
     st_available st + payload_bytes (st_packets st) + sum_list (map len (st_small st)) = a \<and>
     st_small_bytes st = sum_list (map ssz (st_small st)) \<and>
     (st_small_bytes st \<le> SLICE_SIZE \<or> length (st_small st) \<le> 1)"

lemma loop_inv_initial: "loop_inv len ssz s a (initial_state s a)"
  by (simp add: loop_inv_def initial_state_def)

lemma loop_inv_flush:
  assumes "loop_inv len ssz s a st"
    and "\<And>n ms. packet_sequence (mk n ms) = n"
    and "\<And>n ms. packet_payload_bytes (mk n ms) = sum_list (map len ms)"
  shows "loop_inv len ssz s a (flush_small mk st)"
  using assms by (auto simp: loop_inv_def flush_small_def)

lemma loop_inv_push_small:
  assumes "loop_inv len ssz s a (st\<lparr>st_available := st_available st + len m\<rparr>)"
    and "\<And>n ms. packet_sequence (mk n ms) = n"
    and "\<And>n ms. packet_payload_bytes (mk n ms) = sum_list (map len ms)"
  shows "loop_inv len ssz s a (push_small mk (ssz m) m st)"
  using assms by (auto simp: loop_inv_def push_small_def flush_small_def Let_def)

lemma loop_inv_push_slice:
  assumes "loop_inv len ssz s a (st\<lparr>st_available := st_available st + packet_payload_bytes (mk (st_sequence st))\<rparr>)"
    and "\<And>n. packet_sequence (mk n) = n"
  shows "loop_inv len ssz s a (push_slice mk st)"
  using assms by (auto simp: loop_inv_def push_slice_def)

lemma loop_inv_finish:
  assumes "loop_inv len ssz s a st"
    and "\<And>n ms. packet_sequence (mk n ms) = n"
    and "\<And>n ms. packet_payload_bytes (mk n ms) = sum_list (map len ms)"
  shows "loop_inv len ssz s a (finish_small mk st)" and "st_small (finish_small mk st) = []"
  using loop_inv_flush [OF assms] assms(1) by (simp_all add: finish_small_def flush_small_def)

lemma loop_inv_result:
  assumes "loop_inv len ssz s a st" and "st_small st = []"
  shows "map packet_sequence (st_packets st) = [s..<st_sequence st]" and "s \<le> st_sequence st"
    and "st_available st + payload_bytes (st_packets st) = a"
  using assms by (simp_all add: loop_inv_def)

lemmas send_state_defs = flush_small_def push_small_def push_slice_def finish_small_def initial_state_def

end
