(* ===== verification/Channel_Reliable_Send.thy ===== *)
theory Channel_Reliable_Send
  imports Channel_Send
begin

text \<open>
  The sending half of \<open>src/renet2/src/channel/reliable.rs\<close>: a message stays in \<open>unacked_messages\<close>
  until it is acknowledged, small messages as a whole and large ones slice by slice, and is sent
  again when \<open>resend_time\<close> has passed since it was last sent.
\<close>

datatype UnackedMessage =
    Small (um_message: bytes) (um_last_sent: "duration option")
  | Sliced (um_message: bytes) (um_num_slices: nat) (num_acked_slices: nat) (next_slice_to_send: nat)
      (acked: "bool list") (slices_last_sent: "duration option list")

record send_channel_reliable =
  scr_channel_id :: u8
  unacked_messages :: "(nat, UnackedMessage) btree_map"
  next_reliable_message_id :: nat
  resend_time :: duration
  scr_max_memory_usage_bytes :: nat
  scr_memory_usage_bytes :: nat

definition new_sliced :: "bytes \<Rightarrow> UnackedMessage" where
  "new_sliced pl = (let n = div_ceil (length pl) SLICE_SIZE
     in Sliced pl n 0 0 (replicate n False) (replicate n None))"

definition scr_new :: "u8 \<Rightarrow> duration \<Rightarrow> nat \<Rightarrow> send_channel_reliable" where
  "scr_new channel_id rt max_memory = \<lparr>scr_channel_id = channel_id, unacked_messages = [],
     next_reliable_message_id = 0, resend_time = rt, scr_max_memory_usage_bytes = max_memory,
     scr_memory_usage_bytes = 0\<rparr>"

definition scr_available_memory :: "send_channel_reliable \<Rightarrow> nat option" where
  "scr_available_memory self = checked_sub (scr_max_memory_usage_bytes self) (scr_memory_usage_bytes self)"

definition scr_can_send_message :: "send_channel_reliable \<Rightarrow> nat \<Rightarrow> bool" where
  "scr_can_send_message self size_bytes \<longleftrightarrow>
     size_bytes + scr_memory_usage_bytes self \<le> scr_max_memory_usage_bytes self"

text \<open>The resend check: \<open>current_time - last_sent\<close> panics when it underflows.\<close>

definition resend_due :: "duration \<Rightarrow> duration \<Rightarrow> duration option \<Rightarrow> bool option" where
  "resend_due current_time rt last_sent =
     (case last_sent of None \<Rightarrow> Some True
      | Some t \<Rightarrow> do { d \<leftarrow> checked_sub current_time t; Some (\<not> d < rt) })"

definition send_small ::
  "octets_lib \<Rightarrow> u8 \<Rightarrow> duration \<Rightarrow> duration \<Rightarrow> nat \<Rightarrow> bytes \<Rightarrow> duration option \<Rightarrow>
   (nat \<times> bytes) send_state \<Rightarrow> (duration option \<times> (nat \<times> bytes) send_state) option" where
  "send_small lib ch rt current_time mid message last_sent st =
     (if st_available st < length message then Some (last_sent, st)
      else do {
        due \<leftarrow> resend_due current_time rt last_sent;
        if \<not> due then Some (last_sent, st)
        else do {
          available \<leftarrow> checked_sub (st_available st) (length message);
          let serialized_size = length message + oc_varint_len lib (length message) + oc_varint_len lib mid;
          Some (Some current_time,
            push_small (\<lambda>s ms. SmallReliable s ch ms) serialized_size (mid, message)
              (st\<lparr>st_available := available\<rparr>))
        }
      })"

text \<open>
  The loop over the slices of one message, over the list of the counter values that are left. The
  next slice is \<open>i + 1 % num_slices\<close>, which Rust reads as \<open>i + (1 % num_slices)\<close>.
\<close>

fun send_slices ::
  "u8 \<Rightarrow> duration \<Rightarrow> duration \<Rightarrow> nat \<Rightarrow> bytes \<Rightarrow> nat \<Rightarrow> nat \<Rightarrow> bool list \<Rightarrow> nat list \<Rightarrow> duration option list \<Rightarrow> nat \<Rightarrow>
   (nat \<times> bytes) send_state \<Rightarrow> (duration option list \<times> nat \<times> (nat \<times> bytes) send_state) option" where
  "send_slices ch rt current_time mid message n start_index ack [] last_sent next st = Some (last_sent, next, st)"
| "send_slices ch rt current_time mid message n start_index ack (k # ks) last_sent next st =
     (if st_available st < SLICE_SIZE then Some (last_sent, next, st)
      else do {
        let i = (start_index + k) mod n;
        is_acked \<leftarrow> index ack i;
        if is_acked then send_slices ch rt current_time mid message n start_index ack ks last_sent next st
        else do {
          ls \<leftarrow> index last_sent i;
          due \<leftarrow> resend_due current_time rt ls;
          if \<not> due then send_slices ch rt current_time mid message n start_index ack ks last_sent next st
          else do {
            pl \<leftarrow> message_slice message n i;
            available \<leftarrow> checked_sub (st_available st) (length pl);
            let sl = \<lparr>message_id = mid, slice_index = i, num_slices = n, payload = pl\<rparr>;
            let st = push_slice (\<lambda>s. ReliableSlice s ch sl) (st\<lparr>st_available := available\<rparr>);
            last_sent \<leftarrow> set_index last_sent i (Some current_time);
            send_slices ch rt current_time mid message n start_index ack ks last_sent (i + 1 mod n) st
          }
        }
      })"

fun scr_send_loop ::
  "octets_lib \<Rightarrow> u8 \<Rightarrow> duration \<Rightarrow> duration \<Rightarrow> (nat, UnackedMessage) btree_map \<Rightarrow> (nat \<times> bytes) send_state \<Rightarrow>
   ((nat, UnackedMessage) btree_map \<times> (nat \<times> bytes) send_state) option" where
  "scr_send_loop lib ch rt current_time [] st = Some ([], st)"
| "scr_send_loop lib ch rt current_time ((mid, Small message last_sent) # es) st = do {
     (last_sent, st) \<leftarrow> send_small lib ch rt current_time mid message last_sent st;
     (es, st) \<leftarrow> scr_send_loop lib ch rt current_time es st;
     Some ((mid, Small message last_sent) # es, st)
   }"
| "scr_send_loop lib ch rt current_time ((mid, Sliced message n na next ack last_sent) # es) st = do {
     (last_sent, next, st) \<leftarrow> send_slices ch rt current_time mid message n next ack [0..<n] last_sent next st;
     (es, st) \<leftarrow> scr_send_loop lib ch rt current_time es st;
     Some ((mid, Sliced message n na next ack last_sent) # es, st)
   }"

definition scr_get_packets_to_send ::
  "octets_lib \<Rightarrow> send_channel_reliable \<Rightarrow> nat \<Rightarrow> nat \<Rightarrow> duration \<Rightarrow>
   (send_channel_reliable \<times> nat \<times> nat \<times> Packet list) option" where
  "scr_get_packets_to_send lib self sequence available_bytes current_time =
     (if unacked_messages self = [] then Some (self, sequence, available_bytes, [])
      else do {
        (ums, st) \<leftarrow> scr_send_loop lib (scr_channel_id self) (resend_time self) current_time
                       (unacked_messages self) (initial_state sequence available_bytes);
        let st = finish_small (\<lambda>s ms. SmallReliable s (scr_channel_id self) ms) st;
        Some (self\<lparr>unacked_messages := ums\<rparr>, st_sequence st, st_available st, st_packets st)
      })"

definition scr_send_message ::
  "send_channel_reliable \<Rightarrow> bytes \<Rightarrow> send_channel_reliable \<times> (ChannelError + unit)" where
  "scr_send_message self message =
     (if scr_memory_usage_bytes self + length message > scr_max_memory_usage_bytes self
      then (self, Inl ReliableChannelMaxMemoryReached)
      else let um = (if length message > SLICE_SIZE then new_sliced message else Small message None)
        in (self\<lparr>scr_memory_usage_bytes := scr_memory_usage_bytes self + length message,
              unacked_messages := bt_insert (next_reliable_message_id self) um (unacked_messages self),
              next_reliable_message_id := next_reliable_message_id self + 1\<rparr>, Inr ()))"

definition scr_process_message_ack :: "send_channel_reliable \<Rightarrow> nat \<Rightarrow> send_channel_reliable option" where
  "scr_process_message_ack self mid =
     (case bt_get (unacked_messages self) mid of
        None \<Rightarrow> Some self
      | Some (Small pl _) \<Rightarrow> do {
          mem \<leftarrow> checked_sub (scr_memory_usage_bytes self) (length pl);
          Some (self\<lparr>unacked_messages := bt_remove mid (unacked_messages self), scr_memory_usage_bytes := mem\<rparr>)
        }
      | Some (Sliced _ _ _ _ _ _) \<Rightarrow> None)"

definition scr_process_slice_message_ack ::
  "send_channel_reliable \<Rightarrow> nat \<Rightarrow> nat \<Rightarrow> send_channel_reliable option" where
  "scr_process_slice_message_ack self mid idx =
     (case bt_get (unacked_messages self) mid of
        None \<Rightarrow> Some self
      | Some (Small _ _) \<Rightarrow> None
      | Some (Sliced message n na next ack last_sent) \<Rightarrow> do {
          is_acked \<leftarrow> index ack idx;
          if is_acked then Some self
          else do {
            ack \<leftarrow> set_index ack idx True;
            if na + 1 = n then do {
              mem \<leftarrow> checked_sub (scr_memory_usage_bytes self) (length message);
              Some (self\<lparr>scr_memory_usage_bytes := mem, unacked_messages := bt_remove mid (unacked_messages self)\<rparr>)
            } else
              Some (self\<lparr>unacked_messages :=
                bt_insert mid (Sliced message n (na + 1) next ack last_sent) (unacked_messages self)\<rparr>)
          }
        })"
subsection \<open>Invariant\<close>

fun um_wf :: "duration \<Rightarrow> UnackedMessage \<Rightarrow> bool" where
  "um_wf now (Small m ls) \<longleftrightarrow> length m \<le> SLICE_SIZE \<and> (\<forall>t. ls = Some t \<longrightarrow> t \<le> now)"
| "um_wf now (Sliced m n na nx ack ls) \<longleftrightarrow>
     SLICE_SIZE < length m \<and> n = num_slices_of m \<and> length ack = n \<and> length ls = n \<and>
     na = count_list ack True \<and> na < n \<and> (\<forall>t. Some t \<in> set ls \<longrightarrow> t \<le> now)"

definition scr_inv :: "duration \<Rightarrow> send_channel_reliable \<Rightarrow> bool" where
  "scr_inv now self \<longleftrightarrow>
     bt_wf (unacked_messages self) \<and>
     (\<forall>(mid, um) \<in> set (unacked_messages self). mid < next_reliable_message_id self \<and> um_wf now um) \<and>
     scr_memory_usage_bytes self = bt_weight (\<lambda>um. length (um_message um)) (unacked_messages self) \<and>
     scr_memory_usage_bytes self \<le> scr_max_memory_usage_bytes self"

text \<open>What sending does not change: everything but the time stamps and the slice to start from.\<close>

fun um_core :: "UnackedMessage \<Rightarrow> bytes \<times> (nat \<times> nat \<times> bool list) option" where
  "um_core (Small m _) = (m, None)"
| "um_core (Sliced m n na _ ack _) = (m, Some (n, na, ack))"

definition ums_core :: "(nat, UnackedMessage) btree_map \<Rightarrow> (nat \<times> bytes \<times> (nat \<times> nat \<times> bool list) option) list" where
  "ums_core ums = map (\<lambda>e. (fst e, um_core (snd e))) ums"

text \<open>A packet that carries only content waiting for an acknowledgement.\<close>

fun carries :: "u8 \<Rightarrow> (nat \<Rightarrow> UnackedMessage option) \<Rightarrow> Packet \<Rightarrow> bool" where
  "carries ch um (SmallReliable s c ms) \<longleftrightarrow> c = ch \<and> (\<forall>(mid, m) \<in> set ms. \<exists>ls. um mid = Some (Small m ls))"
| "carries ch um (ReliableSlice s c sl) \<longleftrightarrow> c = ch \<and>
     (\<exists>m n na nx ack ls. um (message_id sl) = Some (Sliced m n na nx ack ls) \<and> num_slices sl = n \<and>
        slice_index sl < n \<and> \<not> ack ! slice_index sl \<and> payload sl = slice_of m (slice_index sl))"
| "carries ch um p \<longleftrightarrow> False"

definition rel_size :: "octets_lib \<Rightarrow> nat \<times> bytes \<Rightarrow> nat" where
  "rel_size lib e = length (snd e) + oc_varint_len lib (length (snd e)) + oc_varint_len lib (fst e)"

fun small_fits :: "octets_lib \<Rightarrow> Packet \<Rightarrow> bool" where
  "small_fits lib (SmallReliable s c ms) \<longleftrightarrow> sum_list (map (rel_size lib) ms) \<le> SLICE_SIZE \<or> length ms \<le> 1"
| "small_fits lib p \<longleftrightarrow> True"

definition scr_loop ::
  "octets_lib \<Rightarrow> u8 \<Rightarrow> (nat \<Rightarrow> UnackedMessage option) \<Rightarrow> nat \<Rightarrow> nat \<Rightarrow> (nat \<times> bytes) send_state \<Rightarrow> bool" where
  "scr_loop lib ch um s a st \<longleftrightarrow>
     loop_inv (\<lambda>e. length (snd e)) (rel_size lib) s a st \<and>
     (\<forall>p \<in> set (st_packets st). carries ch um p \<and> small_fits lib p) \<and>
     (\<forall>(mid, m) \<in> set (st_small st). \<exists>ls. um mid = Some (Small m ls))"

lemma resend_due_Some:
  "(\<forall>t. ls = Some t \<longrightarrow> t \<le> now) \<Longrightarrow>
   resend_due now rt ls = Some (case ls of None \<Rightarrow> True | Some t \<Rightarrow> rt \<le> now - t)"
  by (auto simp: resend_due_def split: option.splits)

lemma scr_loop_initial: "scr_loop lib ch um s a (initial_state s a)"
  unfolding scr_loop_def using loop_inv_initial by (simp add: initial_state_def)

lemma scr_loop_push_small:
  assumes "scr_loop lib ch um s a st" and "um mid = Some (Small m ls)" and "length m \<le> st_available st"
  shows "scr_loop lib ch um s a
    (push_small (\<lambda>s ms. SmallReliable s ch ms) (rel_size lib (mid, m)) (mid, m)
      (st\<lparr>st_available := st_available st - length m\<rparr>))"
proof -
  have "loop_inv (\<lambda>e. length (snd e)) (rel_size lib) s a
    (push_small (\<lambda>s ms. SmallReliable s ch ms) (rel_size lib (mid, m)) (mid, m)
      (st\<lparr>st_available := st_available st - length m\<rparr>))"
    using assms(1,3) by (intro loop_inv_push_small) (simp_all add: scr_loop_def)
  moreover have "small_fits lib (SmallReliable n ch (st_small st))" for n
    using assms(1) by (auto simp: scr_loop_def loop_inv_def)
  ultimately show ?thesis
    using assms by (auto simp: scr_loop_def push_small_def flush_small_def Let_def)
qed

lemma scr_loop_push_slice:
  assumes "scr_loop lib ch um s a st" and "um mid = Some (Sliced m n na nx ack ls)"
    and "i < n" and "\<not> ack ! i" and "length (slice_of m i) \<le> st_available st"
  shows "scr_loop lib ch um s a
    (push_slice (\<lambda>s. ReliableSlice s ch \<lparr>message_id = mid, slice_index = i, num_slices = n, payload = slice_of m i\<rparr>)
      (st\<lparr>st_available := st_available st - length (slice_of m i)\<rparr>))"
proof -
  have "loop_inv (\<lambda>e. length (snd e)) (rel_size lib) s a
    (push_slice (\<lambda>s. ReliableSlice s ch \<lparr>message_id = mid, slice_index = i, num_slices = n, payload = slice_of m i\<rparr>)
      (st\<lparr>st_available := st_available st - length (slice_of m i)\<rparr>))"
    using assms(1,5) by (intro loop_inv_push_slice) (simp_all add: scr_loop_def)
  then show ?thesis using assms by (auto simp: scr_loop_def push_slice_def)
qed

lemma scr_loop_finish:
  assumes "scr_loop lib ch um s a st"
  shows "scr_loop lib ch um s a (finish_small (\<lambda>s ms. SmallReliable s ch ms) st)"
    and "st_small (finish_small (\<lambda>s ms. SmallReliable s ch ms) st) = []"
proof -
  have i: "loop_inv (\<lambda>e. length (snd e)) (rel_size lib) s a st" using assms by (simp add: scr_loop_def)
  note fin = loop_inv_finish [OF i, of "\<lambda>s ms. SmallReliable s ch ms", simplified]
  show "st_small (finish_small (\<lambda>s ms. SmallReliable s ch ms) st) = []" by (rule fin(2))
  have "small_fits lib (SmallReliable n ch (st_small st))" for n
    using i by (auto simp: loop_inv_def)
  then show "scr_loop lib ch um s a (finish_small (\<lambda>s ms. SmallReliable s ch ms) st)"
    using assms fin(1) by (auto simp: scr_loop_def finish_small_def flush_small_def)
qed

lemma send_small_spec:
  assumes "scr_loop lib ch um s a st" and "um mid = Some (Small m ls)" and "um_wf now (Small m ls)"
  obtains ls' st' where "send_small lib ch rt now mid m ls st = Some (ls', st')"
    and "scr_loop lib ch um s a st'" and "um_wf now (Small m ls')"
proof (cases "length m \<le> st_available st \<and> (case ls of None \<Rightarrow> True | Some t \<Rightarrow> rt \<le> now - t)")
  case True
  then show thesis
    using assms(3) scr_loop_push_small [OF assms(1,2)] resend_due_Some [of ls now rt]
    by (intro that) (auto simp: send_small_def rel_size_def Let_def)
next
  case False
  then show thesis
    using assms resend_due_Some [of ls now rt] by (intro that) (auto simp: send_small_def)
qed

definition is_due :: "duration \<Rightarrow> duration \<Rightarrow> duration option \<Rightarrow> bool" where
  "is_due now rt ls \<longleftrightarrow> (case ls of None \<Rightarrow> True | Some t \<Rightarrow> rt \<le> now - t)"

definition sent_slice :: "u8 \<Rightarrow> nat \<Rightarrow> bytes \<Rightarrow> nat \<Rightarrow> nat \<Rightarrow> (nat \<times> bytes) send_state \<Rightarrow> (nat \<times> bytes) send_state" where
  "sent_slice ch mid m n i st = push_slice (\<lambda>s. ReliableSlice s ch
      \<lparr>message_id = mid, slice_index = i, num_slices = n, payload = slice_of m i\<rparr>)
    (st\<lparr>st_available := st_available st - length (slice_of m i)\<rparr>)"

text \<open>One turn of the slice loop, once the checks that cannot fail are gone.\<close>

lemma send_slices_turn:
  fixes start k :: nat
  assumes "um_wf now (Sliced m n na nx ack ls)"
  defines "i \<equiv> (start + k) mod n"
  shows "send_slices ch rt now mid m n start ack (k # ks) ls nxt st =
    (if st_available st < SLICE_SIZE then Some (ls, nxt, st)
     else if ack ! i \<or> \<not> is_due now rt (ls ! i) then send_slices ch rt now mid m n start ack ks ls nxt st
     else send_slices ch rt now mid m n start ack ks (ls[i := Some now]) (i + 1 mod n) (sent_slice ch mid m n i st))"
    and "i < n" and "length (slice_of m i) \<le> SLICE_SIZE"
proof -
  have n: "n = num_slices_of m" "0 < n" and m: "m \<noteq> []" and l: "length ack = n" "length ls = n"
    using assms by auto
  then show i: "i < n" by (simp add: i_def)
  have "\<forall>t. ls ! i = Some t \<longrightarrow> t \<le> now" using assms(1) i l by (metis nth_mem um_wf.simps(2))
  note due = resend_due_Some [OF this, of rt, folded is_due_def]
  show le: "length (slice_of m i) \<le> SLICE_SIZE" by (rule length_slice_of_le)
  have "message_slice m n i = Some (slice_of m i)" using message_slice_eq [of i m] i m n by simp
  then show "send_slices ch rt now mid m n start ack (k # ks) ls nxt st =
    (if st_available st < SLICE_SIZE then Some (ls, nxt, st)
     else if ack ! i \<or> \<not> is_due now rt (ls ! i) then send_slices ch rt now mid m n start ack ks ls nxt st
     else send_slices ch rt now mid m n start ack ks (ls[i := Some now]) (i + 1 mod n) (sent_slice ch mid m n i st))"
    using i l due le by (simp add: Let_def sent_slice_def flip: i_def)
qed

lemma um_wf_stamp:
  "um_wf now (Sliced m n na nx ack ls) \<Longrightarrow> um_wf now (Sliced m n na nx' ack (ls[i := Some now]))"
  by (auto dest!: subsetD [OF set_update_subset_insert])

lemma send_slices_spec:
  assumes "scr_loop lib ch um s a st" and "um mid = Some (Sliced m n na nx ack ls0)"
    and "um_wf now (Sliced m n na nx' ack ls)"
  shows "\<exists>ls' nx'' st'. send_slices ch rt now mid m n start ack ks ls nxt st = Some (ls', nx'', st') \<and>
     scr_loop lib ch um s a st' \<and> um_wf now (Sliced m n na nx'' ack ls')"
  using assms
proof (induction ks arbitrary: ls nxt st)
  case Nil
  then show ?case by simp
next
  case (Cons k ks)
  let ?i = "(start + k) mod n"
  note turn = send_slices_turn [OF Cons.prems(3), where start = start and k = k]
  show ?case
  proof (cases "SLICE_SIZE \<le> st_available st \<and> \<not> ack ! ?i \<and> is_due now rt (ls ! ?i)")
    case True
    have "scr_loop lib ch um s a (sent_slice ch mid m n ?i st)"
      unfolding sent_slice_def using Cons.prems(1,2) turn(2,3) True by (intro scr_loop_push_slice) auto
    note IH = Cons.IH [OF this Cons.prems(2) um_wf_stamp [OF Cons.prems(3)]]
    show ?thesis unfolding turn(1) using IH True by (simp del: um_wf.simps send_slices.simps)
  next
    case False
    then have "send_slices ch rt now mid m n start ack (k # ks) ls nxt st = Some (ls, nxt, st) \<or>
        send_slices ch rt now mid m n start ack (k # ks) ls nxt st =
        send_slices ch rt now mid m n start ack ks ls nxt st"
      unfolding turn(1) by (auto simp del: um_wf.simps send_slices.simps)
    then show ?thesis using Cons by (metis um_wf.simps(2))
  qed
qed

lemma scr_send_loop_spec:
  assumes "scr_loop lib ch um s a st" and "\<forall>(mid, u) \<in> set es. um mid = Some u \<and> um_wf now u"
  shows "\<exists>es' st'. scr_send_loop lib ch rt now es st = Some (es', st') \<and> scr_loop lib ch um s a st' \<and>
     ums_core es' = ums_core es \<and> (\<forall>(mid, u) \<in> set es'. um_wf now u)"
  using assms
proof (induction es arbitrary: st)
  case Nil
  then show ?case by (simp add: ums_core_def)
next
  case (Cons e es)
  obtain mid u where e: "e = (mid, u)" by (cases e)
  have u: "um mid = Some u" "um_wf now u" and es: "\<forall>(mid, u) \<in> set es. um mid = Some u \<and> um_wf now u"
    using Cons.prems(2) e by auto
  show ?case
  proof (cases u)
    case (Small m ls)
    obtain ls' st1 where st1: "send_small lib ch rt now mid m ls st = Some (ls', st1)"
      "scr_loop lib ch um s a st1" "um_wf now (Small m ls')"
      using send_small_spec [OF Cons.prems(1) u [unfolded Small]] by metis
    obtain es' st' where "scr_send_loop lib ch rt now es st1 = Some (es', st')" "scr_loop lib ch um s a st'"
      "ums_core es' = ums_core es" "\<forall>(mid, u) \<in> set es'. um_wf now u"
      using Cons.IH [OF st1(2) es] by auto
    then show ?thesis using st1 e Small by (auto simp: ums_core_def)
  next
    case (Sliced m n na nx ack ls)
    obtain ls' nx' st1 where st1: "send_slices ch rt now mid m n nx ack [0..<n] ls nx st = Some (ls', nx', st1)"
      "scr_loop lib ch um s a st1" "um_wf now (Sliced m n na nx' ack ls')"
      using send_slices_spec [OF Cons.prems(1) u [unfolded Sliced]] by metis
    obtain es' st' where "scr_send_loop lib ch rt now es st1 = Some (es', st')" "scr_loop lib ch um s a st'"
      "ums_core es' = ums_core es" "\<forall>(mid, u) \<in> set es'. um_wf now u"
      using Cons.IH [OF st1(2) es] by auto
    then show ?thesis using st1 e Sliced by (auto simp: ums_core_def)
  qed
qed

subsection \<open>The unacknowledged messages, seen through their core\<close>

lemma um_message_core: "um_message u = fst (um_core u)"
  by (cases u) simp_all

lemma ums_core_fst: "map fst (ums_core ums) = map fst ums"
  by (simp add: ums_core_def)

lemma ums_core_eq_wf: "ums_core ums' = ums_core ums \<Longrightarrow> bt_wf ums' \<longleftrightarrow> bt_wf ums"
  by (metis bt_wf_def ums_core_fst)

lemma ums_core_eq_weight:
  "ums_core ums' = ums_core ums \<Longrightarrow>
   bt_weight (\<lambda>u. length (um_message u)) ums' = bt_weight (\<lambda>u. length (um_message u)) ums"
proof -
  have "map (\<lambda>e. length (um_message (snd e))) ums = map (\<lambda>e. length (fst (snd e))) (ums_core ums)" for ums
    by (simp add: ums_core_def um_message_core)
  then show "ums_core ums' = ums_core ums \<Longrightarrow> ?thesis" by (simp add: bt_weight_def)
qed

lemma ums_core_get: "map_option um_core (bt_get ums k) = map_of (ums_core ums) k"
  unfolding bt_get_def ums_core_def by (induction ums) auto

lemma um_core_Small [simp]: "um_core u = (m, None) \<longleftrightarrow> (\<exists>ls. u = Small m ls)"
  by (cases u) auto

lemma um_core_Sliced [simp]:
  "um_core u = (m, Some (n, na, ack)) \<longleftrightarrow> (\<exists>nx ls. u = Sliced m n na nx ack ls)"
  by (cases u) auto

lemma scr_inv_mono: "scr_inv now self \<Longrightarrow> now \<le> now' \<Longrightarrow> scr_inv now' self"
proof -
  have "um_wf now u \<Longrightarrow> now \<le> now' \<Longrightarrow> um_wf now' u" for u by (cases u) force+
  then show "scr_inv now self \<Longrightarrow> now \<le> now' \<Longrightarrow> ?thesis" by (auto simp: scr_inv_def)
qed

lemma scr_inv_get:
  "scr_inv now self \<Longrightarrow> bt_get (unacked_messages self) mid = Some u \<Longrightarrow>
   mid < next_reliable_message_id self \<and> um_wf now u"
  by (auto simp: scr_inv_def dest!: bt_get_in_set)

lemma scr_get_packets_spec:
  assumes inv: "scr_inv now self"
  shows "\<exists>ums' s' a' ps. scr_get_packets_to_send lib self s a now =
      Some (self\<lparr>unacked_messages := ums'\<rparr>, s', a', ps) \<and>
     ums_core ums' = ums_core (unacked_messages self) \<and> scr_inv now (self\<lparr>unacked_messages := ums'\<rparr>) \<and>
     map packet_sequence ps = [s..<s'] \<and> s \<le> s' \<and> a' + payload_bytes ps = a \<and>
     (\<forall>p \<in> set ps. carries (scr_channel_id self) (bt_get (unacked_messages self)) p \<and> small_fits lib p)"
proof (cases "unacked_messages self = []")
  case True
  then have "self\<lparr>unacked_messages := []\<rparr> = self" by simp
  then have "scr_get_packets_to_send lib self s a now = Some (self\<lparr>unacked_messages := []\<rparr>, s, a, [])"
    "scr_inv now (self\<lparr>unacked_messages := []\<rparr>)"
    using True inv by (simp_all only: scr_get_packets_to_send_def refl if_True)
  moreover have "ums_core [] = ums_core (unacked_messages self)" using True by simp
  ultimately show ?thesis by (intro exI conjI) (assumption | simp (no_asm))+
next
  case False
  let ?ch = "scr_channel_id self" and ?um = "bt_get (unacked_messages self)"
  let ?mk = "\<lambda>s ms. SmallReliable s ?ch ms"
  have "\<forall>(mid, u) \<in> set (unacked_messages self). ?um mid = Some u \<and> um_wf now u"
    using inv by (auto simp: scr_inv_def bt_in_set_get)
  note loop = scr_send_loop_spec [OF scr_loop_initial this, of lib ?ch "resend_time self" s a]
  obtain ums' st where st: "scr_send_loop lib ?ch (resend_time self) now (unacked_messages self) (initial_state s a) =
      Some (ums', st)" "scr_loop lib ?ch ?um s a st" "ums_core ums' = ums_core (unacked_messages self)"
      "\<forall>(mid, u) \<in> set ums'. um_wf now u"
    using loop by (elim exE conjE)
  have "scr_inv now (self\<lparr>unacked_messages := ums'\<rparr>)"
  proof -
    have "fst ` set ums' = fst ` set (unacked_messages self)"
      using arg_cong [OF st(3), of "map fst"] by (metis list.set_map ums_core_fst)
    then have "mid < next_reliable_message_id self" if "(mid, u) \<in> set ums'" for mid u
      using inv that by (force simp: scr_inv_def)
    then show ?thesis
      using inv st(4) ums_core_eq_wf [OF st(3)] ums_core_eq_weight [OF st(3)] by (auto simp: scr_inv_def)
  qed
  moreover note fin = scr_loop_finish [OF st(2)]
  let ?st = "finish_small ?mk st"
  have "loop_inv (\<lambda>e. length (snd e)) (rel_size lib) s a ?st"
    and "\<forall>p \<in> set (st_packets ?st). carries ?ch ?um p \<and> small_fits lib p"
    using fin(1) unfolding scr_loop_def by blast+
  note this(2) loop_inv_result [OF this(1) fin(2)]
  moreover have "scr_get_packets_to_send lib self s a now =
      Some (self\<lparr>unacked_messages := ums'\<rparr>, st_sequence ?st, st_available ?st, st_packets ?st)"
    using False st(1) by (simp add: scr_get_packets_to_send_def Let_def)
  ultimately show ?thesis using st(3) by (intro exI conjI) assumption+
qed

interpretation scr: send_channel "scr_inv now" "\<lambda>c s a. scr_get_packets_to_send lib c s a now" for now lib
proof unfold_locales
  fix c s a
  assume inv: "scr_inv now c"
  note spec = scr_get_packets_spec [OF inv, of lib s a]
  show "scr_get_packets_to_send lib c s a now \<noteq> None" using spec by auto
  fix c' s' a' ps
  assume "scr_get_packets_to_send lib c s a now = Some (c', s', a', ps)"
  then show "scr_inv now c'" "map packet_sequence ps = [s..<s'] \<and> s \<le> s'" "a' + payload_bytes ps = a"
    using spec by auto
qed

subsection \<open>The other operations\<close>

lemma scr_inv_new: "scr_inv now (scr_new ch rt mx)"
  by (simp add: scr_inv_def scr_new_def bt_weight_def)

lemma um_wf_new_sliced: "SLICE_SIZE < length m \<Longrightarrow> um_wf now (new_sliced m)"
  using num_slices_of_bounds(1) [of m]
  by (force simp: new_sliced_def Let_def num_slices_of_def)

lemma um_message_new_sliced [simp]: "um_message (new_sliced m) = m"
  by (simp add: new_sliced_def Let_def)

lemma scr_inv_fresh_id: "scr_inv now self \<Longrightarrow> bt_get (unacked_messages self) (next_reliable_message_id self) = None"
  by (cases "bt_get (unacked_messages self) (next_reliable_message_id self)") (auto dest: scr_inv_get)

lemma scr_inv_send_message:
  assumes "scr_inv now self"
  shows "scr_inv now (fst (scr_send_message self m))"
proof (cases "scr_memory_usage_bytes self + length m > scr_max_memory_usage_bytes self")
  case False
  let ?um = "if length m > SLICE_SIZE then new_sliced m else Small m None"
  have "um_wf now ?um" using um_wf_new_sliced [of m now] by simp
  moreover have "um_message ?um = m" by simp
  moreover have wf: "bt_wf (unacked_messages self)" using assms by (simp add: scr_inv_def)
  moreover note bt.weight_insert [OF wf scr_inv_fresh_id [OF assms], of "\<lambda>um. length (um_message um)" ?um]
  ultimately show ?thesis
    using False assms
    by (auto simp: scr_send_message_def scr_inv_def Let_def bt_map_simps simp del: um_wf.simps
        dest!: in_set_bt_insert [OF wf])
qed (use assms in \<open>simp add: scr_send_message_def\<close>)

lemma scr_inv_remove:
  assumes "scr_inv now self" and "bt_get (unacked_messages self) mid = Some u"
  shows "length (um_message u) \<le> scr_memory_usage_bytes self"
    and "scr_inv now (self\<lparr>unacked_messages := bt_remove mid (unacked_messages self),
           scr_memory_usage_bytes := scr_memory_usage_bytes self - length (um_message u)\<rparr>)"
proof -
  have wf: "bt_wf (unacked_messages self)" using assms by (simp add: scr_inv_def)
  note w = bt.weight_ge_entry [OF wf assms(2), of "\<lambda>um. length (um_message um)"]
    bt.weight_removed [OF wf assms(2), of "\<lambda>um. length (um_message um)"]
  show "length (um_message u) \<le> scr_memory_usage_bytes self" using w assms(1) by (simp add: scr_inv_def)
  show "scr_inv now (self\<lparr>unacked_messages := bt_remove mid (unacked_messages self),
           scr_memory_usage_bytes := scr_memory_usage_bytes self - length (um_message u)\<rparr>)"
    using w assms(1) by (auto simp: scr_inv_def bt_map_simps dest!: in_set_bt_remove)
qed

lemma scr_process_message_ack_spec:
  assumes "scr_inv now self"
    and "\<forall>u. bt_get (unacked_messages self) mid = Some u \<longrightarrow> (\<exists>m ls. u = Small m ls)"
  shows "\<exists>self'. scr_process_message_ack self mid = Some self' \<and> scr_inv now self' \<and>
     unacked_messages self' = bt_remove mid (unacked_messages self) \<and>
     next_reliable_message_id self' = next_reliable_message_id self \<and> scr_channel_id self' = scr_channel_id self"
proof (cases "bt_get (unacked_messages self) mid")
  case None
  then show ?thesis using assms(1) by (simp add: scr_process_message_ack_def bt_remove_absent)
next
  case (Some u)
  then obtain m ls where "u = Small m ls" using assms(2) by auto
  then show ?thesis using Some scr_inv_remove [OF assms(1) Some] by (simp add: scr_process_message_ack_def)
qed

lemma scr_process_slice_message_ack_spec:
  assumes inv: "scr_inv now self"
    and ok: "\<forall>u. bt_get (unacked_messages self) mid = Some u \<longrightarrow>
      (\<exists>m n na nx ack ls. u = Sliced m n na nx ack ls \<and> idx < n)"
  shows "\<exists>self'. scr_process_slice_message_ack self mid idx = Some self' \<and> scr_inv now self' \<and>
     next_reliable_message_id self' = next_reliable_message_id self \<and> scr_channel_id self' = scr_channel_id self \<and>
     (\<forall>k. k \<noteq> mid \<longrightarrow> bt_get (unacked_messages self') k = bt_get (unacked_messages self) k) \<and>
     (\<forall>u'. bt_get (unacked_messages self') mid = Some u' \<longrightarrow>
        (\<exists>m n na na' nx ack ls. bt_get (unacked_messages self) mid = Some (Sliced m n na nx ack ls) \<and>
           u' = Sliced m n na' nx (ack[idx := True]) ls))"
proof (cases "bt_get (unacked_messages self) mid")
  case None
  then show ?thesis using inv by (simp add: scr_process_slice_message_ack_def)
next
  case (Some u)
  then obtain m n na nx ack ls where u: "u = Sliced m n na nx ack ls" and idx: "idx < n" using ok by auto
  have wf: "um_wf now u" and mid: "mid < next_reliable_message_id self" using scr_inv_get [OF inv Some] by auto
  then have l: "length ack = n" using u by simp
  have btwf: "bt_wf (unacked_messages self)" using inv by (simp add: scr_inv_def)
  consider "ack ! idx" | "\<not> ack ! idx" "na + 1 = n" | "\<not> ack ! idx" "na + 1 \<noteq> n" by blast
  then show ?thesis
  proof cases
    case 1
    then have "ack[idx := True] = ack" by (simp add: list_update_same_conv idx l)
    then show ?thesis using 1 Some u idx l inv by (auto simp: scr_process_slice_message_ack_def)
  next
    case 2
    have "scr_inv now (self\<lparr>scr_memory_usage_bytes := scr_memory_usage_bytes self - length m,
        unacked_messages := bt_remove mid (unacked_messages self)\<rparr>)"
      using scr_inv_remove(2) [OF inv Some] u by (cases self) simp
    then show ?thesis
      using 2 Some u idx l scr_inv_remove(1) [OF inv Some]
      by (simp add: scr_process_slice_message_ack_def bt_map_simps)
  next
    case 3
    let ?u = "Sliced m n (na + 1) nx (ack[idx := True]) ls"
    have "um_wf now ?u" using wf u idx 3 by (auto simp: count_list_update_True)
    moreover have "bt_weight (\<lambda>u. length (um_message u)) (bt_insert mid ?u (unacked_messages self)) =
        bt_weight (\<lambda>u. length (um_message u)) (unacked_messages self)"
      using u by (intro bt.weight_replace_same [OF btwf Some]) simp
    ultimately have "scr_inv now (self\<lparr>unacked_messages := bt_insert mid ?u (unacked_messages self)\<rparr>)"
      using inv mid by (auto simp: scr_inv_def bt_map_simps simp del: um_wf.simps dest!: in_set_bt_insert [OF btwf])
    then show ?thesis using 3 Some u idx l by (auto simp: scr_process_slice_message_ack_def bt_map_simps)
  qed
qed

lemma slice_ack_last:
  assumes inv: "scr_inv now self" and get: "bt_get (unacked_messages self) mid = Some (Sliced m n na nx ack ls)"
    and idx: "idx < n" and run: "scr_process_slice_message_ack self mid idx = Some self'"
    and last: "bt_get (unacked_messages self') mid = None" and i: "i < n"
  shows "ack[idx := True] ! i"
proof -
  have wf: "length ack = n" "na = count_list ack True" using scr_inv_get [OF inv get] by auto
  have "\<not> ack ! idx" "na + 1 = n"
    using run get last idx wf(1) by (auto simp: scr_process_slice_message_ack_def bt_map_simps split: if_splits)
  then have "count_list (ack[idx := True]) True = length (ack[idx := True])"
    using wf idx count_list_update_True [of idx ack] by simp
  then show ?thesis using i wf(1) by (simp only: count_list_True_all) simp
qed

subsection \<open>Every message that is due is sent\<close>

fun packet_messages :: "Packet \<Rightarrow> (nat \<times> bytes) list" where
  "packet_messages (SmallReliable _ _ ms) = ms"
| "packet_messages _ = []"

fun packet_slices :: "Packet \<Rightarrow> (nat \<times> nat) list" where
  "packet_slices (ReliableSlice _ _ sl) = [(message_id sl, slice_index sl)]"
| "packet_slices _ = []"

definition sent_messages :: "Packet list \<Rightarrow> (nat \<times> bytes) list" where
  "sent_messages ps = concat (map packet_messages ps)"

definition sent_slices :: "Packet list \<Rightarrow> (nat \<times> nat) list" where
  "sent_slices ps = concat (map packet_slices ps)"

text \<open>Bytes that are enough to send a message: a slice is only sent when \<open>SLICE_SIZE\<close> bytes are left.\<close>

fun um_cost :: "UnackedMessage \<Rightarrow> nat" where
  "um_cost (Small m _) = length m"
| "um_cost (Sliced _ n _ _ _ _) = n * SLICE_SIZE"

definition queued :: "(nat \<times> bytes) send_state \<Rightarrow> (nat \<times> bytes) set" where
  "queued st = set (sent_messages (st_packets st)) \<union> set (st_small st)"

definition sliced :: "(nat \<times> bytes) send_state \<Rightarrow> (nat \<times> nat) set" where
  "sliced st = set (sent_slices (st_packets st))"

lemmas content_defs = queued_def sliced_def sent_messages_def sent_slices_def

lemma push_small_content [simp]:
  "queued (push_small (\<lambda>s ms. SmallReliable s ch ms) z e st) = insert e (queued st)"
  "sliced (push_small (\<lambda>s ms. SmallReliable s ch ms) z e st) = sliced st"
  "st_available (push_small mk z e st) = st_available st"
  by (auto simp: content_defs push_small_def flush_small_def Let_def)

lemma sent_slice_content [simp]:
  "queued (sent_slice ch mid m n i st) = queued st"
  "sliced (sent_slice ch mid m n i st) = insert (mid, i) (sliced st)"
  "st_available (sent_slice ch mid m n i st) = st_available st - length (slice_of m i)"
  by (auto simp: content_defs push_slice_def sent_slice_def)

lemma finish_small_content:
  "queued (finish_small (\<lambda>s ms. SmallReliable s ch ms) st) = queued st"
  "sliced (finish_small (\<lambda>s ms. SmallReliable s ch ms) st) = sliced st"
  by (auto simp: content_defs finish_small_def flush_small_def)

lemma available_content [simp]:
  "queued (st\<lparr>st_available := x\<rparr>) = queued st" "sliced (st\<lparr>st_available := x\<rparr>) = sliced st"
  by (simp_all add: queued_def sliced_def)

lemma send_small_complete:
  assumes "um_wf now (Small m ls)" and "send_small lib ch rt now mid m ls st = Some (ls', st')"
  shows "queued st \<subseteq> queued st'" "sliced st' = sliced st" "st_available st \<le> st_available st' + length m"
    and "length m \<le> st_available st \<Longrightarrow> is_due now rt ls \<Longrightarrow> (mid, m) \<in> queued st'"
  using assms resend_due_Some [of ls now rt, folded is_due_def]
  by (auto simp: send_small_def Let_def split: if_splits)

lemma send_slices_complete:
  assumes "um_wf now (Sliced m n na nx ack ls)"
    and "\<forall>i. ls ! i = ls0 ! i \<or> (mid, i) \<in> sliced st"
    and "send_slices ch rt now mid m n start ack ks ls nxt st = Some (ls', nx', st')"
  shows "queued st' = queued st \<and> sliced st \<subseteq> sliced st' \<and>
    st_available st \<le> st_available st' + length ks * SLICE_SIZE \<and>
    (length ks * SLICE_SIZE \<le> st_available st \<longrightarrow>
     (\<forall>k \<in> set ks. \<not> ack ! ((start + k) mod n) \<longrightarrow> is_due now rt (ls0 ! ((start + k) mod n)) \<longrightarrow>
        (mid, (start + k) mod n) \<in> sliced st'))"
  using assms
proof (induction ks arbitrary: ls nxt st)
  case Nil
  then show ?case by simp
next
  case (Cons k ks)
  let ?i = "(start + k) mod n"
  note turn = send_slices_turn [OF Cons.prems(1), where start = start and k = k]
  note run = Cons.prems(3) [unfolded turn(1)]
  consider "st_available st < SLICE_SIZE" "st' = st"
    | "SLICE_SIZE \<le> st_available st" "ack ! ?i \<or> \<not> is_due now rt (ls ! ?i)"
      "send_slices ch rt now mid m n start ack ks ls nxt st = Some (ls', nx', st')"
    | "SLICE_SIZE \<le> st_available st" "send_slices ch rt now mid m n start ack ks (ls[?i := Some now])
        (?i + 1 mod n) (sent_slice ch mid m n ?i st) = Some (ls', nx', st')"
    using run by (auto simp del: um_wf.simps send_slices.simps split: if_splits)
  then show ?case
  proof cases
    case 1
    then show ?thesis by simp
  next
    case 2
    have "(mid, ?i) \<in> sliced st" if "\<not> ack ! ?i" "is_due now rt (ls0 ! ?i)"
      using 2(2) Cons.prems(2) that by metis
    then show ?thesis using Cons.IH [OF Cons.prems(1,2) 2(3)] by auto
  next
    case 3
    have "\<forall>j. ls[?i := Some now] ! j = ls0 ! j \<or> (mid, j) \<in> sliced (sent_slice ch mid m n ?i st)"
      using Cons.prems(2) by (metis nth_list_update_neq insertCI sent_slice_content(2))
    note IH = Cons.IH [OF um_wf_stamp [OF Cons.prems(1)] this 3(2)]
    then show ?thesis using turn(3) 3(1) by (auto simp del: um_wf.simps send_slices.simps)
  qed
qed

text \<open>Starting anywhere, the loop visits every slice.\<close>

lemma rotation_covers:
  assumes "i < (n::nat)"
  shows "\<exists>k \<in> set [0..<n]. (start + k) mod n = i"
proof (intro bexI)
  let ?k = "(i + (n - start mod n)) mod n"
  have "(start + ?k) mod n = (start mod n + (i + (n - start mod n))) mod n" by (simp add: mod_simps)
  also have "start mod n + (i + (n - start mod n)) = i + n"
    using assms mod_less_divisor [of n start] by linarith
  finally show "(start + ?k) mod n = i" using assms by simp
  show "?k \<in> set [0..<n]" using assms by simp
qed


lemma scr_send_loop_complete:
  assumes "\<forall>(mid, u) \<in> set es. um_wf now u"
    and "scr_send_loop lib ch rt now es st = Some (es', st')"
    and "sum_list (map (\<lambda>e. um_cost (snd e)) es) \<le> st_available st"
  shows "queued st \<subseteq> queued st' \<and> sliced st \<subseteq> sliced st' \<and>
    (\<forall>mid m ls. (mid, Small m ls) \<in> set es \<longrightarrow> is_due now rt ls \<longrightarrow> (mid, m) \<in> queued st') \<and>
    (\<forall>mid m n na nx ack ls i. (mid, Sliced m n na nx ack ls) \<in> set es \<longrightarrow> i < n \<longrightarrow> \<not> ack ! i \<longrightarrow>
       is_due now rt (ls ! i) \<longrightarrow> (mid, i) \<in> sliced st')"
  using assms
proof (induction es arbitrary: es' st)
  case Nil
  then show ?case by simp
next
  case (Cons e es)
  obtain mid u where e: "e = (mid, u)" by (cases e)
  have wf: "um_wf now u" and es: "\<forall>(mid, u) \<in> set es. um_wf now u"
    and cost: "um_cost u + sum_list (map (\<lambda>e. um_cost (snd e)) es) \<le> st_available st"
    using Cons.prems(1,3) e by auto
  show ?case
  proof (cases u)
    case (Small m ls)
    obtain ls' st1 es1 where run: "send_small lib ch rt now mid m ls st = Some (ls', st1)"
      "scr_send_loop lib ch rt now es st1 = Some (es1, st')"
      using Cons.prems(2) e Small by (auto split: bind_splits)
    note step = send_small_complete [OF wf [unfolded Small] run(1)]
    have "sum_list (map (\<lambda>e. um_cost (snd e)) es) \<le> st_available st1" using cost step(3) Small by simp
    note IH = Cons.IH [OF es run(2) this]
    have "is_due now rt ls \<Longrightarrow> (mid, m) \<in> queued st1" using step(4) cost Small by simp
    then show ?thesis using IH step(1,2) e Small by auto
  next
    case (Sliced m n na nx ack ls)
    obtain ls' nx' st1 es1 where run: "send_slices ch rt now mid m n nx ack [0..<n] ls nx st = Some (ls', nx', st1)"
      "scr_send_loop lib ch rt now es st1 = Some (es1, st')"
      using Cons.prems(2) e Sliced by (auto split: bind_splits)
    note step = send_slices_complete [OF wf [unfolded Sliced] _ run(1), of ls, simplified]
    have "sum_list (map (\<lambda>e. um_cost (snd e)) es) \<le> st_available st1" using cost step Sliced by simp
    note IH = Cons.IH [OF es run(2) this]
    have "(mid, i) \<in> sliced st1" if "i < n" "\<not> ack ! i" "is_due now rt (ls ! i)" for i
      using rotation_covers [OF that(1), of nx] step that cost Sliced by auto
    then show ?thesis using IH step e Sliced by auto
  qed
qed

subsection \<open>Properties\<close>

text \<open>
  C18: what the reliable send channel puts on the wire. In every state that satisfies the invariant
  \<open>get_packets_to_send\<close> returns (no subtraction underflows, no index is out of bounds), numbers its
  packets with consecutive fresh sequence numbers, takes from the budget exactly the payload bytes it
  sends, sends only messages and slices that are still unacknowledged, with the right bytes under the
  right index, and changes neither the messages nor their acknowledgements.
\<close>
theorem reliable_packets_sound:
  assumes "scr_inv now self"
  shows "\<exists>self' s' a' ps. scr_get_packets_to_send lib self s a now = Some (self', s', a', ps) \<and>
     scr_inv now self' \<and> ums_core (unacked_messages self') = ums_core (unacked_messages self) \<and>
     map packet_sequence ps = [s..<s'] \<and> a' + payload_bytes ps = a \<and>
     (\<forall>p \<in> set ps. carries (scr_channel_id self) (bt_get (unacked_messages self)) p \<and> small_fits lib p)"
proof -
  obtain ums' s' a' ps where
    "scr_get_packets_to_send lib self s a now = Some (self\<lparr>unacked_messages := ums'\<rparr>, s', a', ps)"
    "ums_core ums' = ums_core (unacked_messages self)" "scr_inv now (self\<lparr>unacked_messages := ums'\<rparr>)"
    "map packet_sequence ps = [s..<s']" "a' + payload_bytes ps = a"
    "\<forall>p \<in> set ps. carries (scr_channel_id self) (bt_get (unacked_messages self)) p \<and> small_fits lib p"
    using scr_get_packets_spec [OF assms, of lib s a] by (elim exE conjE)
  then show ?thesis by (intro exI conjI) (assumption | simp (no_asm_simp))+
qed

definition demo_channel :: send_channel_reliable where
  "demo_channel = fst (scr_send_message (fst (scr_send_message (scr_new 3 300 10000) [1, 2, 3])) (replicate 1300 7))"

lemma demo_channel_inv: "scr_inv now demo_channel"
  unfolding demo_channel_def by (intro scr_inv_send_message scr_inv_new)

lemma demo_channel_eq:
  "demo_channel = \<lparr>scr_channel_id = 3, unacked_messages = [(0, Small [1, 2, 3] None),
       (1, Sliced (replicate 1300 7) 2 0 0 [False, False] [None, None])], next_reliable_message_id = 2,
     resend_time = 300, scr_max_memory_usage_bytes = 10000, scr_memory_usage_bytes = 1303\<rparr>"
  by (simp add: demo_channel_def scr_send_message_def scr_new_def new_sliced_def SLICE_SIZE_def Let_def
      div_ceil_def numeral_2_eq_2)

theorem reliable_packets_sound_witness:
  "\<exists>self' s' a' ps. scr_get_packets_to_send quic_lib demo_channel 7 3000 5 = Some (self', s', a', ps) \<and>
     scr_inv 5 self' \<and> ums_core (unacked_messages self') = ums_core (unacked_messages demo_channel) \<and>
     map packet_sequence ps = [7..<s'] \<and> a' + payload_bytes ps = 3000 \<and>
     list_all (carries (scr_channel_id demo_channel) (bt_get (unacked_messages demo_channel))) ps"
  using reliable_packets_sound [OF demo_channel_inv, of quic_lib 7 3000 5] by (force simp: list_all_iff)

text \<open>
  C19: nothing that is due is forgotten. When the budget covers the stored messages, every small
  message that was never sent, or was last sent at least \<open>resend_time\<close> ago, is in one of the packets,
  and so is every slice that is unacknowledged and due: a message is retransmitted until it is
  acknowledged. In particular \<open>i + 1 % num_slices\<close>, which is not reduced modulo \<open>num_slices\<close>, does no
  harm: the loop reduces every index it starts from.
\<close>
theorem reliable_resend_complete:
  assumes "scr_inv now self"
    and "scr_get_packets_to_send lib self s a now = Some (self', s', a', ps)"
    and "sum_list (map (\<lambda>e. um_cost (snd e)) (unacked_messages self)) \<le> a"
  shows "(\<forall>mid m ls. bt_get (unacked_messages self) mid = Some (Small m ls) \<longrightarrow>
       is_due now (resend_time self) ls \<longrightarrow> (mid, m) \<in> set (sent_messages ps)) \<and>
     (\<forall>mid m n na nx ack ls i. bt_get (unacked_messages self) mid = Some (Sliced m n na nx ack ls) \<longrightarrow>
       i < n \<longrightarrow> \<not> ack ! i \<longrightarrow> is_due now (resend_time self) (ls ! i) \<longrightarrow> (mid, i) \<in> set (sent_slices ps))"
proof (cases "unacked_messages self = []")
  case False
  let ?ch = "scr_channel_id self"
  obtain ums' st where st: "scr_send_loop lib ?ch (resend_time self) now (unacked_messages self) (initial_state s a) =
      Some (ums', st)" "ps = st_packets (finish_small (\<lambda>s ms. SmallReliable s ?ch ms) st)"
    using assms(2) False by (auto simp: scr_get_packets_to_send_def Let_def split: bind_splits)
  have "\<forall>(mid, u) \<in> set (unacked_messages self). um_wf now u" using assms(1) by (auto simp: scr_inv_def)
  note loop = scr_send_loop_complete [OF this st(1)]
  have "st_small (finish_small (\<lambda>s ms. SmallReliable s ?ch ms) st) = []"
    by (simp add: finish_small_def flush_small_def)
  then have "set (sent_messages ps) = queued st" "set (sent_slices ps) = sliced st"
    using finish_small_content [of ?ch st] st(2) by (simp_all add: queued_def sliced_def)
  then show ?thesis using loop assms(3) by (auto simp: initial_state_def dest!: bt_get_in_set)
qed (simp add: bt_get_def)

theorem reliable_resend_complete_witness:
  "\<exists>self' s' a' ps. scr_get_packets_to_send quic_lib demo_channel 7 3000 5 = Some (self', s', a', ps) \<and>
     (0, [1, 2, 3]) \<in> set (sent_messages ps) \<and> (1, 1) \<in> set (sent_slices ps)"
proof -
  obtain ums' s' a' ps where
    run: "scr_get_packets_to_send quic_lib demo_channel 7 3000 5 = Some (demo_channel\<lparr>unacked_messages := ums'\<rparr>, s', a', ps)"
    using scr_get_packets_spec [OF demo_channel_inv, where now = 5 and lib = quic_lib and s = 7 and a = 3000] by (elim exE conjE)
  have "sum_list (map (\<lambda>e. um_cost (snd e)) (unacked_messages demo_channel)) \<le> 3000"
    by (simp add: demo_channel_eq SLICE_SIZE_def)
  note reliable_resend_complete [OF demo_channel_inv run this]
  moreover have "bt_get (unacked_messages demo_channel) 0 = Some (Small [1, 2, 3] None)"
    "bt_get (unacked_messages demo_channel) 1 = Some (Sliced (replicate 1300 7) 2 0 0 [False, False] [None, None])"
    by (simp_all add: demo_channel_eq bt_get_def)
  ultimately have "(0, [1, 2, 3]) \<in> set (sent_messages ps)" "(1, 1) \<in> set (sent_slices ps)"
    by (auto simp: is_due_def)
  then show ?thesis using run by (intro exI conjI)
qed

end
