(* ===== verification/Channel_Reliable_Receive.thy ===== *)
theory Channel_Reliable_Receive
  imports Slice_Constructor Ordered_Map
begin

text \<open>
  The receiving half of \<open>src/renet2/src/channel/reliable.rs\<close>. Messages wait in \<open>messages\<close> until the
  application takes them; an ordered channel hands them out by consecutive message id, an unordered
  one in the order of the ids present, remembering in \<open>received_messages\<close> the ids above
  \<open>oldest_pending_message_id\<close> that it has accepted. The lemmas describe each operation by its effect
  on the set of ids seen and on the messages that wait, and show the memory accounting exact.
\<close>

datatype ReliableOrder =
    Ordered
  | Unordered (most_recent_message_id: nat) (received_messages: "nat btree_set")

record receive_channel_reliable =
  rcr_slices :: "(nat, slice_constructor) btree_map"
  rcr_messages :: "(nat, bytes) btree_map"
  oldest_pending_message_id :: nat
  reliable_order :: ReliableOrder
  rcr_memory_usage_bytes :: nat
  rcr_max_memory_usage_bytes :: nat

definition rcr_new :: "nat \<Rightarrow> bool \<Rightarrow> receive_channel_reliable" where
  "rcr_new max_memory is_ordered = \<lparr>rcr_slices = [], rcr_messages = [], oldest_pending_message_id = 0,
     reliable_order = (if is_ordered then Ordered else Unordered 0 []),
     rcr_memory_usage_bytes = 0, rcr_max_memory_usage_bytes = max_memory\<rparr>"

definition rcr_process_message ::
  "receive_channel_reliable \<Rightarrow> bytes \<Rightarrow> nat \<Rightarrow> receive_channel_reliable \<times> (ChannelError + unit)" where
  "rcr_process_message self message mid =
     (if mid < oldest_pending_message_id self then (self, Inr ())
      else case reliable_order self of
        Ordered \<Rightarrow>
          if bt_contains_key (rcr_messages self) mid then (self, Inr ())
          else if rcr_memory_usage_bytes self + length message > rcr_max_memory_usage_bytes self
          then (self, Inl ReliableChannelMaxMemoryReached)
          else (self\<lparr>rcr_memory_usage_bytes := rcr_memory_usage_bytes self + length message,
                  rcr_messages := bt_insert mid message (rcr_messages self)\<rparr>, Inr ())
      | Unordered most_recent received_ids \<Rightarrow>
          let most_recent = (if most_recent < mid then mid else most_recent);
              self = self\<lparr>reliable_order := Unordered most_recent received_ids\<rparr>
          in if bt_contains_key received_ids mid then (self, Inr ())
          else if rcr_memory_usage_bytes self + length message > rcr_max_memory_usage_bytes self
          then (self, Inl ReliableChannelMaxMemoryReached)
          else (self\<lparr>rcr_memory_usage_bytes := rcr_memory_usage_bytes self + length message,
                  reliable_order := Unordered most_recent (bt_insert mid () received_ids),
                  rcr_messages := bt_insert mid message (rcr_messages self)\<rparr>, Inr ()))"

text \<open>Memory for a message whose first slice arrives, and the \<open>entry(..).or_insert_with(..)\<close>.\<close>

definition rcr_reserve ::
  "receive_channel_reliable \<Rightarrow> Slice \<Rightarrow> ChannelError + receive_channel_reliable" where
  "rcr_reserve self sl =
     (if bt_contains_key (rcr_slices self) (message_id sl) then Inr self
      else let message_len = num_slices sl * SLICE_SIZE
        in if rcr_memory_usage_bytes self + message_len > rcr_max_memory_usage_bytes self
           then Inl ReliableChannelMaxMemoryReached
           else Inr (self\<lparr>rcr_memory_usage_bytes := rcr_memory_usage_bytes self + message_len\<rparr>))"

definition rcr_constructor :: "receive_channel_reliable \<Rightarrow> Slice \<Rightarrow> slice_constructor" where
  "rcr_constructor self sl =
     (case bt_get (rcr_slices self) (message_id sl) of
        Some sc \<Rightarrow> sc
      | None \<Rightarrow> sc_new (message_id sl) (num_slices sl))"

text \<open>The end of \<open>process_slice\<close>: the reservation is replaced by the exact size of the message.\<close>

definition rcr_accept_assembled ::
  "receive_channel_reliable \<Rightarrow> Slice \<Rightarrow> bytes \<Rightarrow> (receive_channel_reliable \<times> (ChannelError + unit)) option" where
  "rcr_accept_assembled self sl message = do {
     mem \<leftarrow> checked_sub (rcr_memory_usage_bytes self) (num_slices sl * SLICE_SIZE);
     let (self, r) = rcr_process_message (self\<lparr>rcr_memory_usage_bytes := mem\<rparr>) message (message_id sl);
     case r of
       Inl e \<Rightarrow> Some (self, Inl e)
     | Inr _ \<Rightarrow> Some (self\<lparr>rcr_slices := bt_remove (message_id sl) (rcr_slices self)\<rparr>, Inr ())
   }"

definition rcr_process_slice ::
  "receive_channel_reliable \<Rightarrow> Slice \<Rightarrow> (receive_channel_reliable \<times> (ChannelError + unit)) option" where
  "rcr_process_slice self sl =
     (if bt_contains_key (rcr_messages self) (message_id sl) \<or> message_id sl < oldest_pending_message_id self
      then Some (self, Inr ())
      else case rcr_reserve self sl of
        Inl e \<Rightarrow> Some (self, Inl e)
      | Inr self \<Rightarrow> do {
          (sc, r) \<leftarrow> sc_process_slice (rcr_constructor self sl) (slice_index sl) (payload sl);
          let self = self\<lparr>rcr_slices := bt_insert (message_id sl) sc (rcr_slices self)\<rparr>;
          case r of
            Inl e \<Rightarrow> Some (self, Inl e)
          | Inr None \<Rightarrow> Some (self, Inr ())
          | Inr (Some message) \<Rightarrow> rcr_accept_assembled self sl message
        })"

text \<open>The loop \<open>while received_messages.contains(&self.oldest_pending_message_id)\<close>.\<close>

function drain_received :: "nat btree_set \<Rightarrow> nat \<Rightarrow> nat btree_set \<times> nat" where
  "drain_received received_ids oldest =
     (if bt_contains_key received_ids oldest
      then drain_received (bt_remove oldest received_ids) (oldest + 1)
      else (received_ids, oldest))"
  by auto
termination by (relation "measure (\<lambda>(received_ids, _). length received_ids)") (auto simp: length_bt_remove)

declare drain_received.simps [simp del]

definition rcr_receive_message ::
  "receive_channel_reliable \<Rightarrow> (receive_channel_reliable \<times> bytes option) option" where
  "rcr_receive_message self =
     (case reliable_order self of
        Ordered \<Rightarrow>
          (case bt_get (rcr_messages self) (oldest_pending_message_id self) of
             None \<Rightarrow> Some (self, None)
           | Some message \<Rightarrow> do {
               mem \<leftarrow> checked_sub (rcr_memory_usage_bytes self) (length message);
               Some (self\<lparr>rcr_messages := bt_remove (oldest_pending_message_id self) (rcr_messages self),
                   oldest_pending_message_id := oldest_pending_message_id self + 1,
                   rcr_memory_usage_bytes := mem\<rparr>, Some message)
             })
      | Unordered most_recent received_ids \<Rightarrow>
          (case bt_pop_first (rcr_messages self) of
             None \<Rightarrow> Some (self, None)
           | Some ((mid, message), messages) \<Rightarrow> do {
               let (received_ids, oldest) =
                 (if oldest_pending_message_id self = mid
                  then drain_received received_ids (oldest_pending_message_id self)
                  else (received_ids, oldest_pending_message_id self));
               mem \<leftarrow> checked_sub (rcr_memory_usage_bytes self) (length message);
               Some (self\<lparr>rcr_messages := messages, oldest_pending_message_id := oldest,
                   reliable_order := Unordered most_recent received_ids,
                   rcr_memory_usage_bytes := mem\<rparr>, Some message)
             }))"

subsection \<open>The set of ids seen and the invariant\<close>

definition rcr_seen :: "receive_channel_reliable \<Rightarrow> nat \<Rightarrow> bool" where
  "rcr_seen self mid \<longleftrightarrow> mid < oldest_pending_message_id self \<or>
     (case reliable_order self of
        Ordered \<Rightarrow> bt_contains_key (rcr_messages self) mid
      | Unordered _ received_ids \<Rightarrow> bt_contains_key received_ids mid)"

fun order_inv :: "ReliableOrder \<Rightarrow> nat \<Rightarrow> (nat, bytes) btree_map \<Rightarrow> bool" where
  "order_inv Ordered oldest messages \<longleftrightarrow> (\<forall>k. bt_contains_key messages k \<longrightarrow> oldest \<le> k)"
| "order_inv (Unordered _ received_ids) oldest messages \<longleftrightarrow>
     bt_wf received_ids \<and> (\<forall>k. bt_contains_key received_ids k \<longrightarrow> oldest \<le> k) \<and>
     (\<forall>k. bt_contains_key messages k \<longrightarrow> k < oldest \<or> bt_contains_key received_ids k) \<and>
     (bt_contains_key received_ids oldest \<longrightarrow> bt_contains_key messages oldest)"

definition reserved_bytes :: "(nat, slice_constructor) btree_map \<Rightarrow> nat" where
  "reserved_bytes = bt_weight (\<lambda>sc. sc_num_slices sc * SLICE_SIZE)"

definition rcr_mem_inv :: "receive_channel_reliable \<Rightarrow> bool" where
  "rcr_mem_inv self \<longleftrightarrow> bt_wf (rcr_slices self) \<and> bt_wf (rcr_messages self) \<and>
     rcr_memory_usage_bytes self = bt_weight length (rcr_messages self) + reserved_bytes (rcr_slices self) \<and>
     rcr_memory_usage_bytes self \<le> rcr_max_memory_usage_bytes self"

definition rcr_inv :: "receive_channel_reliable \<Rightarrow> bool" where
  "rcr_inv self \<longleftrightarrow> rcr_mem_inv self \<and> (\<forall>(mid, sc) \<in> set (rcr_slices self). sc_wf sc) \<and>
     order_inv (reliable_order self) (oldest_pending_message_id self) (rcr_messages self)"

lemma rcr_inv_new: "rcr_inv (rcr_new mx ordered)"
  by (simp add: rcr_inv_def rcr_mem_inv_def rcr_new_def reserved_bytes_def bt_weight_def)

subsection \<open>Accepting a message\<close>

text \<open>The order of a channel without the most recent id, which nothing reads.\<close>

fun order_ids :: "ReliableOrder \<Rightarrow> nat btree_set option" where
  "order_ids Ordered = None"
| "order_ids (Unordered _ received_ids) = Some received_ids"

lemma order_ids_iff [simp]:
  "order_ids ro = None \<longleftrightarrow> ro = Ordered" "None = order_ids ro \<longleftrightarrow> ro = Ordered"
  "order_ids ro = Some ids \<longleftrightarrow> (\<exists>mr. ro = Unordered mr ids)"
  by (cases ro; auto)+

lemma order_inv_ids: "order_ids ro' = order_ids ro \<Longrightarrow> order_inv ro' oldest ms = order_inv ro oldest ms"
  by (cases ro; cases ro') auto

lemma rcr_seen_ids:
  "rcr_seen self mid \<longleftrightarrow> mid < oldest_pending_message_id self \<or>
     (case order_ids (reliable_order self) of
        None \<Rightarrow> bt_contains_key (rcr_messages self) mid
      | Some ids \<Rightarrow> bt_contains_key ids mid)"
  by (cases "reliable_order self") (simp_all add: rcr_seen_def)

lemma rcr_process_message_seen:
  assumes "rcr_seen self mid"
  obtains ro where "rcr_process_message self m mid = (self\<lparr>reliable_order := ro\<rparr>, Inr ())"
    and "order_ids ro = order_ids (reliable_order self)"
proof (cases "reliable_order self")
  case Ordered
  have "rcr_process_message self m mid = (self\<lparr>reliable_order := Ordered\<rparr>, Inr ())"
    using assms Ordered by (cases self) (auto simp: rcr_seen_def rcr_process_message_def)
  then show thesis by (rule that) (simp add: Ordered)
next
  case (Unordered mr ids)
  then have "self\<lparr>reliable_order := Unordered mr ids\<rparr> = self" by (cases self) simp
  then show thesis
    using that [of "Unordered mr ids"] that [of "Unordered (if mr < mid then mid else mr) ids"] assms Unordered
    by (cases "mid < oldest_pending_message_id self")
      (auto simp: rcr_seen_def rcr_process_message_def Let_def split: if_splits)
qed

lemma rcr_process_message_full:
  assumes "\<not> rcr_seen self mid"
    and "rcr_memory_usage_bytes self + length m > rcr_max_memory_usage_bytes self"
  obtains ro where "rcr_process_message self m mid =
      (self\<lparr>reliable_order := ro\<rparr>, Inl ReliableChannelMaxMemoryReached)"
    and "order_ids ro = order_ids (reliable_order self)"
proof (cases "reliable_order self")
  case Ordered
  have "rcr_process_message self m mid =
      (self\<lparr>reliable_order := Ordered\<rparr>, Inl ReliableChannelMaxMemoryReached)"
    using assms Ordered by (cases self) (auto simp: rcr_seen_def rcr_process_message_def)
  then show thesis by (rule that) (simp add: Ordered)
next
  case (Unordered mr ids)
  then show thesis
    using that [of "Unordered (if mr < mid then mid else mr) ids"] assms
    by (auto simp: rcr_seen_def rcr_process_message_def Let_def)
qed

lemma rcr_process_message_new:
  assumes "\<not> rcr_seen self mid"
    and "rcr_memory_usage_bytes self + length m \<le> rcr_max_memory_usage_bytes self"
  obtains ro where "rcr_process_message self m mid =
      (self\<lparr>rcr_memory_usage_bytes := rcr_memory_usage_bytes self + length m, reliable_order := ro,
         rcr_messages := bt_insert mid m (rcr_messages self)\<rparr>, Inr ())"
    and "order_ids ro = map_option (bt_insert mid ()) (order_ids (reliable_order self))"
proof (cases "reliable_order self")
  case Ordered
  then have "self\<lparr>rcr_memory_usage_bytes := rcr_memory_usage_bytes self + length m, reliable_order := Ordered,
         rcr_messages := bt_insert mid m (rcr_messages self)\<rparr> =
      self\<lparr>rcr_memory_usage_bytes := rcr_memory_usage_bytes self + length m,
         rcr_messages := bt_insert mid m (rcr_messages self)\<rparr>" by (cases self) simp
  then show thesis using that [of Ordered] assms Ordered by (simp add: rcr_seen_def rcr_process_message_def)
next
  case (Unordered mr ids)
  then show thesis
    using that [of "Unordered (if mr < mid then mid else mr) (bt_insert mid () ids)"] assms
    by (simp add: rcr_seen_def rcr_process_message_def Let_def)
qed

text \<open>The view of a channel that does not depend on the most recent id.\<close>

definition is_ordered :: "receive_channel_reliable \<Rightarrow> bool" where
  "is_ordered self \<longleftrightarrow> reliable_order self = Ordered"

lemma rcr_view_ids:
  assumes "order_ids ro = order_ids (reliable_order self)"
  shows "rcr_seen (self\<lparr>reliable_order := ro\<rparr>) = rcr_seen self"
    and "is_ordered (self\<lparr>reliable_order := ro\<rparr>) = is_ordered self"
    and "rcr_mem_inv (self\<lparr>reliable_order := ro\<rparr>) = rcr_mem_inv self"
  using assms
  by (cases ro; cases "reliable_order self"; auto simp: rcr_seen_def is_ordered_def rcr_mem_inv_def fun_eq_iff)+

lemma order_inv_insert:
  assumes "order_inv ro oldest ms" and "order_ids ro' = map_option (bt_insert mid ()) (order_ids ro)"
    and "oldest \<le> mid"
  shows "order_inv ro' oldest (bt_insert mid m ms)"
  using assms by (cases ro) (auto simp: bt_map_simps)

lemma rcr_process_message_spec:
  assumes mem: "rcr_mem_inv self"
    and ord: "order_inv (reliable_order self) (oldest_pending_message_id self) (rcr_messages self)"
  obtains self' r where "rcr_process_message self m mid = (self', r)"
    and "rcr_slices self' = rcr_slices self"
    and "oldest_pending_message_id self' = oldest_pending_message_id self" and "is_ordered self' = is_ordered self"
    and "rcr_mem_inv self'"
    and "order_inv (reliable_order self') (oldest_pending_message_id self') (rcr_messages self')"
    and "if rcr_seen self mid \<or> rcr_memory_usage_bytes self + length m > rcr_max_memory_usage_bytes self
      then r = (if rcr_seen self mid then Inr () else Inl ReliableChannelMaxMemoryReached) \<and>
        rcr_messages self' = rcr_messages self \<and> rcr_seen self' = rcr_seen self
      else r = Inr () \<and> rcr_messages self' = bt_insert mid m (rcr_messages self) \<and>
        rcr_seen self' = (rcr_seen self)(mid := True)"
proof -
  consider (seen) "rcr_seen self mid"
    | (full) "\<not> rcr_seen self mid" "rcr_memory_usage_bytes self + length m > rcr_max_memory_usage_bytes self"
    | (new) "\<not> rcr_seen self mid" "rcr_memory_usage_bytes self + length m \<le> rcr_max_memory_usage_bytes self"
    by linarith
  then show thesis
  proof cases
    case seen
    then obtain ro where ro: "rcr_process_message self m mid = (self\<lparr>reliable_order := ro\<rparr>, Inr ())"
      "order_ids ro = order_ids (reliable_order self)" by (rule rcr_process_message_seen)
    show thesis
      by (rule that [OF ro(1)])
        (use mem ord seen in \<open>simp_all add: order_inv_ids [OF ro(2)] rcr_view_ids [OF ro(2)]\<close>)
  next
    case full
    then obtain ro where ro: "rcr_process_message self m mid =
        (self\<lparr>reliable_order := ro\<rparr>, Inl ReliableChannelMaxMemoryReached)"
      "order_ids ro = order_ids (reliable_order self)" by (rule rcr_process_message_full)
    show thesis
      by (rule that [OF ro(1)])
        (use mem ord full in \<open>simp_all add: order_inv_ids [OF ro(2)] rcr_view_ids [OF ro(2)]\<close>)
  next
    case new
    then obtain ro where ro: "rcr_process_message self m mid =
        (self\<lparr>rcr_memory_usage_bytes := rcr_memory_usage_bytes self + length m, reliable_order := ro,
           rcr_messages := bt_insert mid m (rcr_messages self)\<rparr>, Inr ())"
      "order_ids ro = map_option (bt_insert mid ()) (order_ids (reliable_order self))"
      by (rule rcr_process_message_new)
    have old: "oldest_pending_message_id self \<le> mid" using new(1) by (auto simp: rcr_seen_def)
    have fresh: "bt_get (rcr_messages self) mid = None"
      using new(1) ord by (cases "reliable_order self") (auto simp: rcr_seen_def bt_contains_key_def)
    show thesis
    proof (rule that [OF ro(1)])
      show "rcr_mem_inv (self\<lparr>rcr_memory_usage_bytes := rcr_memory_usage_bytes self + length m,
          reliable_order := ro, rcr_messages := bt_insert mid m (rcr_messages self)\<rparr>)"
        using mem new(2) fresh by (simp add: rcr_mem_inv_def bt_map_simps bt.weight_insert)
    qed (use new old ro(2) order_inv_insert [OF ord ro(2) old, of m] in
        \<open>auto simp: is_ordered_def rcr_seen_ids fun_eq_iff split: option.splits simp flip: order_ids_iff(1)\<close>)
  qed
qed
subsection \<open>Slices\<close>


text \<open>A slice that agrees with the constructor its message has, if it has one.\<close>

definition slice_fits :: "receive_channel_reliable \<Rightarrow> Slice \<Rightarrow> bool" where
  "slice_fits self sl \<longleftrightarrow> slice_index sl < num_slices sl \<and>
     (\<forall>sc. bt_get (rcr_slices self) (message_id sl) = Some sc \<longrightarrow> sc_num_slices sc = num_slices sl)"

lemma rcr_constructor_wf:
  assumes "rcr_inv self" and "slice_fits self sl"
  shows "sc_wf (rcr_constructor self sl)" and "sc_num_slices (rcr_constructor self sl) = num_slices sl"
  using assms
  by (auto simp: rcr_constructor_def rcr_inv_def slice_fits_def intro: sc_wf_new split: option.splits dest!: bt_get_in_set)

text \<open>Memory after the reservation, with the constructor put back.\<close>

lemma rcr_reserve_mem:
  assumes mem: "rcr_mem_inv self" and fits: "slice_fits self sl" and res: "rcr_reserve self sl = Inr self1"
    and sc: "sc_num_slices sc = num_slices sl"
  shows "rcr_mem_inv (self1\<lparr>rcr_slices := bt_insert (message_id sl) sc (rcr_slices self1)\<rparr>)"
proof (cases "bt_get (rcr_slices self) (message_id sl)")
  case None
  then show ?thesis
    using assms bt.weight_insert [OF _ None]
    by (auto simp: rcr_reserve_def rcr_mem_inv_def reserved_bytes_def bt_contains_key_def bt_map_simps Let_def split: if_splits)
next
  case (Some sc0)
  then have "sc_num_slices sc0 = num_slices sl" using fits by (simp add: slice_fits_def)
  then have "reserved_bytes (bt_insert (message_id sl) sc (rcr_slices self)) = reserved_bytes (rcr_slices self)"
    unfolding reserved_bytes_def using mem sc
    by (intro bt.weight_replace_same [OF _ Some]) (simp_all add: rcr_mem_inv_def)
  then show ?thesis
    using mem res Some by (auto simp: rcr_reserve_def rcr_mem_inv_def bt_contains_key_def bt_map_simps)
qed

lemma rcr_reserve_fields:
  assumes "rcr_reserve self sl = Inr self1"
  shows "rcr_slices self1 = rcr_slices self" "rcr_messages self1 = rcr_messages self"
    "oldest_pending_message_id self1 = oldest_pending_message_id self" "reliable_order self1 = reliable_order self"
    "rcr_max_memory_usage_bytes self1 = rcr_max_memory_usage_bytes self"
  using assms by (auto simp: rcr_reserve_def Let_def split: if_splits)

lemma rcr_reserve_error: "rcr_reserve self sl = Inl e \<Longrightarrow> e = ReliableChannelMaxMemoryReached"
  by (auto simp: rcr_reserve_def Let_def split: if_splits)

text \<open>The message that a completed constructor yields always fits: its slices were accounted for.\<close>

lemma rcr_complete_mem:
  assumes mem: "rcr_mem_inv self" and get: "bt_get (rcr_slices self) mid = Some sc"
  defines "mem' \<equiv> rcr_memory_usage_bytes self - sc_num_slices sc * SLICE_SIZE"
  shows "sc_num_slices sc * SLICE_SIZE \<le> rcr_memory_usage_bytes self"
    and "rcr_mem_inv (self\<lparr>rcr_memory_usage_bytes := mem', rcr_slices := bt_remove mid (rcr_slices self)\<rparr>)"
    and "length m \<le> sc_num_slices sc * SLICE_SIZE \<Longrightarrow> mem' + length m \<le> rcr_max_memory_usage_bytes self"
proof -
  have wf: "bt_wf (rcr_slices self)" using mem by (simp add: rcr_mem_inv_def)
  note w = bt.weight_ge_entry [OF wf get, of "\<lambda>sc. sc_num_slices sc * SLICE_SIZE", folded reserved_bytes_def]
    bt.weight_removed [OF wf get, of "\<lambda>sc. sc_num_slices sc * SLICE_SIZE", folded reserved_bytes_def]
  then show "sc_num_slices sc * SLICE_SIZE \<le> rcr_memory_usage_bytes self"
    and "rcr_mem_inv (self\<lparr>rcr_memory_usage_bytes := mem', rcr_slices := bt_remove mid (rcr_slices self)\<rparr>)"
    and "length m \<le> sc_num_slices sc * SLICE_SIZE \<Longrightarrow> mem' + length m \<le> rcr_max_memory_usage_bytes self"
    using mem by (auto simp: rcr_mem_inv_def bt_map_simps mem'_def)
qed

lemma rcr_view_cong:
  assumes "oldest_pending_message_id self' = oldest_pending_message_id self"
    and "reliable_order self' = reliable_order self" and "rcr_messages self' = rcr_messages self"
  shows "rcr_seen self' = rcr_seen self" and "is_ordered self' = is_ordered self"
  using assms by (cases "reliable_order self"; simp add: rcr_seen_def is_ordered_def fun_eq_iff)+

lemma rcr_process_message_slices:
  "rcr_process_message (self\<lparr>rcr_slices := ss\<rparr>) m mid =
   (let (self', r) = rcr_process_message self m mid in (self'\<lparr>rcr_slices := ss\<rparr>, r))"
  by (cases self) (auto simp: rcr_process_message_def Let_def split: ReliableOrder.splits)

lemma rcr_process_message_keeps_slices: "rcr_slices (fst (rcr_process_message self m mid)) = rcr_slices self"
  by (simp add: rcr_process_message_def Let_def split: ReliableOrder.splits)

lemma rcr_accept_assembled_spec:
  assumes mem: "rcr_mem_inv s" and ord: "order_inv (reliable_order s) (oldest_pending_message_id s) (rcr_messages s)"
    and get: "bt_get (rcr_slices s) (message_id sl) = Some sc" and n: "sc_num_slices sc = num_slices sl"
    and len: "length m \<le> num_slices sl * SLICE_SIZE"
    and wf: "\<forall>(k, sc) \<in> set (bt_remove (message_id sl) (rcr_slices s)). sc_wf sc"
  obtains self' where "rcr_accept_assembled s sl m = Some (self', Inr ())" and "rcr_inv self'"
    and "rcr_slices self' = bt_remove (message_id sl) (rcr_slices s)"
    and "rcr_messages self' =
      (if rcr_seen s (message_id sl) then rcr_messages s else bt_insert (message_id sl) m (rcr_messages s))"
    and "rcr_seen self' = (rcr_seen s)(message_id sl := True)"
    and "oldest_pending_message_id self' = oldest_pending_message_id s" and "is_ordered self' = is_ordered s"
proof -
  define mem' where "mem' = rcr_memory_usage_bytes s - num_slices sl * SLICE_SIZE"
  let ?mid = "message_id sl" and ?s = "s\<lparr>rcr_memory_usage_bytes := mem'\<rparr>"
  let ?s' = "?s\<lparr>rcr_slices := bt_remove ?mid (rcr_slices s)\<rparr>"
  note c = rcr_complete_mem [OF mem get, unfolded n, folded mem'_def]
  have seen: "rcr_seen ?s' = rcr_seen s" and io: "is_ordered ?s' = is_ordered s"
    by (rule rcr_view_cong; simp)+
  obtain self' r where pm: "rcr_process_message ?s' m ?mid = (self', r)"
    "rcr_slices self' = rcr_slices ?s'" "oldest_pending_message_id self' = oldest_pending_message_id ?s'"
    "is_ordered self' = is_ordered ?s'" "rcr_mem_inv self'"
    "order_inv (reliable_order self') (oldest_pending_message_id self') (rcr_messages self')"
    and if_: "if rcr_seen ?s' ?mid \<or> rcr_memory_usage_bytes ?s' + length m > rcr_max_memory_usage_bytes ?s'
      then r = (if rcr_seen ?s' ?mid then Inr () else Inl ReliableChannelMaxMemoryReached) \<and>
        rcr_messages self' = rcr_messages ?s' \<and> rcr_seen self' = rcr_seen ?s'
      else r = Inr () \<and> rcr_messages self' = bt_insert ?mid m (rcr_messages ?s') \<and>
        rcr_seen self' = (rcr_seen ?s')(?mid := True)"
    by (rule rcr_process_message_spec [of ?s' m ?mid]) (use c(2) ord in simp_all)
  have r: "r = Inr ()" "rcr_messages self' = (if rcr_seen s ?mid then rcr_messages s else bt_insert ?mid m (rcr_messages s))"
    "rcr_seen self' = (rcr_seen s)(?mid := True)"
    using if_ c(3) [OF len] by (auto simp: seen split: if_splits)
  obtain self1 where self1: "rcr_process_message ?s m ?mid = (self1, r)"
    "self' = self1\<lparr>rcr_slices := bt_remove ?mid (rcr_slices s)\<rparr>"
    using pm(1) rcr_process_message_slices [where self = ?s] by (auto split: prod.splits)
  have "rcr_slices self1 = rcr_slices s"
    using rcr_process_message_keeps_slices [of ?s m ?mid] self1(1) by simp
  then have "rcr_accept_assembled s sl m = Some (self', Inr ())"
    using self1 c(1) r(1) by (simp add: rcr_accept_assembled_def checked_sub_def mem'_def)
  then show thesis
    by (rule that) (use r pm(2-6) wf io in \<open>simp_all add: rcr_inv_def\<close>)
qed

lemma rcr_process_slice_spec:
  assumes inv: "rcr_inv self" and fits: "slice_fits self sl"
  obtains (known) "bt_contains_key (rcr_messages self) (message_id sl) \<or> message_id sl < oldest_pending_message_id self"
      and "rcr_process_slice self sl = Some (self, Inr ())"
  | (full) "rcr_process_slice self sl = Some (self, Inl ReliableChannelMaxMemoryReached)"
  | (stored) self' sc r where "rcr_process_slice self sl = Some (self', map_sum id (\<lambda>_. ()) r)"
      and "sc_process_slice (rcr_constructor self sl) (slice_index sl) (payload sl) = Some (sc, r)"
      and "\<forall>m. r \<noteq> Inr (Some m)" and "rcr_inv self'"
      and "rcr_slices self' = bt_insert (message_id sl) sc (rcr_slices self)"
      and "rcr_messages self' = rcr_messages self" and "rcr_seen self' = rcr_seen self"
      and "oldest_pending_message_id self' = oldest_pending_message_id self" and "is_ordered self' = is_ordered self"
  | (completed) self' sc m where "rcr_process_slice self sl = Some (self', Inr ())"
      and "sc_process_slice (rcr_constructor self sl) (slice_index sl) (payload sl) = Some (sc, Inr (Some m))"
      and "rcr_inv self'" and "rcr_slices self' = bt_remove (message_id sl) (rcr_slices self)"
      and "rcr_messages self' = (if rcr_seen self (message_id sl) then rcr_messages self
             else bt_insert (message_id sl) m (rcr_messages self))"
      and "rcr_seen self' = (rcr_seen self)(message_id sl := True)"
      and "oldest_pending_message_id self' = oldest_pending_message_id self" and "is_ordered self' = is_ordered self"
proof (cases "bt_contains_key (rcr_messages self) (message_id sl) \<or> message_id sl < oldest_pending_message_id self")
  case True
  then show thesis using known by (simp add: rcr_process_slice_def)
next
  case new: False
  show thesis
  proof (cases "rcr_reserve self sl")
    case (Inl e)
    then show thesis using full new rcr_reserve_error [OF Inl] by (simp add: rcr_process_slice_def)
  next
    case (Inr self1)
    note f = rcr_reserve_fields [OF Inr]
    have con: "rcr_constructor self1 sl = rcr_constructor self sl" by (simp add: rcr_constructor_def f)
    have mem: "rcr_mem_inv self" and ord: "order_inv (reliable_order self) (oldest_pending_message_id self) (rcr_messages self)"
      using inv by (simp_all add: rcr_inv_def)
    note cwf = rcr_constructor_wf [OF inv fits]
    have idx: "slice_index sl < sc_num_slices (rcr_constructor self sl)" using fits cwf(2) by (simp add: slice_fits_def)
    obtain sc r where run: "sc_process_slice (rcr_constructor self sl) (slice_index sl) (payload sl) = Some (sc, r)"
      and n: "sc_num_slices sc = num_slices sl" and wf': "\<forall>m. r \<noteq> Inr (Some m) \<Longrightarrow> sc_wf sc"
      and len: "\<And>m. r = Inr (Some m) \<Longrightarrow> length m \<le> num_slices sl * SLICE_SIZE"
      using sc_process_slice_safe [OF cwf(1) idx] cwf(2) by metis
    let ?s2 = "self1\<lparr>rcr_slices := bt_insert (message_id sl) sc (rcr_slices self1)\<rparr>"
    have mem2: "rcr_mem_inv ?s2" using rcr_reserve_mem [OF mem fits Inr n] .
    have ord2: "order_inv (reliable_order ?s2) (oldest_pending_message_id ?s2) (rcr_messages ?s2)"
      and seen2: "rcr_seen ?s2 = rcr_seen self" and is2: "is_ordered ?s2 = is_ordered self"
      using ord f rcr_view_cong [of ?s2 self] by simp_all
    show thesis
    proof (cases "\<exists>m. r = Inr (Some m)")
      case False
      have "rcr_inv ?s2"
        using mem2 ord2 inv wf' False f
        by (auto simp: rcr_inv_def rcr_mem_inv_def dest!: in_set_bt_insert [rotated])
      moreover have "rcr_process_slice self sl = Some (?s2, map_sum id (\<lambda>_. ()) r)"
        using new Inr run con False by (auto simp: rcr_process_slice_def Let_def split: sum.splits option.splits)
      ultimately show thesis using stored run False f seen2 is2 by auto
    next
      case True
      then obtain m where m: "r = Inr (Some m)" by blast
      have get: "bt_get (rcr_slices ?s2) (message_id sl) = Some sc" by (simp add: bt_map_simps)
      have wf: "\<forall>(k, sc) \<in> set (bt_remove (message_id sl) (rcr_slices ?s2)). sc_wf sc"
        using inv mem2 f by (auto simp: rcr_inv_def rcr_mem_inv_def dest!: in_set_bt_remove in_set_bt_insert [rotated])
      obtain self' where fin: "rcr_accept_assembled ?s2 sl m = Some (self', Inr ())" "rcr_inv self'"
        "rcr_slices self' = bt_remove (message_id sl) (rcr_slices ?s2)"
        "rcr_messages self' = (if rcr_seen ?s2 (message_id sl) then rcr_messages ?s2
           else bt_insert (message_id sl) m (rcr_messages ?s2))"
        "rcr_seen self' = (rcr_seen ?s2)(message_id sl := True)"
        "oldest_pending_message_id self' = oldest_pending_message_id ?s2" "is_ordered self' = is_ordered ?s2"
        by (rule rcr_accept_assembled_spec [OF mem2 ord2 get n len [OF m] wf])
      have "rcr_process_slice self sl = Some (self', Inr ())"
        using new Inr run con m fin(1) by (simp add: rcr_process_slice_def Let_def)
      then show thesis
        by (rule completed [OF _ run [unfolded m] fin(2)])
          (use fin(3-7) seen2 is2 f in \<open>auto simp: bt_remove_insert\<close>)
    qed
  qed
qed

subsection \<open>Handing messages out\<close>

lemma drain_received_spec:
  assumes "bt_wf ids" and "\<forall>k. bt_contains_key ids k \<longrightarrow> oldest \<le> k" and "drain_received ids oldest = (ids', oldest')"
  shows "bt_wf ids' \<and> oldest \<le> oldest' \<and> \<not> bt_contains_key ids oldest' \<and>
    (\<forall>k. oldest \<le> k \<and> k < oldest' \<longrightarrow> bt_contains_key ids k) \<and>
    (\<forall>k. bt_contains_key ids' k \<longleftrightarrow> bt_contains_key ids k \<and> oldest' \<le> k)"
  using assms
proof (induction ids oldest rule: drain_received.induct)
  case (1 ids oldest)
  show ?case
  proof (cases "bt_contains_key ids oldest")
    case False
    then show ?thesis using 1 by (auto simp: drain_received.simps [of ids])
  next
    case True
    have "\<forall>k. bt_contains_key (bt_remove oldest ids) k \<longrightarrow> oldest + 1 \<le> k"
      using 1(3) by (metis bt_contains_key_simps(2) Suc_eq_plus1 le_antisym not_less_eq_eq)
    moreover have "drain_received (bt_remove oldest ids) (oldest + 1) = (ids', oldest')"
      using 1(4) True by (simp add: drain_received.simps [of ids])
    ultimately have "bt_wf ids' \<and> oldest + 1 \<le> oldest' \<and> \<not> bt_contains_key (bt_remove oldest ids) oldest' \<and>
      (\<forall>k. oldest + 1 \<le> k \<and> k < oldest' \<longrightarrow> bt_contains_key (bt_remove oldest ids) k) \<and>
      (\<forall>k. bt_contains_key ids' k \<longleftrightarrow> bt_contains_key (bt_remove oldest ids) k \<and> oldest' \<le> k)"
      by (intro 1(1) [OF True]) (use 1(2) in \<open>simp_all add: bt_map_simps\<close>)
    then show ?thesis using True by (auto simp: Suc_le_eq) (metis le_neq_implies_less)+
  qed
qed

lemma rcr_mem_inv_take:
  assumes mem: "rcr_mem_inv self" and get: "bt_get (rcr_messages self) mid = Some m"
  shows "length m \<le> rcr_memory_usage_bytes self"
    and "bt_wf (bt_remove mid (rcr_messages self)) \<and>
      rcr_memory_usage_bytes self - length m =
        bt_weight length (bt_remove mid (rcr_messages self)) + reserved_bytes (rcr_slices self)"
  using mem bt.weight_ge_entry [OF _ get, of length] bt.weight_removed [OF _ get, of length]
  by (auto simp: rcr_mem_inv_def bt_map_simps)

lemma rcr_receive_ordered:
  assumes inv: "rcr_inv self" and ord: "is_ordered self"
  shows "case bt_get (rcr_messages self) (oldest_pending_message_id self) of
      None \<Rightarrow> rcr_receive_message self = Some (self, None)
    | Some m \<Rightarrow> \<exists>self'. rcr_receive_message self = Some (self', Some m) \<and> rcr_inv self' \<and> is_ordered self' \<and>
        rcr_seen self' = rcr_seen self \<and> rcr_slices self' = rcr_slices self \<and>
        rcr_messages self' = bt_remove (oldest_pending_message_id self) (rcr_messages self) \<and>
        oldest_pending_message_id self' = oldest_pending_message_id self + 1"
proof (cases "bt_get (rcr_messages self) (oldest_pending_message_id self)")
  case None
  then show ?thesis using ord by (simp add: rcr_receive_message_def is_ordered_def)
next
  case (Some m)
  let ?old = "oldest_pending_message_id self"
  let ?self = "self\<lparr>rcr_messages := bt_remove ?old (rcr_messages self), oldest_pending_message_id := ?old + 1,
    rcr_memory_usage_bytes := rcr_memory_usage_bytes self - length m\<rparr>"
  have mem: "rcr_mem_inv self" and ms: "\<forall>k. bt_contains_key (rcr_messages self) k \<longrightarrow> ?old \<le> k"
    using inv ord by (simp_all add: rcr_inv_def is_ordered_def)
  note t = rcr_mem_inv_take [OF mem Some]
  have "rcr_receive_message self = Some (?self, Some m)"
    using Some ord t(1) by (simp add: rcr_receive_message_def is_ordered_def)
  moreover have "rcr_inv ?self"
    using inv ord t ms le_neq_implies_less [of ?old]
    by (auto simp: rcr_inv_def rcr_mem_inv_def is_ordered_def Suc_le_eq)
  moreover have "rcr_seen ?self = rcr_seen self"
    using ord Some bt_contains_key_Some [OF Some] ms
    by (auto simp: rcr_seen_def is_ordered_def fun_eq_iff less_Suc_eq)
  ultimately show ?thesis using Some ord by (auto simp: is_ordered_def)
qed

lemma order_inv_take:
  assumes inv: "order_inv (Unordered mr ids) oldest ms" and has: "bt_contains_key ms mid"
    and run: "(ids', oldest') = (if oldest = mid then drain_received ids oldest else (ids, oldest))"
  shows "order_inv (Unordered mr ids') oldest' (bt_remove mid ms)"
    and "k < oldest' \<or> bt_contains_key ids' k \<longleftrightarrow> k < oldest \<or> bt_contains_key ids k"
proof -
  have wf: "bt_wf ids" and ge: "\<forall>k. bt_contains_key ids k \<longrightarrow> oldest \<le> k"
    and ms: "\<forall>k. bt_contains_key ms k \<longrightarrow> k < oldest \<or> bt_contains_key ids k"
    and pend: "bt_contains_key ids oldest \<longrightarrow> bt_contains_key ms oldest" using inv by auto
  show "order_inv (Unordered mr ids') oldest' (bt_remove mid ms)"
  proof (cases "oldest = mid")
    case True
    then have "drain_received ids oldest = (ids', oldest')" using run by simp
    note drain_received_spec [OF wf ge this]
    then show ?thesis using ms by (auto simp: not_less)
  next
    case False
    then show ?thesis using run wf ge ms pend by auto
  qed
  show "k < oldest' \<or> bt_contains_key ids' k \<longleftrightarrow> k < oldest \<or> bt_contains_key ids k"
  proof (cases "oldest = mid")
    case True
    then have "drain_received ids oldest = (ids', oldest')" using run by simp
    note d = drain_received_spec [OF wf ge this]
    then show ?thesis by (cases "k < oldest'") (auto simp: not_less)
  qed (use run in simp)
qed

lemma rcr_receive_unordered:
  assumes inv: "rcr_inv self" and ord: "\<not> is_ordered self"
  shows "if rcr_messages self = [] then rcr_receive_message self = Some (self, None)
    else \<exists>self' mid m. rcr_receive_message self = Some (self', Some m) \<and> rcr_inv self' \<and> \<not> is_ordered self' \<and>
      rcr_seen self' = rcr_seen self \<and> rcr_slices self' = rcr_slices self \<and>
      bt_get (rcr_messages self) mid = Some m \<and> rcr_messages self' = bt_remove mid (rcr_messages self)"
proof -
  obtain mr ids where ro: "reliable_order self = Unordered mr ids"
    using ord by (cases "reliable_order self") (auto simp: is_ordered_def)
  show ?thesis
  proof (cases "bt_pop_first (rcr_messages self)")
    case None
    then show ?thesis using ro by (auto simp: rcr_receive_message_def bt_pop_first_def split: list.splits)
  next
    case (Some e)
    obtain mid m ms where e: "e = ((mid, m), ms)" by (metis prod.exhaust)
    have wf: "bt_wf (rcr_messages self)" and mem: "rcr_mem_inv self"
      and oi: "order_inv (Unordered mr ids) (oldest_pending_message_id self) (rcr_messages self)"
      using inv ro by (auto simp: rcr_inv_def rcr_mem_inv_def)
    note pop = bt_pop_first_Some [OF wf Some [unfolded e]]
    note t = rcr_mem_inv_take [OF mem pop(1)]
    obtain ids' oldest' where run: "(ids', oldest') = (if oldest_pending_message_id self = mid
        then drain_received ids (oldest_pending_message_id self) else (ids, oldest_pending_message_id self))"
      by (metis prod.exhaust)
    note take = order_inv_take [OF oi bt_contains_key_Some [OF pop(1)] run]
    let ?self = "self\<lparr>rcr_messages := ms, oldest_pending_message_id := oldest',
      reliable_order := Unordered mr ids', rcr_memory_usage_bytes := rcr_memory_usage_bytes self - length m\<rparr>"
    have "rcr_receive_message self = Some (?self, Some m)"
      using Some e ro t(1) by (simp add: rcr_receive_message_def flip: run)
    moreover have "rcr_inv ?self"
      using inv take(1) t pop(2) by (auto simp: rcr_inv_def rcr_mem_inv_def)
    moreover have "rcr_seen ?self = rcr_seen self" using take(2) ro by (simp add: rcr_seen_def fun_eq_iff)
    moreover have "rcr_messages self \<noteq> []" using Some by (metis bt_pop_first_None option.distinct(1))
    ultimately show ?thesis using pop by (auto simp: is_ordered_def)
  qed
qed


subsection \<open>Properties\<close>

text \<open>
  Slices cannot corrupt the receiver. In every state that satisfies the invariant, a slice with an
  index in range whose slice count is the one its message started with is processed without a panic,
  whatever its payload, and the invariant is kept: the memory counter is exactly the size of the
  messages that wait plus the reservations of the messages being assembled, never above the limit.
\<close>
lemma receive_slice_safe:
  assumes "rcr_inv self" and "slice_fits self sl"
  shows "\<exists>self' r. rcr_process_slice self sl = Some (self', r) \<and> rcr_inv self'"
  by (rule rcr_process_slice_spec [OF assms]) (use assms(1) in blast)+

lemma receive_slice_safe_example:
  "\<exists>self' r. rcr_process_slice (rcr_new 10000 True)
     \<lparr>message_id = 4, slice_index = 1, num_slices = 2, payload = [1, 2]\<rparr> = Some (self', r) \<and> rcr_inv self'"
  by (rule receive_slice_safe [OF rcr_inv_new]) (simp add: slice_fits_def rcr_new_def bt_get_def)



end
