(* ===== verification/Reliable_Delivery.thy ===== *)
theory Reliable_Delivery
  imports Channel_Reliable_Send Channel_Reliable_Receive "HOL-Library.Multiset"
begin

text \<open>
  The two halves of a reliable channel joined by a network that may lose, repeat and reorder packets:
  the network is the set of packets the sender has ever produced, and a step delivers any of them. An
  acknowledgement reaches the sender only for packets the receiver has processed. The invariant relates
  both channels to the list of messages the application has sent.
\<close>

text \<open>
  The loops of \<open>RenetClient::process_packet\<close> that hand the contents of a packet, or of an
  acknowledgement, to the channel.
\<close>

fun rcr_process_messages ::
  "receive_channel_reliable \<Rightarrow> (nat \<times> bytes) list \<Rightarrow> receive_channel_reliable \<times> (ChannelError + unit)" where
  "rcr_process_messages channel [] = (channel, Inr ())"
| "rcr_process_messages channel ((mid, message) # ms) =
     (case rcr_process_message channel message mid of
        (channel, Inl e) \<Rightarrow> (channel, Inl e)
      | (channel, Inr _) \<Rightarrow> rcr_process_messages channel ms)"

fun scr_process_message_acks :: "send_channel_reliable \<Rightarrow> nat list \<Rightarrow> send_channel_reliable option" where
  "scr_process_message_acks channel [] = Some channel"
| "scr_process_message_acks channel (mid # mids) = do {
     channel \<leftarrow> scr_process_message_ack channel mid;
     scr_process_message_acks channel mids
   }"

subsection \<open>What the receiver has of each message\<close>

definition slice_known :: "receive_channel_reliable \<Rightarrow> nat \<Rightarrow> nat \<Rightarrow> bool" where
  "slice_known r mid i \<longleftrightarrow> rcr_seen r mid \<or>
     (\<exists>sc. bt_get (rcr_slices r) mid = Some sc \<and> i \<in> sc_have sc)"

text \<open>The ids of the messages that the application has taken.\<close>

definition taken :: "receive_channel_reliable \<Rightarrow> nat set" where
  "taken r = {k. rcr_seen r k \<and> \<not> bt_contains_key (rcr_messages r) k}"

definition grows :: "receive_channel_reliable \<Rightarrow> receive_channel_reliable \<Rightarrow> bool" where
  "grows r r' \<longleftrightarrow> (\<forall>k. rcr_seen r k \<longrightarrow> rcr_seen r' k) \<and> (\<forall>k i. slice_known r k i \<longrightarrow> slice_known r' k i) \<and>
     taken r' = taken r \<and> is_ordered r' = is_ordered r \<and>
     oldest_pending_message_id r' = oldest_pending_message_id r"

lemma grows_refl: "grows r r"
  by (simp add: grows_def)

lemma grows_trans: "grows r r' \<Longrightarrow> grows r' r'' \<Longrightarrow> grows r r''"
  by (simp add: grows_def)

text \<open>A receiver that holds only messages of \<open>sent\<close>, and slices of them.\<close>

definition recv_inv :: "bytes list \<Rightarrow> receive_channel_reliable \<Rightarrow> bool" where
  "recv_inv sent r \<longleftrightarrow> rcr_inv r \<and> (\<forall>k. rcr_seen r k \<longrightarrow> k < length sent) \<and>
     (\<forall>k m. bt_get (rcr_messages r) k = Some m \<longrightarrow> k < length sent \<and> m = sent ! k) \<and>
     (\<forall>k sc. bt_get (rcr_slices r) k = Some sc \<longrightarrow> k < length sent \<and> sc_tracks (sent ! k) sc)"

fun honest :: "bytes list \<Rightarrow> Packet \<Rightarrow> bool" where
  "honest sent (SmallReliable _ _ ms) \<longleftrightarrow>
     (\<forall>(mid, m) \<in> set ms. mid < length sent \<and> m = sent ! mid \<and> length m \<le> SLICE_SIZE)"
| "honest sent (ReliableSlice _ _ sl) \<longleftrightarrow>
     message_id sl < length sent \<and> SLICE_SIZE < length (sent ! message_id sl) \<and>
     num_slices sl = num_slices_of (sent ! message_id sl) \<and> slice_index sl < num_slices sl \<and>
     payload sl = slice_of (sent ! message_id sl) (slice_index sl)"
| "honest sent _ \<longleftrightarrow> False"

fun known :: "receive_channel_reliable \<Rightarrow> Packet \<Rightarrow> bool" where
  "known r (SmallReliable _ _ ms) \<longleftrightarrow> (\<forall>(mid, m) \<in> set ms. rcr_seen r mid)"
| "known r (ReliableSlice _ _ sl) \<longleftrightarrow> slice_known r (message_id sl) (slice_index sl)"
| "known r _ \<longleftrightarrow> True"

lemma known_grows: "grows r r' \<Longrightarrow> known r p \<Longrightarrow> known r' p"
  by (cases p) (auto simp: grows_def)

lemma growsI:
  assumes "\<And>k. rcr_seen r' k \<longleftrightarrow> rcr_seen r k \<or> k \<in> new"
    and "\<And>k. bt_contains_key (rcr_messages r') k \<longleftrightarrow> bt_contains_key (rcr_messages r) k \<or> k \<in> new \<and> \<not> rcr_seen r k"
    and "\<And>k sc. k \<notin> new \<Longrightarrow> bt_get (rcr_slices r) k = Some sc \<Longrightarrow>
      \<exists>sc'. bt_get (rcr_slices r') k = Some sc' \<and> sc_have sc \<subseteq> sc_have sc'"
    and "is_ordered r' = is_ordered r" and "oldest_pending_message_id r' = oldest_pending_message_id r"
  shows "grows r r'"
proof -
  have "slice_known r' k i" if "slice_known r k i" for k i
    using that assms(1,3) unfolding slice_known_def by (meson subsetD)
  then show ?thesis using assms by (auto simp: grows_def taken_def)
qed

lemma recv_message:
  assumes inv: "recv_inv sent r" and mid: "mid < length sent"
    and run: "rcr_process_message r (sent ! mid) mid = (r', Inr ())"
  shows "recv_inv sent r' \<and> grows r r' \<and> rcr_seen r' mid"
proof -
  have "rcr_mem_inv r" "order_inv (reliable_order r) (oldest_pending_message_id r) (rcr_messages r)"
    using inv by (simp_all add: recv_inv_def rcr_inv_def)
  then obtain self' x where spec: "rcr_process_message r (sent ! mid) mid = (self', x)"
    "rcr_slices self' = rcr_slices r" "oldest_pending_message_id self' = oldest_pending_message_id r"
    "is_ordered self' = is_ordered r" "rcr_mem_inv self'"
    "order_inv (reliable_order self') (oldest_pending_message_id self') (rcr_messages self')"
    and if_: "if rcr_seen r mid \<or> rcr_memory_usage_bytes r + length (sent ! mid) > rcr_max_memory_usage_bytes r
      then x = (if rcr_seen r mid then Inr () else Inl ReliableChannelMaxMemoryReached) \<and>
        rcr_messages self' = rcr_messages r \<and> rcr_seen self' = rcr_seen r
      else x = Inr () \<and> rcr_messages self' = bt_insert mid (sent ! mid) (rcr_messages r) \<and>
        rcr_seen self' = (rcr_seen r)(mid := True)"
    by (rule rcr_process_message_spec)
  have eq: "self' = r'" "x = Inr ()" using spec(1) run by auto
  have ms: "rcr_messages r' = (if rcr_seen r mid then rcr_messages r else bt_insert mid (sent ! mid) (rcr_messages r))"
    and seen: "rcr_seen r' = (rcr_seen r)(mid := True)"
    using if_ eq by (auto simp: fun_eq_iff split: if_splits)
  have "recv_inv sent r'"
    using inv spec(2,5,6) eq mid by (auto simp: recv_inv_def rcr_inv_def ms seen bt_map_simps split: if_splits)
  moreover have "grows r r'"
    by (rule growsI [of _ _ "{mid}"]) (use spec(2-4) eq in \<open>auto simp: ms seen\<close>)
  ultimately show ?thesis by (simp add: seen)
qed

lemma recv_messages:
  assumes "recv_inv sent r" and "\<forall>(mid, m) \<in> set ms. mid < length sent \<and> m = sent ! mid"
    and "rcr_process_messages r ms = (r', Inr ())"
  shows "recv_inv sent r' \<and> grows r r' \<and> (\<forall>(mid, m) \<in> set ms. rcr_seen r' mid)"
  using assms
proof (induction ms arbitrary: r)
  case Nil
  then show ?case by (simp add: grows_refl)
next
  case (Cons e ms)
  obtain mid where e: "e = (mid, sent ! mid)" and mid: "mid < length sent" using Cons.prems(2) by (cases e) auto
  obtain r1 where r1: "rcr_process_message r (sent ! mid) mid = (r1, Inr ())"
    "rcr_process_messages r1 ms = (r', Inr ())"
    using Cons.prems(3) e by (auto split: prod.splits sum.splits)
  note step = recv_message [OF Cons.prems(1) mid r1(1)]
  have "recv_inv sent r' \<and> grows r1 r' \<and> (\<forall>(mid, m) \<in> set ms. rcr_seen r' mid)"
    using Cons.IH [OF _ _ r1(2)] step Cons.prems(2) by simp
  then show ?case using step e grows_trans [of r r1 r'] by (auto simp: grows_def)
qed
lemma rcr_constructor_tracks:
  assumes "recv_inv sent r" and "honest sent (ReliableSlice s c sl)"
  shows "sc_tracks (sent ! message_id sl) (rcr_constructor r sl)"
    and "sc_num_slices (rcr_constructor r sl) = num_slices sl" and "slice_fits r sl"
    and "\<And>sc. bt_get (rcr_slices r) (message_id sl) = Some sc \<Longrightarrow> sc = rcr_constructor r sl"
proof -
  have tr: "\<And>sc. bt_get (rcr_slices r) (message_id sl) = Some sc \<Longrightarrow> sc_tracks (sent ! message_id sl) sc"
    using assms(1) by (simp add: recv_inv_def)
  then show "sc_tracks (sent ! message_id sl) (rcr_constructor r sl)"
    using assms(2) sc_tracks_new(1) [of "sent ! message_id sl" "message_id sl"]
    by (cases "sent ! message_id sl") (auto simp: rcr_constructor_def split: option.splits)
  then show "sc_num_slices (rcr_constructor r sl) = num_slices sl" using assms(2) by (simp add: sc_tracks_def)
  show "slice_fits r sl" using tr assms(2) by (auto simp: slice_fits_def sc_tracks_def)
  show "sc = rcr_constructor r sl" if "bt_get (rcr_slices r) (message_id sl) = Some sc" for sc
    using that by (simp add: rcr_constructor_def)
qed

lemma recv_slice:
  assumes inv: "recv_inv sent r" and hon: "honest sent (ReliableSlice s c sl)"
  shows "\<exists>r' x. rcr_process_slice r sl = Some (r', x) \<and>
    (x = Inr () \<longrightarrow> recv_inv sent r' \<and> grows r r' \<and> slice_known r' (message_id sl) (slice_index sl))"
proof -
  let ?mid = "message_id sl" and ?i = "slice_index sl"
  let ?msg = "sent ! ?mid" and ?sc = "rcr_constructor r sl"
  have rinv: "rcr_inv r" using inv by (simp add: recv_inv_def)
  note con = rcr_constructor_tracks [OF inv hon]
  have h: "?mid < length sent" "payload sl = slice_of ?msg ?i" "?i < sc_num_slices ?sc"
    using hon con(2) by simp_all
  note step = sc_tracks_step [OF con(1) h(3), folded h(2)]
  show ?thesis
  proof (rule rcr_process_slice_spec [OF rinv con(3)])
    assume "bt_contains_key (rcr_messages r) ?mid \<or> ?mid < oldest_pending_message_id r"
      and "rcr_process_slice r sl = Some (r, Inr ())"
    moreover have "bt_contains_key (rcr_messages r) ?mid \<Longrightarrow> rcr_seen r ?mid"
      using rinv by (cases "reliable_order r") (auto simp: rcr_inv_def rcr_seen_def)
    ultimately show ?thesis using inv by (auto simp: grows_refl slice_known_def rcr_seen_def)
  next
    assume "rcr_process_slice r sl = Some (r, Inl ReliableChannelMaxMemoryReached)"
    then show ?thesis by simp
  next
    fix r' sc x
    assume run: "rcr_process_slice r sl = Some (r', map_sum id (\<lambda>_. ()) x)"
      and sc: "sc_process_slice ?sc ?i (payload sl) = Some (sc, x)" "\<forall>m. x \<noteq> Inr (Some m)"
      and r': "rcr_inv r'" "rcr_slices r' = bt_insert ?mid sc (rcr_slices r)" "rcr_messages r' = rcr_messages r"
        "rcr_seen r' = rcr_seen r" "oldest_pending_message_id r' = oldest_pending_message_id r"
        "is_ordered r' = is_ordered r"
    from step sc have "x = Inr None" "sc_tracks ?msg sc" and hv: "sc_have sc = insert ?i (sc_have ?sc)"
      by (auto split: if_splits)
    then have "recv_inv sent r'" using inv r' h(1) by (auto simp: recv_inv_def bt_map_simps)
    moreover have "grows r r'"
      by (rule growsI [of _ _ "{}"]) (use r' hv con(4) in \<open>auto simp: bt_map_simps\<close>)
    moreover have "slice_known r' ?mid ?i" using r'(2) hv by (simp add: slice_known_def bt_map_simps)
    ultimately show ?thesis using run by blast
  next
    fix r' sc m
    assume run: "rcr_process_slice r sl = Some (r', Inr ())"
      and sc: "sc_process_slice ?sc ?i (payload sl) = Some (sc, Inr (Some m))"
      and r': "rcr_inv r'" "rcr_slices r' = bt_remove ?mid (rcr_slices r)"
        "rcr_messages r' = (if rcr_seen r ?mid then rcr_messages r else bt_insert ?mid m (rcr_messages r))"
        "rcr_seen r' = (rcr_seen r)(?mid := True)" "oldest_pending_message_id r' = oldest_pending_message_id r"
        "is_ordered r' = is_ordered r"
    have m: "m = ?msg" using step sc by (auto split: if_splits)
    have "recv_inv sent r'" using inv r' h(1) m by (auto simp: recv_inv_def bt_map_simps split: if_splits)
    moreover have "grows r r'"
      by (rule growsI [of _ _ "{?mid}"]) (use r' in \<open>auto simp: bt_map_simps\<close>)
    ultimately show ?thesis using run r'(4) by (auto simp: slice_known_def)
  qed
qed

text \<open>The application takes a message.\<close>

lemma recv_take_aux:
  assumes inv: "rcr_inv r" and run: "rcr_receive_message r = Some (r', Some m)"
  obtains mid where "bt_get (rcr_messages r) mid = Some m" and "rcr_messages r' = bt_remove mid (rcr_messages r)"
    and "rcr_inv r'" and "rcr_seen r' = rcr_seen r" and "rcr_slices r' = rcr_slices r"
    and "is_ordered r' = is_ordered r"
    and "is_ordered r \<longrightarrow> mid = oldest_pending_message_id r \<and>
      oldest_pending_message_id r' = oldest_pending_message_id r + 1"
proof (cases "is_ordered r")
  case True
  note rcr_receive_ordered [OF inv True]
  with run show thesis
    by (cases "bt_get (rcr_messages r) (oldest_pending_message_id r)") (auto intro: that simp: True)
next
  case False
  note rcr_receive_unordered [OF inv False]
  with run show thesis by (cases "rcr_messages r = []") (auto intro: that simp: False)
qed

lemma recv_take:
  assumes inv: "recv_inv sent r" and run: "rcr_receive_message r = Some (r', Some m)"
  obtains mid where "mid < length sent" and "m = sent ! mid" and "mid \<notin> taken r" and "taken r' = insert mid (taken r)"
    and "recv_inv sent r'" and "rcr_seen r' = rcr_seen r" and "rcr_slices r' = rcr_slices r"
    and "is_ordered r' = is_ordered r" and "is_ordered r \<longrightarrow> mid = oldest_pending_message_id r \<and>
      oldest_pending_message_id r' = oldest_pending_message_id r + 1"
proof -
  have rinv: "rcr_inv r" using inv by (simp add: recv_inv_def)
  obtain mid where mid: "bt_get (rcr_messages r) mid = Some m" "rcr_messages r' = bt_remove mid (rcr_messages r)"
    and r': "rcr_inv r'" "rcr_seen r' = rcr_seen r" "rcr_slices r' = rcr_slices r" "is_ordered r' = is_ordered r"
    and ord: "is_ordered r \<longrightarrow> mid = oldest_pending_message_id r \<and>
      oldest_pending_message_id r' = oldest_pending_message_id r + 1"
    by (rule recv_take_aux [OF rinv run])
  have has: "bt_contains_key (rcr_messages r) mid" using mid(1) by (rule bt_contains_key_Some)
  then have "rcr_seen r mid" using rinv by (cases "reliable_order r") (auto simp: rcr_inv_def rcr_seen_def)
  then have "taken r' = insert mid (taken r)" "mid \<notin> taken r" using has by (auto simp: taken_def r' mid(2))
  moreover have "recv_inv sent r'" using inv r' mid(2) by (auto simp: recv_inv_def bt_map_simps split: if_splits)
  moreover have "mid < length sent \<and> m = sent ! mid" using inv mid(1) by (simp add: recv_inv_def)
  ultimately show thesis using r' ord by (intro that [of mid]) simp_all
qed

subsection \<open>The sender\<close>

text \<open>
  The sender keeps every message that the receiver might not have: what is no longer stored has been
  seen, and an acknowledged slice has been stored by the receiver.
\<close>

definition send_inv :: "duration \<Rightarrow> bytes list \<Rightarrow> receive_channel_reliable \<Rightarrow> send_channel_reliable \<Rightarrow> bool" where
  "send_inv now sent r s \<longleftrightarrow> scr_inv now s \<and> next_reliable_message_id s = length sent \<and>
     (\<forall>k u. bt_get (unacked_messages s) k = Some u \<longrightarrow> um_message u = sent ! k) \<and>
     (\<forall>k < length sent. bt_get (unacked_messages s) k = None \<longrightarrow> rcr_seen r k) \<and>
     (\<forall>k m n na nx ack ls i. bt_get (unacked_messages s) k = Some (Sliced m n na nx ack ls) \<longrightarrow>
        i < n \<longrightarrow> ack ! i \<longrightarrow> slice_known r k i)"

lemma send_inv_grows: "grows r r' \<Longrightarrow> send_inv now sent r s \<Longrightarrow> send_inv now sent r' s"
  by (simp add: send_inv_def grows_def)

lemma send_inv_take:
  "rcr_seen r' = rcr_seen r \<Longrightarrow> rcr_slices r' = rcr_slices r \<Longrightarrow> send_inv now sent r s \<Longrightarrow> send_inv now sent r' s"
  by (simp add: send_inv_def slice_known_def)

lemma send_inv_mono: "send_inv now sent r s \<Longrightarrow> now \<le> now' \<Longrightarrow> send_inv now' sent r s"
  using scr_inv_mono by (auto simp: send_inv_def)

lemma send_inv_get:
  assumes "send_inv now sent r s" and "bt_get (unacked_messages s) k = Some u"
  shows "k < length sent" and "um_message u = sent ! k" and "um_wf now u"
  using assms scr_inv_get [of now s k u] by (auto simp: send_inv_def)

lemma send_inv_send:
  assumes inv: "send_inv now sent r s" and run: "scr_send_message s m = (s', Inr ())"
  shows "send_inv now (sent @ [m]) r s'"
proof -
  let ?um = "if length m > SLICE_SIZE then new_sliced m else Small m None"
  have eq: "unacked_messages s' = bt_insert (length sent) ?um (unacked_messages s)"
    "next_reliable_message_id s' = length sent + 1"
    using run inv by (auto simp: scr_send_message_def send_inv_def Let_def split: if_splits)
  have "scr_inv now s'" using scr_inv_send_message [of now s m] inv run by (simp add: send_inv_def)
  moreover have "um_message ?um = m" by simp
  moreover have "\<not> ack ! i" if "?um = Sliced m' n na nx ack ls" "i < n" for m' n na nx ack ls i
    using that by (auto simp: new_sliced_def Let_def split: if_splits)
  ultimately show ?thesis
    using inv eq send_inv_get(1) [OF inv]
    by (auto simp: send_inv_def bt_map_simps nth_append less_Suc_eq simp del: um_message_new_sliced)
qed

lemma carries_honest:
  assumes "send_inv now sent r s" and "carries ch (bt_get (unacked_messages s)) p"
  shows "honest sent p"
proof (cases p)
  case (SmallReliable sq c ms)
  have "mid < length sent \<and> m = sent ! mid \<and> length m \<le> SLICE_SIZE" if "(mid, m) \<in> set ms" for mid m
  proof -
    have "\<forall>(mid, m) \<in> set ms. \<exists>ls. bt_get (unacked_messages s) mid = Some (Small m ls)"
      using assms(2) SmallReliable by simp
    from bspec [OF this that] obtain ls where "bt_get (unacked_messages s) mid = Some (Small m ls)" by auto
    from send_inv_get [OF assms(1) this] show ?thesis by simp
  qed
  then show ?thesis using SmallReliable by auto
next
  case (ReliableSlice sq c sl)
  then obtain m n na nx ack ls where u: "bt_get (unacked_messages s) (message_id sl) = Some (Sliced m n na nx ack ls)"
    "num_slices sl = n" "slice_index sl < n" "payload sl = slice_of m (slice_index sl)"
    using assms(2) by auto
  then show ?thesis using ReliableSlice send_inv_get [OF assms(1) u(1)] by auto
qed (use assms(2) in auto)

lemma send_inv_emit:
  assumes inv: "send_inv now sent r s" and run: "scr_get_packets_to_send lib s q a now = Some (s', q', a', ps)"
  shows "send_inv now sent r s'" and "\<forall>p \<in> set ps. honest sent p"
proof -
  have sinv: "scr_inv now s" using inv by (simp add: send_inv_def)
  obtain ums' where ums: "s' = s\<lparr>unacked_messages := ums'\<rparr>" "ums_core ums' = ums_core (unacked_messages s)"
    "scr_inv now s'" "\<forall>p \<in> set ps. carries (scr_channel_id s) (bt_get (unacked_messages s)) p"
    using scr_get_packets_spec [OF sinv, of lib q a] run by auto
  have core: "map_option um_core (bt_get ums' k) = map_option um_core (bt_get (unacked_messages s) k)" for k
    using ums(2) by (simp add: ums_core_get)
  have "\<exists>u'. bt_get (unacked_messages s) k = Some u' \<and> um_core u' = um_core u" if "bt_get ums' k = Some u" for k u
    using core [of k] that by (cases "bt_get (unacked_messages s) k") auto
  moreover have "bt_get (unacked_messages s) k = None" if "bt_get ums' k = None" for k
    using core [of k] that by simp
  ultimately show "send_inv now sent r s'"
    using inv ums(1,3) by (fastforce simp: send_inv_def um_message_core)
  show "\<forall>p \<in> set ps. honest sent p" using ums(4) carries_honest [OF inv] by blast
qed


lemma send_inv_message_acks:
  assumes "send_inv now sent r s"
    and "\<forall>k \<in> set mids. rcr_seen r k \<and> length (sent ! k) \<le> SLICE_SIZE"
  shows "\<exists>s'. scr_process_message_acks s mids = Some s' \<and> send_inv now sent r s'"
  using assms
proof (induction mids arbitrary: s)
  case Nil
  then show ?case by simp
next
  case (Cons k mids)
  have "\<forall>u. bt_get (unacked_messages s) k = Some u \<longrightarrow> (\<exists>m ls. u = Small m ls)"
  proof (intro allI impI)
    fix u assume "bt_get (unacked_messages s) k = Some u"
    from send_inv_get [OF Cons.prems(1) this] show "\<exists>m ls. u = Small m ls" using Cons.prems(2) by (cases u) auto
  qed
  then obtain s1 where s1: "scr_process_message_ack s k = Some s1" "scr_inv now s1"
    "unacked_messages s1 = bt_remove k (unacked_messages s)"
    "next_reliable_message_id s1 = next_reliable_message_id s"
    using scr_process_message_ack_spec [of now s k] Cons.prems(1) by (auto simp: send_inv_def)
  then have "send_inv now sent r s1"
    using Cons.prems by (auto simp: send_inv_def bt_map_simps split: if_splits)
  then show ?case using Cons.IH [of s1] Cons.prems(2) s1(1) by simp
qed

lemma send_inv_slice_ack:
  assumes inv: "send_inv now sent r s" and rinv: "recv_inv sent r" and hon: "honest sent (ReliableSlice q c sl)"
    and known: "slice_known r (message_id sl) (slice_index sl)"
  shows "\<exists>s'. scr_process_slice_message_ack s (message_id sl) (slice_index sl) = Some s' \<and> send_inv now sent r s'"
proof -
  let ?k = "message_id sl" and ?i = "slice_index sl"
  have sinv: "scr_inv now s" using inv by (simp add: send_inv_def)
  have sliced: "\<exists>m n na nx ack ls. u = Sliced m n na nx ack ls \<and> ?i < n \<and> n = num_slices_of (sent ! ?k)"
    if "bt_get (unacked_messages s) ?k = Some u" for u
    using send_inv_get [OF inv that] hon by (cases u) auto
  then have "\<forall>u. bt_get (unacked_messages s) ?k = Some u \<longrightarrow> (\<exists>m n na nx ack ls. u = Sliced m n na nx ack ls \<and> ?i < n)"
    by blast
  from scr_process_slice_message_ack_spec [OF sinv this]
  obtain s' where s': "scr_process_slice_message_ack s ?k ?i = Some s'" "scr_inv now s'"
    "next_reliable_message_id s' = next_reliable_message_id s"
    and other: "\<And>k. k \<noteq> ?k \<Longrightarrow> bt_get (unacked_messages s') k = bt_get (unacked_messages s) k"
    and same: "\<And>u'. bt_get (unacked_messages s') ?k = Some u' \<Longrightarrow>
      \<exists>m n na na' nx ack ls. bt_get (unacked_messages s) ?k = Some (Sliced m n na nx ack ls) \<and>
        u' = Sliced m n na' nx (ack[?i := True]) ls"
    by auto
  have acked: "slice_known r ?k j"
    if "bt_get (unacked_messages s) ?k = Some (Sliced m n na nx ack ls)" "j < n" "ack[?i := True] ! j" for m n na nx ack ls j
  proof (cases "j = ?i")
    case False
    then show ?thesis using that inv unfolding send_inv_def by (metis nth_list_update_neq)
  qed (simp add: known)
  have "rcr_seen r ?k" if none: "bt_get (unacked_messages s') ?k = None"
  proof (cases "bt_get (unacked_messages s) ?k")
    case None
    then show ?thesis using inv hon by (simp add: send_inv_def)
  next
    case (Some u)
    then obtain m n na nx ack ls where u: "bt_get (unacked_messages s) ?k = Some (Sliced m n na nx ack ls)"
      and n: "?i < n" "n = num_slices_of (sent ! ?k)" using sliced by blast
    have all: "slice_known r ?k j" if "j < n" for j
      using acked [OF u that] slice_ack_last [OF sinv u n(1) s'(1) none that] by simp
    show ?thesis
    proof (rule ccontr)
      assume unseen: "\<not> rcr_seen r ?k"
      then obtain sc where sc: "bt_get (rcr_slices r) ?k = Some sc" using known by (auto simp: slice_known_def)
      then have tr: "sc_tracks (sent ! ?k) sc" using rinv by (simp add: recv_inv_def)
      then have "sc_wf sc" "sc_num_slices sc = n" using n(2) by (simp_all add: sc_tracks_def)
      moreover have "{..<n} \<subseteq> sc_have sc" using all unseen sc by (auto simp: slice_known_def)
      moreover have "sc_have sc \<subseteq> {..<sc_num_slices sc}" using \<open>sc_wf sc\<close> by (auto simp: sc_have_def sc_wf_def)
      ultimately show False using sc_complete_iff(1) by blast
    qed
  qed
  note last = this
  have "um_message u = sent ! k" if "bt_get (unacked_messages s') k = Some u" for k u
    using that other [of k] same send_inv_get(2) [OF inv] by (cases "k = ?k") force+
  moreover have "rcr_seen r k" if "k < length sent" "bt_get (unacked_messages s') k = None" for k
    using that other [of k] last inv by (cases "k = ?k") (auto simp: send_inv_def)
  moreover have "slice_known r k j"
    if "bt_get (unacked_messages s') k = Some (Sliced m n na nx ack ls)" "j < n" "ack ! j" for k m n na nx ack ls j
  proof (cases "k = ?k")
    case True
    then show ?thesis using that same acked by blast
  next
    case False
    then show ?thesis using that other [OF False] inv unfolding send_inv_def by metis
  qed
  ultimately have "send_inv now sent r s'" using inv s'(2,3) by (simp add: send_inv_def)
  then show ?thesis using s'(1) by blast
qed

subsection \<open>The system\<close>

record world =
  w_now :: duration
  w_sender :: send_channel_reliable
  w_receiver :: receive_channel_reliable
  w_net :: "Packet set"
  w_got :: "Packet set"
  w_sent :: "bytes list"
  w_delivered :: "bytes list"

definition initial_world :: "u8 \<Rightarrow> duration \<Rightarrow> nat \<Rightarrow> nat \<Rightarrow> bool \<Rightarrow> world" where
  "initial_world ch rt send_memory receive_memory ordered = \<lparr>w_now = 0, w_sender = scr_new ch rt send_memory,
     w_receiver = rcr_new receive_memory ordered, w_net = {}, w_got = {}, w_sent = [], w_delivered = []\<rparr>"

inductive delivery_step :: "octets_lib \<Rightarrow> world \<Rightarrow> world \<Rightarrow> bool" for lib where
  send: "scr_send_message (w_sender w) m = (s, Inr ()) \<Longrightarrow>
    delivery_step lib w (w\<lparr>w_sender := s, w_sent := w_sent w @ [m]\<rparr>)"
| tick: "w_now w \<le> now \<Longrightarrow> delivery_step lib w (w\<lparr>w_now := now\<rparr>)"
| emit: "scr_get_packets_to_send lib (w_sender w) sequence available (w_now w) = Some (s, sequence', available', ps) \<Longrightarrow>
    delivery_step lib w (w\<lparr>w_sender := s, w_net := w_net w \<union> set ps\<rparr>)"
| arrive_messages: "SmallReliable sequence ch ms \<in> w_net w \<Longrightarrow>
    rcr_process_messages (w_receiver w) ms = (r, Inr ()) \<Longrightarrow>
    delivery_step lib w (w\<lparr>w_receiver := r, w_got := insert (SmallReliable sequence ch ms) (w_got w)\<rparr>)"
| arrive_slice: "ReliableSlice sequence ch sl \<in> w_net w \<Longrightarrow>
    rcr_process_slice (w_receiver w) sl = Some (r, Inr ()) \<Longrightarrow>
    delivery_step lib w (w\<lparr>w_receiver := r, w_got := insert (ReliableSlice sequence ch sl) (w_got w)\<rparr>)"
| ack_messages: "SmallReliable sequence ch ms \<in> w_got w \<Longrightarrow>
    scr_process_message_acks (w_sender w) (map fst ms) = Some s \<Longrightarrow>
    delivery_step lib w (w\<lparr>w_sender := s\<rparr>)"
| ack_slice: "ReliableSlice sequence ch sl \<in> w_got w \<Longrightarrow>
    scr_process_slice_message_ack (w_sender w) (message_id sl) (slice_index sl) = Some s \<Longrightarrow>
    delivery_step lib w (w\<lparr>w_sender := s\<rparr>)"
| deliver: "rcr_receive_message (w_receiver w) = Some (r, Some m) \<Longrightarrow>
    delivery_step lib w (w\<lparr>w_receiver := r, w_delivered := w_delivered w @ [m]\<rparr>)"

inductive delivery_reach :: "octets_lib \<Rightarrow> world \<Rightarrow> world \<Rightarrow> bool" for lib w0 where
  start: "delivery_reach lib w0 w0"
| step: "delivery_reach lib w0 w \<Longrightarrow> delivery_step lib w w' \<Longrightarrow> delivery_reach lib w0 w'"

definition delivered_inv :: "bytes list \<Rightarrow> receive_channel_reliable \<Rightarrow> bytes list \<Rightarrow> bool" where
  "delivered_inv sent r delivered \<longleftrightarrow> (\<exists>ids. distinct ids \<and> set ids = taken r \<and> delivered = map (nth sent) ids \<and>
     (is_ordered r \<longrightarrow> ids = [0..<oldest_pending_message_id r]))"

definition world_inv :: "bool \<Rightarrow> world \<Rightarrow> bool" where
  "world_inv ordered w \<longleftrightarrow> is_ordered (w_receiver w) = ordered \<and> recv_inv (w_sent w) (w_receiver w) \<and> send_inv (w_now w) (w_sent w) (w_receiver w) (w_sender w) \<and>
     (\<forall>p \<in> w_net w. honest (w_sent w) p) \<and> w_got w \<subseteq> w_net w \<and> (\<forall>p \<in> w_got w. known (w_receiver w) p) \<and>
     delivered_inv (w_sent w) (w_receiver w) (w_delivered w)"

lemma world_inv_initial: "world_inv ordered (initial_world ch rt mxs mxr ordered)"
  using scr_inv_new rcr_inv_new
  by (auto simp: world_inv_def initial_world_def recv_inv_def send_inv_def delivered_inv_def taken_def
      rcr_seen_def is_ordered_def rcr_new_def scr_new_def bt_get_def bt_contains_key_def split: ReliableOrder.splits)

lemma recv_inv_append: "recv_inv sent r \<Longrightarrow> recv_inv (sent @ [m]) r"
  by (fastforce simp: recv_inv_def nth_append)

lemma honest_append: "honest sent p \<Longrightarrow> honest (sent @ [m]) p"
  by (cases p) (auto simp: nth_append)

lemma delivered_inv_append: "recv_inv sent r \<Longrightarrow> delivered_inv sent r d \<Longrightarrow> delivered_inv (sent @ [m]) r d"
proof -
  assume r: "recv_inv sent r" and "delivered_inv sent r d"
  then obtain ids where ids: "distinct ids" "set ids = taken r" "d = map (nth sent) ids"
    "is_ordered r \<longrightarrow> ids = [0..<oldest_pending_message_id r]" by (auto simp: delivered_inv_def)
  have "\<forall>k \<in> set ids. k < length sent" using r ids(2) by (auto simp: recv_inv_def taken_def)
  then have "d = map (nth (sent @ [m])) ids" using ids(3) by (simp add: nth_append)
  then show ?thesis using ids by (auto simp: delivered_inv_def)
qed

lemma delivered_inv_grows: "grows r r' \<Longrightarrow> delivered_inv sent r d \<Longrightarrow> delivered_inv sent r' d"
  by (simp add: grows_def delivered_inv_def)

lemma world_inv_receiver:
  assumes inv: "world_inv ordered w" and r: "recv_inv (w_sent w) r" "grows (w_receiver w) r" and p: "p \<in> w_net w" "known r p"
  shows "world_inv ordered (w\<lparr>w_receiver := r, w_got := insert p (w_got w)\<rparr>)"
proof -
  have "is_ordered r = is_ordered (w_receiver w)" using r(2) by (simp add: grows_def)
  then show ?thesis
    using inv r p known_grows [OF r(2)] send_inv_grows [OF r(2)] delivered_inv_grows [OF r(2)]
    by (auto simp: world_inv_def)
qed

lemma world_inv_deliver:
  assumes inv: "world_inv ordered w" and run: "rcr_receive_message (w_receiver w) = Some (r, Some m)"
  shows "world_inv ordered (w\<lparr>w_receiver := r, w_delivered := w_delivered w @ [m]\<rparr>)"
proof -
  let ?r = "w_receiver w"
  have rinv: "recv_inv (w_sent w) ?r" using inv by (simp add: world_inv_def)
  obtain mid where mid: "mid < length (w_sent w)" "m = w_sent w ! mid" "mid \<notin> taken ?r" "taken r = insert mid (taken ?r)"
    and r: "recv_inv (w_sent w) r" "rcr_seen r = rcr_seen ?r" "rcr_slices r = rcr_slices ?r"
      "is_ordered r = is_ordered ?r"
    and ord: "is_ordered ?r \<longrightarrow> mid = oldest_pending_message_id ?r \<and>
      oldest_pending_message_id r = oldest_pending_message_id ?r + 1"
    by (rule recv_take [OF rinv run])
  obtain ids where ids: "distinct ids" "set ids = taken ?r" "w_delivered w = map (nth (w_sent w)) ids"
    "is_ordered ?r \<longrightarrow> ids = [0..<oldest_pending_message_id ?r]"
    using inv by (auto simp: world_inv_def delivered_inv_def)
  have "delivered_inv (w_sent w) r (w_delivered w @ [m])"
    unfolding delivered_inv_def by (rule exI [of _ "ids @ [mid]"]) (use ids mid r(4) ord in auto)
  moreover have "known r p" if "known ?r p" for p using that r(2,3) by (cases p) (auto simp: slice_known_def)
  ultimately show ?thesis using inv r send_inv_take [OF r(2,3)] by (auto simp: world_inv_def)
qed

lemma world_inv_packets:
  "world_inv ordered w \<Longrightarrow> p \<in> w_net w \<Longrightarrow> honest (w_sent w) p"
  "world_inv ordered w \<Longrightarrow> p \<in> w_got w \<Longrightarrow> honest (w_sent w) p \<and> known (w_receiver w) p"
  by (auto simp: world_inv_def)

lemma world_inv_ack_messages:
  assumes inv: "world_inv ordered w" and p: "SmallReliable q ch ms \<in> w_got w"
  shows "\<exists>s. scr_process_message_acks (w_sender w) (map fst ms) = Some s \<and> world_inv ordered (w\<lparr>w_sender := s\<rparr>)"
proof -
  have "\<forall>k \<in> set (map fst ms). rcr_seen (w_receiver w) k \<and> length (w_sent w ! k) \<le> SLICE_SIZE"
    using world_inv_packets(2) [OF inv p] by fastforce
  from send_inv_message_acks [OF _ this] inv show ?thesis by (fastforce simp: world_inv_def)
qed

lemma world_inv_ack_slice:
  assumes inv: "world_inv ordered w" and p: "ReliableSlice q ch sl \<in> w_got w"
  shows "\<exists>s. scr_process_slice_message_ack (w_sender w) (message_id sl) (slice_index sl) = Some s \<and>
    world_inv ordered (w\<lparr>w_sender := s\<rparr>)"
  using send_inv_slice_ack [of "w_now w" "w_sent w" "w_receiver w" "w_sender w" q ch sl]
    world_inv_packets(2) [OF inv p] inv by (fastforce simp: world_inv_def)

lemma world_inv_step: "delivery_step lib w w' \<Longrightarrow> world_inv ordered w \<Longrightarrow> world_inv ordered w'"
proof (induction rule: delivery_step.induct)
  case (send w m s)
  then show ?case
    using send_inv_send recv_inv_append honest_append delivered_inv_append by (auto simp: world_inv_def)
next
  case (tick w now)
  then show ?case using send_inv_mono by (auto simp: world_inv_def)
next
  case (emit w sequence available s sequence' available' ps)
  then show ?case
    using send_inv_emit [of "w_now w" "w_sent w" "w_receiver w" "w_sender w"] by (auto simp: world_inv_def)
next
  case (arrive_messages sequence ch ms w r)
  have "\<forall>(mid, m) \<in> set ms. mid < length (w_sent w) \<and> m = w_sent w ! mid"
    using world_inv_packets(1) [OF arrive_messages(3,1)] by auto
  from recv_messages [OF _ this arrive_messages(2)] arrive_messages
  show ?case by (intro world_inv_receiver) (auto simp: world_inv_def)
next
  case (arrive_slice sequence ch sl w r)
  from recv_slice [OF _ world_inv_packets(1) [OF arrive_slice(3,1)], of "w_receiver w"] arrive_slice
  show ?case by (intro world_inv_receiver) (auto simp: world_inv_def)
next
  case (ack_messages sequence ch ms w s)
  from world_inv_ack_messages [OF ack_messages(3,1)] ack_messages(2) show ?case by auto
next
  case (ack_slice sequence ch sl w s)
  from world_inv_ack_slice [OF ack_slice(3,1)] ack_slice(2) show ?case by auto
next
  case (deliver w r m)
  then show ?case by (rule world_inv_deliver [rotated])
qed

lemma world_inv_reach: "delivery_reach lib w0 w \<Longrightarrow> world_inv ordered w0 \<Longrightarrow> world_inv ordered w"
  by (induction rule: delivery_reach.induct) (simp_all add: world_inv_step)


lemma map_nth_upt_take: "n \<le> length xs \<Longrightarrow> map (nth xs) [0..<n] = take n xs"
  by (simp add: list_eq_iff_nth_eq)

lemma world_inv_delivered:
  assumes "world_inv ordered w"
  obtains ids where "distinct ids" and "set ids = taken (w_receiver w)" and "set ids \<subseteq> {..<length (w_sent w)}"
    and "w_delivered w = map (nth (w_sent w)) ids"
    and "is_ordered (w_receiver w) \<longrightarrow> ids = [0..<oldest_pending_message_id (w_receiver w)]"
proof -
  obtain ids where ids: "distinct ids" "set ids = taken (w_receiver w)" "w_delivered w = map (nth (w_sent w)) ids"
    "is_ordered (w_receiver w) \<longrightarrow> ids = [0..<oldest_pending_message_id (w_receiver w)]"
    using assms by (auto simp: world_inv_def delivered_inv_def)
  moreover have "set ids \<subseteq> {..<length (w_sent w)}"
    using assms ids(2) by (auto simp: world_inv_def recv_inv_def taken_def)
  ultimately show thesis by (intro that)
qed

text \<open>Every message has been taken by the application when the sender has nothing left and none waits.\<close>

lemma world_inv_complete:
  assumes inv: "world_inv ordered w" and acked: "unacked_messages (w_sender w) = []"
    and none: "rcr_receive_message (w_receiver w) = Some (r, None)"
  shows "taken (w_receiver w) = {..<length (w_sent w)}"
proof -
  let ?r = "w_receiver w" and ?s = "w_sent w"
  have rinv: "rcr_inv ?r" and lt: "\<And>k. rcr_seen ?r k \<Longrightarrow> k < length ?s"
    using inv by (auto simp: world_inv_def recv_inv_def)
  have seen: "rcr_seen ?r k \<longleftrightarrow> k < length ?s" for k
    using inv acked lt by (auto simp: world_inv_def send_inv_def bt_get_def)
  have "\<not> bt_contains_key (rcr_messages ?r) k" for k
  proof (cases "is_ordered ?r")
    case True
    then have no: "bt_get (rcr_messages ?r) (oldest_pending_message_id ?r) = None"
      using rcr_receive_ordered [OF rinv True] none
      by (cases "bt_get (rcr_messages ?r) (oldest_pending_message_id ?r)") auto
    have le: "bt_contains_key (rcr_messages ?r) k \<Longrightarrow> oldest_pending_message_id ?r \<le> k" for k
      using rinv True by (simp add: rcr_inv_def is_ordered_def)
    have "oldest_pending_message_id ?r \<ge> length ?s"
    proof (rule ccontr)
      assume "\<not> length ?s \<le> oldest_pending_message_id ?r"
      then have "rcr_seen ?r (oldest_pending_message_id ?r)" by (simp add: seen)
      then show False using no True by (simp add: rcr_seen_def is_ordered_def bt_contains_key_def)
    qed
    moreover have "bt_contains_key (rcr_messages ?r) k \<Longrightarrow> k < length ?s"
      using True seen [of k] by (simp add: rcr_seen_def is_ordered_def)
    ultimately show ?thesis using le [of k] by linarith
  next
    case False
    then have "rcr_messages ?r = []"
      using rcr_receive_unordered [OF rinv False] none by (cases "rcr_messages ?r = []") auto
    then show ?thesis by (simp add: bt_contains_key_def bt_get_def)
  qed
  then show ?thesis by (auto simp: taken_def seen)
qed

lemma rcr_receive_total: "rcr_inv r \<Longrightarrow> rcr_receive_message r \<noteq> None"
proof (cases "is_ordered r")
  assume inv: "rcr_inv r"
  case True
  show ?thesis
    using rcr_receive_ordered [OF inv True]
    by (cases "bt_get (rcr_messages r) (oldest_pending_message_id r)") auto
next
  assume inv: "rcr_inv r"
  case False
  show ?thesis using rcr_receive_unordered [OF inv False] by (cases "rcr_messages r = []") auto
qed

subsection \<open>A run\<close>

text \<open>One message is sent, put on the wire, received, acknowledged and taken by the application.\<close>

definition demo_sender :: "UnackedMessage list \<Rightarrow> nat \<Rightarrow> send_channel_reliable" where
  "demo_sender us mem = \<lparr>scr_channel_id = 0, unacked_messages = map (Pair 0) us, next_reliable_message_id = 1,
     resend_time = 100, scr_max_memory_usage_bytes = 1000, scr_memory_usage_bytes = mem\<rparr>"

lemma demo_sender_steps:
  "scr_send_message (scr_new 0 100 1000) [7] = (demo_sender [Small [7] None] 1, Inr ())"
  "scr_get_packets_to_send quic_lib (demo_sender [Small [7] None] 1) 0 1000 0 =
     Some (demo_sender [Small [7] (Some 0)] 1, 1, 999, [SmallReliable 0 0 [(0, [7])]])"
  "scr_process_message_acks (demo_sender [Small [7] (Some 0)] 1) [0] = Some (demo_sender [] 0)"
  by (simp_all add: demo_sender_def scr_send_message_def scr_new_def SLICE_SIZE_def scr_get_packets_to_send_def
      send_small_def resend_due_def push_small_def initial_state_def finish_small_def flush_small_def quic_lib_def
      quic_varint_len_def scr_process_message_ack_def bt_get_def bt_remove_def Let_def)

lemma demo_receiver_steps:
  "\<exists>r r'. rcr_process_messages (rcr_new 1000 ordered) [(0, [7])] = (r, Inr ()) \<and>
     rcr_receive_message r = Some (r', Some [7]) \<and> rcr_receive_message r' = Some (r', None)"
  by (cases ordered)
    (simp_all add: rcr_new_def rcr_process_message_def rcr_receive_message_def bt_contains_key_def bt_get_def
      bt_remove_def bt_pop_first_def Let_def drain_received.simps [of "[(0, ())]"] drain_received.simps [of "[]"])

lemma demo_run:
  "\<exists>w r. delivery_reach quic_lib (initial_world 0 100 1000 1000 ordered) w \<and> w_sent w = [[7]] \<and>
     w_delivered w = [[7]] \<and> unacked_messages (w_sender w) = [] \<and> rcr_receive_message (w_receiver w) = Some (r, None) \<and>
     SmallReliable 0 0 [(0, [7])] \<in> w_got w"
proof -
  obtain r r' where r: "rcr_process_messages (rcr_new 1000 ordered) [(0, [7])] = (r, Inr ())"
    "rcr_receive_message r = Some (r', Some [7])" "rcr_receive_message r' = Some (r', None)"
    using demo_receiver_steps by blast
  let ?p = "SmallReliable 0 0 [(0, [7])]"
  let ?w0 = "initial_world 0 100 1000 1000 ordered"
  let ?w1 = "?w0\<lparr>w_sender := demo_sender [Small [7] None] 1, w_sent := w_sent ?w0 @ [[7]]\<rparr>"
  let ?w2 = "?w1\<lparr>w_sender := demo_sender [Small [7] (Some 0)] 1, w_net := w_net ?w1 \<union> set [?p]\<rparr>"
  let ?w3 = "?w2\<lparr>w_receiver := r, w_got := insert ?p (w_got ?w2)\<rparr>"
  let ?w4 = "?w3\<lparr>w_sender := demo_sender [] 0\<rparr>"
  let ?w5 = "?w4\<lparr>w_receiver := r', w_delivered := w_delivered ?w4 @ [[7]]\<rparr>"
  have "delivery_step quic_lib ?w0 ?w1"
    by (rule delivery_step.send) (simp add: initial_world_def demo_sender_steps)
  moreover have "delivery_step quic_lib ?w1 ?w2"
    by (rule delivery_step.emit [where sequence = 0 and available = 1000 and sequence' = 1 and available' = 999])
      (simp add: initial_world_def demo_sender_steps del: One_nat_def)
  moreover have "delivery_step quic_lib ?w2 ?w3"
    by (rule delivery_step.arrive_messages) (simp_all add: initial_world_def r del: rcr_process_messages.simps)
  moreover have "delivery_step quic_lib ?w3 ?w4"
    by (rule delivery_step.ack_messages [where sequence = 0 and ch = 0 and ms = "[(0, [7])]"])
      (simp_all add: demo_sender_steps del: One_nat_def scr_process_message_acks.simps)
  moreover have "delivery_step quic_lib ?w4 ?w5"
    by (rule delivery_step.deliver) (simp add: r)
  ultimately have "delivery_reach quic_lib ?w0 ?w5" by (meson delivery_reach.intros)
  moreover have "w_sent ?w5 = [[7]]" "w_delivered ?w5 = [[7]]" "unacked_messages (w_sender ?w5) = []"
    "rcr_receive_message (w_receiver ?w5) = Some (r', None)" "?p \<in> w_got ?w5"
    by (simp_all add: initial_world_def demo_sender_def r)
  ultimately show ?thesis by blast
qed

subsection \<open>Properties\<close>

text \<open>
  C1: an ordered reliable channel delivers in order. Whatever the network loses, repeats or reorders,
  the messages the receiving application has taken are a prefix of the messages sent: each one exactly
  once, unmodified, in the order of sending.
\<close>
theorem reliable_ordered_delivery:
  assumes "delivery_reach lib (initial_world ch rt send_memory receive_memory True) w"
  shows "w_delivered w = take (length (w_delivered w)) (w_sent w)"
proof -
  have inv: "world_inv True w" using world_inv_reach [OF assms world_inv_initial] .
  then obtain ids where "set ids \<subseteq> {..<length (w_sent w)}" "w_delivered w = map (nth (w_sent w)) ids"
    "is_ordered (w_receiver w) \<longrightarrow> ids = [0..<oldest_pending_message_id (w_receiver w)]"
    by (rule world_inv_delivered) blast
  moreover have "is_ordered (w_receiver w)" using inv by (simp add: world_inv_def)
  ultimately have "oldest_pending_message_id (w_receiver w) \<le> length (w_sent w)"
    and d: "w_delivered w = map (nth (w_sent w)) [0..<oldest_pending_message_id (w_receiver w)]"
    by (simp_all add: atLeast0LessThan)
  then have "w_delivered w = take (oldest_pending_message_id (w_receiver w)) (w_sent w)"
    "length (w_delivered w) = oldest_pending_message_id (w_receiver w)"
    using map_nth_upt_take by simp_all
  then show ?thesis by simp
qed

theorem reliable_ordered_delivery_witness:
  "\<exists>w. delivery_reach quic_lib (initial_world 0 100 1000 1000 True) w \<and> w_sent w = [[7]] \<and> w_delivered w \<noteq> [] \<and>
     w_delivered w = take (length (w_delivered w)) (w_sent w)"
  using demo_run [of True] reliable_ordered_delivery by fastforce

text \<open>
  C10: no channel delivers a message twice or makes one up. For ordered and unordered channels alike
  the messages delivered correspond to distinct messages sent.
\<close>
theorem reliable_at_most_once:
  assumes "delivery_reach lib (initial_world ch rt send_memory receive_memory ordered) w"
  shows "\<exists>ids. distinct ids \<and> set ids \<subseteq> {..<length (w_sent w)} \<and> w_delivered w = map (nth (w_sent w)) ids"
proof -
  have "world_inv ordered w" using world_inv_reach [OF assms world_inv_initial] .
  then show ?thesis by (rule world_inv_delivered) blast
qed

theorem reliable_at_most_once_witness:
  "\<exists>w ids. delivery_reach quic_lib (initial_world 0 100 1000 1000 False) w \<and> w_delivered w = [[7]] \<and>
     distinct ids \<and> set ids \<subseteq> {..<length (w_sent w)} \<and> w_delivered w = map (nth (w_sent w)) ids"
  using demo_run [of False] reliable_at_most_once by blast



text \<open>
  C12: two honest endpoints never panic. In every reachable state the sender can produce packets, every
  packet of the network can be handed to the receiver, every acknowledgement of a processed packet can
  be handed to the sender, and the application can ask for a message.
\<close>
theorem reliable_no_panic:
  assumes "delivery_reach lib (initial_world ch rt send_memory receive_memory ordered) w"
  shows "scr_get_packets_to_send lib (w_sender w) sequence available (w_now w) \<noteq> None \<and>
    rcr_receive_message (w_receiver w) \<noteq> None \<and>
    (\<forall>q c sl. ReliableSlice q c sl \<in> w_net w \<longrightarrow> rcr_process_slice (w_receiver w) sl \<noteq> None) \<and>
    (\<forall>q c ms. SmallReliable q c ms \<in> w_got w \<longrightarrow> scr_process_message_acks (w_sender w) (map fst ms) \<noteq> None) \<and>
    (\<forall>q c sl. ReliableSlice q c sl \<in> w_got w \<longrightarrow>
       scr_process_slice_message_ack (w_sender w) (message_id sl) (slice_index sl) \<noteq> None)"
proof (intro conjI allI impI)
  have inv: "world_inv ordered w" using world_inv_reach [OF assms world_inv_initial] .
  then have rinv: "recv_inv (w_sent w) (w_receiver w)" and sinv: "scr_inv (w_now w) (w_sender w)"
    by (simp_all add: world_inv_def send_inv_def)
  show "scr_get_packets_to_send lib (w_sender w) sequence available (w_now w) \<noteq> None"
    by (rule scr.get_packets_total [OF sinv])
  have "rcr_inv (w_receiver w)" using rinv by (simp add: recv_inv_def)
  then show "rcr_receive_message (w_receiver w) \<noteq> None" by (rule rcr_receive_total)
  show "rcr_process_slice (w_receiver w) sl \<noteq> None" if "ReliableSlice q c sl \<in> w_net w" for q c sl
    using recv_slice [OF rinv world_inv_packets(1) [OF inv that]] by auto
  show "scr_process_message_acks (w_sender w) (map fst ms) \<noteq> None" if "SmallReliable q c ms \<in> w_got w" for q c ms
    using world_inv_ack_messages [OF inv that] by auto
  show "scr_process_slice_message_ack (w_sender w) (message_id sl) (slice_index sl) \<noteq> None"
    if "ReliableSlice q c sl \<in> w_got w" for q c sl
    using world_inv_ack_slice [OF inv that] by auto
qed

theorem reliable_no_panic_witness:
  "\<exists>w. delivery_reach quic_lib (initial_world 0 100 1000 1000 False) w \<and>
     scr_get_packets_to_send quic_lib (w_sender w) 5 1000 (w_now w) \<noteq> None \<and>
     scr_process_message_acks (w_sender w) (map fst [(0, [7 :: u8])]) \<noteq> None"
proof -
  obtain w where "delivery_reach quic_lib (initial_world 0 100 1000 1000 False) w" "SmallReliable 0 0 [(0, [7])] \<in> w_got w"
    using demo_run [of False] by blast
  with reliable_no_panic [OF this(1), of 5 1000] show ?thesis by blast
qed

end
