(* ===== verification/Channel_Unreliable_Send.thy ===== *)
theory Channel_Unreliable_Send
  imports Channel_Send
begin

text \<open>
  The sending half of \<open>src/renet2/src/channel/unreliable.rs\<close>. A tick empties the queue: what fits the
  byte budget is packed, the rest is dropped, or kept when the channel runs over an ordered reliable
  substrate. The function \<open>scu_choose\<close> is the reference for which messages are sent; the lemmas show
  that the packing loop sends exactly those.
\<close>

record send_channel_unreliable =
  scu_channel_id :: u8
  unreliable_messages :: "bytes list"
  sliced_message_id :: nat
  scu_max_memory_usage_bytes :: nat
  scu_memory_usage_bytes :: nat
  ordered_reliable_substrate :: bool

definition scu_new :: "u8 \<Rightarrow> nat \<Rightarrow> bool \<Rightarrow> send_channel_unreliable" where
  "scu_new channel_id max_memory substrate = \<lparr>scu_channel_id = channel_id, unreliable_messages = [],
     sliced_message_id = 0, scu_max_memory_usage_bytes = max_memory, scu_memory_usage_bytes = 0,
     ordered_reliable_substrate = substrate\<rparr>"

definition scu_can_send_message :: "send_channel_unreliable \<Rightarrow> nat \<Rightarrow> bool" where
  "scu_can_send_message self size_bytes \<longleftrightarrow>
     size_bytes + scu_memory_usage_bytes self \<le> scu_max_memory_usage_bytes self"

definition scu_available_memory :: "send_channel_unreliable \<Rightarrow> nat option" where
  "scu_available_memory self = checked_sub (scu_max_memory_usage_bytes self) (scu_memory_usage_bytes self)"

text \<open>The loop over the slices of one message.\<close>

fun push_slices :: "u8 \<Rightarrow> nat \<Rightarrow> bytes \<Rightarrow> nat \<Rightarrow> nat list \<Rightarrow> bytes send_state \<Rightarrow> bytes send_state option" where
  "push_slices ch mid message n [] st = Some st"
| "push_slices ch mid message n (i # is) st = do {
     pl \<leftarrow> message_slice message n i;
     let sl = \<lparr>message_id = mid, slice_index = i, num_slices = n, payload = pl\<rparr>;
     push_slices ch mid message n is (push_slice (\<lambda>s. UnreliableSlice s ch sl) st)
   }"

text \<open>The local variables of \<open>get_packets_to_send\<close> besides those of the packing.\<close>

record scu_loop =
  lp_memory :: nat
  lp_sliced_id :: nat
  lp_overflow :: "bytes list"
  lp_trigger :: bool
  lp_state :: "bytes send_state"

definition scu_send_one :: "octets_lib \<Rightarrow> u8 \<Rightarrow> bool \<Rightarrow> bytes \<Rightarrow> scu_loop \<Rightarrow> scu_loop option" where
  "scu_send_one lib ch substrate message lp = do {
     mem \<leftarrow> checked_sub (lp_memory lp) (length message);
     let lp = lp\<lparr>lp_memory := mem\<rparr>;
     if st_available (lp_state lp) < length message \<or> lp_trigger lp
     then Some (if substrate then lp\<lparr>lp_overflow := lp_overflow lp @ [message], lp_trigger := True\<rparr> else lp)
     else do {
       available \<leftarrow> checked_sub (st_available (lp_state lp)) (length message);
       let st = (lp_state lp)\<lparr>st_available := available\<rparr>;
       if length message > SLICE_SIZE
       then do {
         let n = div_ceil (length message) SLICE_SIZE;
         st \<leftarrow> push_slices ch (lp_sliced_id lp) message n [0..<n] st;
         Some (lp\<lparr>lp_state := st, lp_sliced_id := lp_sliced_id lp + 1\<rparr>)
       }
       else do {
         let serialized_size = length message + oc_varint_len lib (length message);
         Some (lp\<lparr>lp_state := push_small (\<lambda>s ms. SmallUnreliable s ch ms) serialized_size message st\<rparr>)
       }
     }
   }"

fun scu_send_loop :: "octets_lib \<Rightarrow> u8 \<Rightarrow> bool \<Rightarrow> bytes list \<Rightarrow> scu_loop \<Rightarrow> scu_loop option" where
  "scu_send_loop lib ch substrate [] lp = Some lp"
| "scu_send_loop lib ch substrate (message # ms) lp = do {
     lp \<leftarrow> scu_send_one lib ch substrate message lp;
     scu_send_loop lib ch substrate ms lp
   }"

text \<open>The loop that puts the overflowing messages back, each at the front of the queue.\<close>

fun scu_requeue :: "bytes list \<Rightarrow> nat \<Rightarrow> bytes list \<Rightarrow> nat \<times> bytes list" where
  "scu_requeue [] mem queue = (mem, queue)"
| "scu_requeue (message # ms) mem queue = scu_requeue ms (mem + length message) (message # queue)"

definition scu_get_packets_to_send ::
  "octets_lib \<Rightarrow> send_channel_unreliable \<Rightarrow> nat \<Rightarrow> nat \<Rightarrow>
   (send_channel_unreliable \<times> nat \<times> nat \<times> Packet list) option" where
  "scu_get_packets_to_send lib self sequence available_bytes = do {
     lp \<leftarrow> scu_send_loop lib (scu_channel_id self) (ordered_reliable_substrate self) (unreliable_messages self)
       \<lparr>lp_memory = scu_memory_usage_bytes self, lp_sliced_id = sliced_message_id self, lp_overflow = [],
        lp_trigger = False, lp_state = initial_state sequence available_bytes\<rparr>;
     let (mem, queue) = scu_requeue (lp_overflow lp) (lp_memory lp) [];
     let st = finish_small (\<lambda>s ms. SmallUnreliable s (scu_channel_id self) ms) (lp_state lp);
     Some (self\<lparr>unreliable_messages := queue, sliced_message_id := lp_sliced_id lp, scu_memory_usage_bytes := mem\<rparr>,
       st_sequence st, st_available st, st_packets st)
   }"

definition scu_send_message :: "send_channel_unreliable \<Rightarrow> bytes \<Rightarrow> send_channel_unreliable" where
  "scu_send_message self message =
     (if scu_memory_usage_bytes self + length message > scu_max_memory_usage_bytes self then self
      else self\<lparr>scu_memory_usage_bytes := scu_memory_usage_bytes self + length message,
             unreliable_messages := unreliable_messages self @ [message]\<rparr>)"

subsection \<open>Invariant and reference\<close>

definition scu_inv :: "send_channel_unreliable \<Rightarrow> bool" where
  "scu_inv self \<longleftrightarrow> scu_memory_usage_bytes self = sum_list (map length (unreliable_messages self)) \<and>
     scu_memory_usage_bytes self \<le> scu_max_memory_usage_bytes self"

lemma scu_inv_new: "scu_inv (scu_new ch mx sub)"
  by (simp add: scu_inv_def scu_new_def)

lemma scu_inv_send_message: "scu_inv self \<Longrightarrow> scu_inv (scu_send_message self m)"
  by (simp add: scu_inv_def scu_send_message_def)

text \<open>
  Which messages a tick with a given budget sends, and which it keeps. Without the substrate a message
  that does not fit is dropped and the following ones are still tried.
\<close>

fun scu_choose :: "bool \<Rightarrow> nat \<Rightarrow> bytes list \<Rightarrow> bytes list \<times> bytes list" where
  "scu_choose substrate available [] = ([], [])"
| "scu_choose substrate available (m # ms) =
     (if available < length m then (if substrate then ([], m # ms) else scu_choose substrate available ms)
      else let (sent, rest) = scu_choose substrate (available - length m) ms in (m # sent, rest))"

text \<open>What packets carry: the small messages, and the slices with the id of their message.\<close>

fun packet_small :: "Packet \<Rightarrow> bytes list" where
  "packet_small (SmallUnreliable _ _ ms) = ms"
| "packet_small _ = []"

fun packet_pieces :: "Packet \<Rightarrow> Slice list" where
  "packet_pieces (UnreliableSlice _ _ sl) = [sl]"
| "packet_pieces _ = []"

definition small_of :: "Packet list \<Rightarrow> bytes list" where
  "small_of ps = concat (map packet_small ps)"

definition pieces_of :: "Packet list \<Rightarrow> Slice list" where
  "pieces_of ps = concat (map packet_pieces ps)"

definition is_small :: "bytes \<Rightarrow> bool" where
  "is_small m \<longleftrightarrow> length m \<le> SLICE_SIZE"

definition cut_message :: "nat \<Rightarrow> bytes \<Rightarrow> Slice list" where
  "cut_message mid m = map (\<lambda>i. \<lparr>message_id = mid, slice_index = i, num_slices = num_slices_of m, payload = slice_of m i\<rparr>)
     [0..<num_slices_of m]"

fun cut_all :: "nat \<Rightarrow> bytes list \<Rightarrow> Slice list" where
  "cut_all mid [] = []"
| "cut_all mid (m # ms) = cut_message mid m @ cut_all (mid + 1) ms"

subsection \<open>The packing loop\<close>

lemma concat_slices_of: "concat (map (slice_of m) [0..<k]) = take (k * SLICE_SIZE) m"
proof (induction k)
  case (Suc k)
  have "take (Suc k * SLICE_SIZE) m = take (k * SLICE_SIZE + SLICE_SIZE) m" by (simp add: add.commute)
  then show ?case using Suc by (simp add: slice_of_def take_add del: mult_Suc)
qed simp

lemma concat_all_slices: "m \<noteq> [] \<Longrightarrow> concat (map (slice_of m) [0..<num_slices_of m]) = m"
  using num_slices_of_bounds(3) [of m] by (simp add: concat_slices_of)

lemma sum_all_slices: "m \<noteq> [] \<Longrightarrow> (\<Sum>i\<leftarrow>[0..<num_slices_of m]. length (slice_of m i)) = length m"
  using arg_cong [OF concat_all_slices, of m length] by (simp add: length_concat comp_def)

definition unrel_size :: "octets_lib \<Rightarrow> bytes \<Rightarrow> nat" where
  "unrel_size lib m = length m + oc_varint_len lib (length m)"

definition piece :: "nat \<Rightarrow> bytes \<Rightarrow> nat \<Rightarrow> Slice" where
  "piece mid m i = \<lparr>message_id = mid, slice_index = i, num_slices = num_slices_of m, payload = slice_of m i\<rparr>"

lemma cut_piece: "cut_message mid m = map (piece mid m) [0..<num_slices_of m]"
  by (simp add: cut_message_def piece_def)

lemma pieces_small_append [simp]:
  "pieces_of (ps @ qs) = pieces_of ps @ pieces_of qs" "small_of (ps @ qs) = small_of ps @ small_of qs"
  "pieces_of [] = []" "small_of [] = []"
  "pieces_of [SmallUnreliable s c ms] = []" "small_of [SmallUnreliable s c ms] = ms"
  "pieces_of [UnreliableSlice s c sl] = [sl]" "small_of [UnreliableSlice s c sl] = []"
  by (simp_all add: pieces_of_def small_of_def)

lemma push_slices_spec:
  assumes "m \<noteq> []" and "set is \<subseteq> {..<num_slices_of m}"
    and "loop_inv length sz s a (st\<lparr>st_available := st_available st + (\<Sum>i\<leftarrow>is. length (slice_of m i))\<rparr>)"
  shows "\<exists>st'. push_slices ch mid m (num_slices_of m) is st = Some st' \<and> loop_inv length sz s a st' \<and>
     st_available st' = st_available st \<and> st_small st' = st_small st \<and>
     small_of (st_packets st') = small_of (st_packets st) \<and>
     pieces_of (st_packets st') = pieces_of (st_packets st) @ map (piece mid m) is"
  using assms
proof (induction "is" arbitrary: st)
  case Nil
  then show ?case by simp
next
  case (Cons i "is")
  let ?st = "push_slice (\<lambda>s. UnreliableSlice s ch (piece mid m i)) st"
  have "message_slice m (num_slices_of m) i = Some (slice_of m i)"
    using Cons.prems by (intro message_slice_eq) simp_all
  then have run: "push_slices ch mid m (num_slices_of m) (i # is) st = push_slices ch mid m (num_slices_of m) is ?st"
    by (simp add: piece_def Let_def)
  have "loop_inv length sz s a (?st\<lparr>st_available := st_available ?st + (\<Sum>i\<leftarrow>is. length (slice_of m i))\<rparr>)"
    using Cons.prems(3) by (auto simp: loop_inv_def push_slice_def piece_def)
  from Cons.IH [OF Cons.prems(1) _ this] Cons.prems(2)
  show ?case unfolding run by (auto simp: push_slice_def)
qed

text \<open>Once a message has overflowed on a reliable substrate, all the following ones are kept.\<close>

lemma scu_loop_triggered:
  assumes "lp_trigger lp" and "sum_list (map length ms) \<le> lp_memory lp"
  shows "scu_send_loop lib ch True ms lp =
    Some (lp\<lparr>lp_memory := lp_memory lp - sum_list (map length ms), lp_overflow := lp_overflow lp @ ms\<rparr>)"
  using assms by (induction ms arbitrary: lp) (simp_all add: scu_send_one_def Let_def)

text \<open>The result of the loop, in terms of the reference.\<close>

definition loop_sends :: "octets_lib \<Rightarrow> nat \<Rightarrow> nat \<Rightarrow> bytes list \<Rightarrow> bytes list \<Rightarrow> bytes list \<Rightarrow> scu_loop \<Rightarrow> scu_loop \<Rightarrow> bool" where
  "loop_sends lib s a ms sent rest lp lp' \<longleftrightarrow>
     loop_inv length (unrel_size lib) s a (lp_state lp') \<and>
     lp_memory lp' + sum_list (map length ms) = lp_memory lp \<and>
     lp_overflow lp' = lp_overflow lp @ rest \<and>
     st_available (lp_state lp') + sum_list (map length sent) = st_available (lp_state lp) \<and>
     small_of (st_packets (lp_state lp')) @ st_small (lp_state lp') =
       small_of (st_packets (lp_state lp)) @ st_small (lp_state lp) @ filter is_small sent \<and>
     pieces_of (st_packets (lp_state lp')) =
       pieces_of (st_packets (lp_state lp)) @ cut_all (lp_sliced_id lp) (filter (\<lambda>m. \<not> is_small m) sent) \<and>
     lp_sliced_id lp' = lp_sliced_id lp + length (filter (\<lambda>m. \<not> is_small m) sent)"

lemma scu_send_one_large:
  assumes inv: "loop_inv length (unrel_size lib) s a (lp_state lp)" and tr: "\<not> lp_trigger lp"
    and mem: "length m \<le> lp_memory lp" and av: "length m \<le> st_available (lp_state lp)" and large: "\<not> is_small m"
  shows "\<exists>st'. scu_send_one lib ch sub m lp =
      Some (lp\<lparr>lp_memory := lp_memory lp - length m, lp_state := st', lp_sliced_id := lp_sliced_id lp + 1\<rparr>) \<and>
    loop_inv length (unrel_size lib) s a st' \<and> st_available st' = st_available (lp_state lp) - length m \<and>
    st_small st' = st_small (lp_state lp) \<and> small_of (st_packets st') = small_of (st_packets (lp_state lp)) \<and>
    pieces_of (st_packets st') = pieces_of (st_packets (lp_state lp)) @ cut_message (lp_sliced_id lp) m"
proof -
  let ?st = "(lp_state lp)\<lparr>st_available := st_available (lp_state lp) - length m\<rparr>"
  have m: "m \<noteq> []" using large by (auto simp: is_small_def)
  have "loop_inv length (unrel_size lib) s a
      (?st\<lparr>st_available := st_available ?st + (\<Sum>i\<leftarrow>[0..<num_slices_of m]. length (slice_of m i))\<rparr>)"
    using inv av m by (simp add: sum_all_slices)
  from push_slices_spec [OF m _ this, of ch "lp_sliced_id lp"]
  obtain st' where st': "push_slices ch (lp_sliced_id lp) m (num_slices_of m) [0..<num_slices_of m] ?st = Some st'"
    "loop_inv length (unrel_size lib) s a st'" "st_available st' = st_available ?st" "st_small st' = st_small ?st"
    "small_of (st_packets st') = small_of (st_packets ?st)"
    "pieces_of (st_packets st') = pieces_of (st_packets ?st) @ cut_message (lp_sliced_id lp) m"
    by (auto simp: atLeast0LessThan cut_piece)
  then have "scu_send_one lib ch sub m lp =
      Some (lp\<lparr>lp_memory := lp_memory lp - length m, lp_state := st', lp_sliced_id := lp_sliced_id lp + 1\<rparr>)"
    using large tr mem av by (simp add: scu_send_one_def is_small_def num_slices_of_def Let_def)
  then show ?thesis using st' by auto
qed

lemma scu_send_one_fits:
  assumes inv: "loop_inv length (unrel_size lib) s a (lp_state lp)" and tr: "\<not> lp_trigger lp"
    and mem: "length m \<le> lp_memory lp" and av: "length m \<le> st_available (lp_state lp)"
  shows "\<exists>lp'. scu_send_one lib ch sub m lp = Some lp' \<and> loop_sends lib s a [m] [m] [] lp lp' \<and> \<not> lp_trigger lp'"
proof (cases "is_small m")
  case True
  let ?mk = "\<lambda>s ms. SmallUnreliable s ch ms"
  let ?st = "push_small ?mk (unrel_size lib m) m ((lp_state lp)\<lparr>st_available := st_available (lp_state lp) - length m\<rparr>)"
  have "scu_send_one lib ch sub m lp = Some (lp\<lparr>lp_memory := lp_memory lp - length m, lp_state := ?st\<rparr>)"
    using True tr mem av by (simp add: scu_send_one_def is_small_def unrel_size_def Let_def)
  moreover have "loop_inv length (unrel_size lib) s a ?st"
    using inv av by (intro loop_inv_push_small) simp_all
  ultimately show ?thesis
    using True tr mem av by (auto simp: loop_sends_def push_small_def flush_small_def Let_def)
next
  case False
  from scu_send_one_large [OF assms False, of ch sub] show ?thesis
    using False tr mem av by (auto simp: loop_sends_def)
qed

lemma loop_sends_Cons:
  assumes "loop_sends lib s a [m] [m] [] lp lp1" and "loop_sends lib s a ms sent rest lp1 lp'"
  shows "loop_sends lib s a (m # ms) (m # sent) rest lp lp'"
  using assms by (auto simp: loop_sends_def split: if_splits)

lemma scu_send_loop_spec:
  assumes "loop_inv length (unrel_size lib) s a (lp_state lp)" and "\<not> lp_trigger lp"
    and "sum_list (map length ms) \<le> lp_memory lp" and "scu_choose sub (st_available (lp_state lp)) ms = (sent, rest)"
  shows "\<exists>lp'. scu_send_loop lib ch sub ms lp = Some lp' \<and> loop_sends lib s a ms sent rest lp lp'"
  using assms
proof (induction ms arbitrary: lp sent rest)
  case Nil
  then show ?case by (simp add: loop_sends_def)
next
  case (Cons m ms)
  show ?case
  proof (cases "st_available (lp_state lp) < length m")
    case True
    let ?lp = "lp\<lparr>lp_memory := lp_memory lp - length m\<rparr>"
    show ?thesis
    proof (cases sub)
      case True
      let ?lp' = "?lp\<lparr>lp_overflow := lp_overflow lp @ [m], lp_trigger := True\<rparr>"
      have "scu_send_loop lib ch sub (m # ms) lp = scu_send_loop lib ch True ms ?lp'"
        using Cons.prems(2,3) True \<open>st_available (lp_state lp) < length m\<close> by (simp add: scu_send_one_def Let_def)
      then show ?thesis
        using scu_loop_triggered [of ?lp' ms lib ch] Cons.prems True \<open>st_available (lp_state lp) < length m\<close>
        by (auto simp: loop_sends_def)
    next
      case False
      have "scu_send_loop lib ch sub (m # ms) lp = scu_send_loop lib ch sub ms ?lp"
        using Cons.prems(2,3) False True by (simp add: scu_send_one_def Let_def)
      moreover obtain lp' where "scu_send_loop lib ch sub ms ?lp = Some lp'" "loop_sends lib s a ms sent rest ?lp lp'"
        using Cons.IH [of ?lp sent rest] Cons.prems False True le_diff_conv2 [of "length m" "lp_memory lp"] by auto
      moreover have "loop_sends lib s a (m # ms) sent rest lp lp'"
        using calculation(3) Cons.prems(3) by (auto simp: loop_sends_def)
      ultimately show ?thesis by simp
    qed
  next
    case False
    obtain lp1 where lp1: "scu_send_one lib ch sub m lp = Some lp1" "loop_sends lib s a [m] [m] [] lp lp1" "\<not> lp_trigger lp1"
      using scu_send_one_fits [OF Cons.prems(1,2), of m ch sub] Cons.prems(3) False by auto
    have "st_available (lp_state lp) - length m = st_available (lp_state lp1)"
      using lp1(2) by (auto simp: loop_sends_def)
    then obtain sent' where ch: "scu_choose sub (st_available (lp_state lp1)) ms = (sent', rest)" and "sent = m # sent'"
      using Cons.prems(4) False by (auto split: prod.splits)
    have "loop_inv length (unrel_size lib) s a (lp_state lp1)" "sum_list (map length ms) \<le> lp_memory lp1"
      using lp1(2) Cons.prems(3) by (auto simp: loop_sends_def)
    from Cons.IH [OF this(1) lp1(3) this(2) ch]
    obtain lp' where "scu_send_loop lib ch sub ms lp1 = Some lp'" "loop_sends lib s a ms sent' rest lp1 lp'" by blast
    then show ?thesis using lp1(1) loop_sends_Cons [OF lp1(2)] \<open>sent = m # sent'\<close> by simp
  qed
qed


subsection \<open>The size of the packets\<close>

text \<open>Only packets of this channel, and no packet of small messages larger than it may be.\<close>

fun unrel_group :: "octets_lib \<Rightarrow> Packet \<Rightarrow> bool" where
  "unrel_group lib (SmallUnreliable s c ms) \<longleftrightarrow> sum_list (map (unrel_size lib) ms) \<le> SLICE_SIZE \<or> length ms \<le> 1"
| "unrel_group lib (UnreliableSlice s c sl) \<longleftrightarrow> True"
| "unrel_group lib _ \<longleftrightarrow> False"

definition grouped :: "octets_lib \<Rightarrow> bytes send_state \<Rightarrow> bool" where
  "grouped lib st \<longleftrightarrow> st_small_bytes st = sum_list (map (unrel_size lib) (st_small st)) \<and>
     (st_small_bytes st \<le> SLICE_SIZE \<or> length (st_small st) \<le> 1) \<and> (\<forall>p \<in> set (st_packets st). unrel_group lib p)"

lemma grouped_push_slice: "grouped lib st \<Longrightarrow> grouped lib (push_slice (\<lambda>s. UnreliableSlice s ch sl) st)"
  by (auto simp: grouped_def push_slice_def)

lemma grouped_push_slices:
  "grouped lib st \<Longrightarrow> push_slices ch mid m n is st = Some st' \<Longrightarrow> grouped lib st'"
proof (induction "is" arbitrary: st)
  case (Cons i "is")
  obtain pl where "push_slices ch mid m n is (push_slice (\<lambda>s. UnreliableSlice s ch
      \<lparr>message_id = mid, slice_index = i, num_slices = n, payload = pl\<rparr>) st) = Some st'"
    using Cons.prems(2) by (auto simp: Let_def split: bind_splits)
  then show ?case by (rule Cons.IH [OF grouped_push_slice [OF Cons.prems(1)]])
qed simp

lemma grouped_available [simp]: "grouped lib (st\<lparr>st_available := a\<rparr>) = grouped lib st"
  by (simp add: grouped_def)

lemma grouped_push_slices_available:
  "push_slices ch mid m n is (st\<lparr>st_available := a\<rparr>) = Some st' \<Longrightarrow> grouped lib st \<Longrightarrow> grouped lib st'"
  by (rule grouped_push_slices [of lib "st\<lparr>st_available := a\<rparr>"]) simp_all

lemma grouped_push_small:
  "grouped lib st \<Longrightarrow> grouped lib (push_small (\<lambda>s ms. SmallUnreliable s ch ms) (unrel_size lib m) m st)"
  by (auto simp: grouped_def push_small_def flush_small_def Let_def)

lemma grouped_send_one:
  "grouped lib (lp_state lp) \<Longrightarrow> scu_send_one lib ch sub m lp = Some lp' \<Longrightarrow> grouped lib (lp_state lp')"
  by (auto simp: scu_send_one_def Let_def unrel_size_def [symmetric] grouped_push_small
      intro: grouped_push_slices_available split: if_splits bind_splits)

lemma grouped_send_loop:
  "grouped lib (lp_state lp) \<Longrightarrow> scu_send_loop lib ch sub ms lp = Some lp' \<Longrightarrow> grouped lib (lp_state lp')"
  by (induction ms arbitrary: lp) (auto intro: grouped_send_one split: bind_splits)

lemma scu_packets_grouped:
  assumes "scu_get_packets_to_send lib self s a = Some (self', s', a', ps)" and "p \<in> set ps"
  shows "unrel_group lib p"
proof -
  obtain lp where lp: "scu_send_loop lib (scu_channel_id self) (ordered_reliable_substrate self) (unreliable_messages self)
      \<lparr>lp_memory = scu_memory_usage_bytes self, lp_sliced_id = sliced_message_id self, lp_overflow = [],
        lp_trigger = False, lp_state = initial_state s a\<rparr> = Some lp"
    "ps = st_packets (finish_small (\<lambda>s ms. SmallUnreliable s (scu_channel_id self) ms) (lp_state lp))"
    using assms(1) by (auto simp: scu_get_packets_to_send_def Let_def case_prod_beta split: bind_splits)
  have "grouped lib (lp_state lp)"
    by (rule grouped_send_loop [OF _ lp(1)]) (simp add: grouped_def initial_state_def)
  then show ?thesis
    using assms(2) lp(2) by (auto simp: finish_small_def flush_small_def grouped_def split: if_splits)
qed

subsection \<open>The tick\<close>

lemma scu_requeue_eq: "scu_requeue ms mem queue = (mem + sum_list (map length ms), rev ms @ queue)"
  by (induction ms arbitrary: mem queue) simp_all

lemma scu_choose_sums:
  "scu_choose sub a ms = (sent, rest) \<Longrightarrow> sum_list (map length rest) \<le> sum_list (map length ms)"
  by (induction ms arbitrary: a sent rest) (auto split: if_splits prod.splits simp: trans_le_add2)

lemma finish_small_unreliable:
  "small_of (st_packets (finish_small (\<lambda>s ms. SmallUnreliable s ch ms) st)) = small_of (st_packets st) @ st_small st"
  "pieces_of (st_packets (finish_small (\<lambda>s ms. SmallUnreliable s ch ms) st)) = pieces_of (st_packets st)"
  "st_available (finish_small mk st) = st_available st"
  by (simp_all add: finish_small_def flush_small_def)

lemma scu_get_packets_spec:
  assumes inv: "scu_inv self"
    and choose: "scu_choose (ordered_reliable_substrate self) a (unreliable_messages self) = (sent, rest)"
  shows "\<exists>s' a' ps. scu_get_packets_to_send lib self s a =
      Some (self\<lparr>unreliable_messages := rev rest,
        sliced_message_id := sliced_message_id self + length (filter (\<lambda>m. \<not> is_small m) sent),
        scu_memory_usage_bytes := sum_list (map length rest)\<rparr>, s', a', ps) \<and>
     map packet_sequence ps = [s..<s'] \<and> s \<le> s' \<and> a' + payload_bytes ps = a \<and>
     a' + sum_list (map length sent) = a \<and> small_of ps = filter is_small sent \<and>
     pieces_of ps = cut_all (sliced_message_id self) (filter (\<lambda>m. \<not> is_small m) sent)"
proof -
  let ?ch = "scu_channel_id self"
  let ?lp = "\<lparr>lp_memory = scu_memory_usage_bytes self, lp_sliced_id = sliced_message_id self, lp_overflow = [],
    lp_trigger = False, lp_state = initial_state s a\<rparr>"
  have av: "st_available (initial_state s a :: bytes send_state) = a"
    "st_packets (initial_state s a :: bytes send_state) = []" "st_small (initial_state s a :: bytes send_state) = []"
    by (simp_all add: initial_state_def)
  have "loop_inv length (unrel_size lib) s a (lp_state ?lp)" by (simp add: loop_inv_initial)
  moreover have "scu_choose (ordered_reliable_substrate self) (st_available (lp_state ?lp)) (unreliable_messages self) =
      (sent, rest)" using choose av by simp
  ultimately obtain lp where lp: "scu_send_loop lib ?ch (ordered_reliable_substrate self) (unreliable_messages self) ?lp = Some lp"
    "loop_sends lib s a (unreliable_messages self) sent rest ?lp lp"
    using scu_send_loop_spec [where lp = ?lp and ms = "unreliable_messages self" and ch = ?ch and lib = lib
        and s = s and a = a and sub = "ordered_reliable_substrate self" and sent = sent and rest = rest] inv
    by (auto simp: scu_inv_def)
  let ?st = "finish_small (\<lambda>s ms. SmallUnreliable s ?ch ms) (lp_state lp)"
  have fin: "loop_inv length (unrel_size lib) s a ?st" "st_small ?st = []"
    using lp(2) loop_inv_finish [of length "unrel_size lib" s a "lp_state lp" "\<lambda>s ms. SmallUnreliable s ?ch ms"]
    by (simp_all add: loop_sends_def)
  note res = loop_inv_result [OF fin]
  have "scu_get_packets_to_send lib self s a = Some (self\<lparr>unreliable_messages := rev rest,
      sliced_message_id := sliced_message_id self + length (filter (\<lambda>m. \<not> is_small m) sent),
      scu_memory_usage_bytes := sum_list (map length rest)\<rparr>, st_sequence ?st, st_available ?st, st_packets ?st)"
    using lp inv by (simp add: scu_get_packets_to_send_def scu_requeue_eq loop_sends_def scu_inv_def Let_def)
  moreover have "st_available ?st + sum_list (map length sent) = a" "small_of (st_packets ?st) = filter is_small sent"
    "pieces_of (st_packets ?st) = cut_all (sliced_message_id self) (filter (\<lambda>m. \<not> is_small m) sent)"
    using lp(2) av by (auto simp: loop_sends_def finish_small_unreliable)
  ultimately show ?thesis using res by (intro exI conjI) assumption+
qed

lemma scu_inv_get_packets:
  assumes inv: "scu_inv self" and run: "scu_get_packets_to_send lib self s a = Some (self', s', a', ps)"
  shows "scu_inv self'" and "map packet_sequence ps = [s..<s'] \<and> s \<le> s'" and "a' + payload_bytes ps = a"
proof -
  obtain sent rest where ch: "scu_choose (ordered_reliable_substrate self) a (unreliable_messages self) = (sent, rest)"
    by (metis prod.exhaust)
  obtain s1 a1 ps1 where spec: "scu_get_packets_to_send lib self s a = Some (self\<lparr>unreliable_messages := rev rest,
      sliced_message_id := sliced_message_id self + length (filter (\<lambda>m. \<not> is_small m) sent),
      scu_memory_usage_bytes := sum_list (map length rest)\<rparr>, s1, a1, ps1)"
    "map packet_sequence ps1 = [s..<s1]" "s \<le> s1" "a1 + payload_bytes ps1 = a"
    using scu_get_packets_spec [OF inv ch, of lib s] by blast
  have "sum_list (map length (rev rest)) = sum_list (map length rest)"
    by (simp flip: rev_map)
  then show "scu_inv self'" using spec(1) run inv scu_choose_sums [OF ch] by (auto simp: scu_inv_def)
  show "map packet_sequence ps = [s..<s'] \<and> s \<le> s'" "a' + payload_bytes ps = a" using spec run by auto
qed

interpretation scu: send_channel scu_inv "scu_get_packets_to_send lib" for lib
proof unfold_locales
  fix c s a
  assume inv: "scu_inv c"
  obtain sent rest where "scu_choose (ordered_reliable_substrate c) a (unreliable_messages c) = (sent, rest)"
    by (metis prod.exhaust)
  from scu_get_packets_spec [OF inv this, of lib s] show "scu_get_packets_to_send lib c s a \<noteq> None" by auto
  fix c' s' a' ps
  assume "scu_get_packets_to_send lib c s a = Some (c', s', a', ps)"
  from scu_inv_get_packets [OF inv this]
  show "scu_inv c'" "map packet_sequence ps = [s..<s'] \<and> s \<le> s'" "a' + payload_bytes ps = a" by auto
qed
subsection \<open>Properties\<close>

text \<open>
  C21: the packing loop implements its reference. A tick sends exactly the messages \<open>scu_choose\<close>
  selects for the budget: the small ones whole and in order, the large ones cut into all their slices
  under consecutive ids; it keeps exactly the messages the reference keeps, uses consecutive sequence
  numbers, takes from the budget exactly the bytes it sends, and never panics.
\<close>
theorem unreliable_send_reference:
  assumes "scu_inv self"
    and "scu_choose (ordered_reliable_substrate self) a (unreliable_messages self) = (sent, rest)"
  shows "\<exists>self' s' a' ps. scu_get_packets_to_send lib self s a = Some (self', s', a', ps) \<and> scu_inv self' \<and>
     unreliable_messages self' = rev rest \<and> map packet_sequence ps = [s..<s'] \<and>
     a' + payload_bytes ps = a \<and> small_of ps = filter is_small sent \<and>
     pieces_of ps = cut_all (sliced_message_id self) (filter (\<lambda>m. \<not> is_small m) sent)"
proof -
  obtain s' a' ps where spec: "scu_get_packets_to_send lib self s a = Some (self\<lparr>unreliable_messages := rev rest,
      sliced_message_id := sliced_message_id self + length (filter (\<lambda>m. \<not> is_small m) sent),
      scu_memory_usage_bytes := sum_list (map length rest)\<rparr>, s', a', ps)"
    "map packet_sequence ps = [s..<s']" "a' + payload_bytes ps = a" "small_of ps = filter is_small sent"
    "pieces_of ps = cut_all (sliced_message_id self) (filter (\<lambda>m. \<not> is_small m) sent)"
    using scu_get_packets_spec [OF assms, of lib s] by blast
  then show ?thesis
    using scu_inv_get_packets(1) [OF assms(1) spec(1)] by (intro exI conjI) (assumption | simp (no_asm))+
qed

definition demo_unreliable :: "bool \<Rightarrow> send_channel_unreliable" where
  "demo_unreliable sub = foldl scu_send_message (scu_new 2 5000 sub) [[1, 2, 3], replicate 1300 9, [4]]"

lemma demo_unreliable_simps [simp]:
  "unreliable_messages (demo_unreliable sub) = [[1, 2, 3], replicate 1300 9, [4]]"
  "ordered_reliable_substrate (demo_unreliable sub) = sub" "sliced_message_id (demo_unreliable sub) = 0"
  "scu_channel_id (demo_unreliable sub) = 2"
  by (simp_all add: demo_unreliable_def scu_new_def scu_send_message_def)

lemma demo_unreliable_inv: "scu_inv (demo_unreliable sub)"
  unfolding demo_unreliable_def by (simp add: scu_inv_send_message scu_inv_new)

theorem unreliable_send_reference_witness:
  "\<exists>self' s' a' ps. scu_get_packets_to_send quic_lib (demo_unreliable False) 5 100 = Some (self', s', a', ps) \<and>
     unreliable_messages self' = [] \<and> small_of ps = [[1, 2, 3], [4]] \<and> pieces_of ps = []"
  using unreliable_send_reference [OF demo_unreliable_inv, of False 100 "[[1, 2, 3], [4]]" "[]" quic_lib 5]
  by (force simp: is_small_def SLICE_SIZE_def)



text \<open>
  On an ordered reliable substrate a large message overtakes a small one that was queued before
  it, even when the budget covers both: the slices are put on the wire at once, while the small
  message waits for the packet that collects small messages.
\<close>
lemma large_message_overtakes:
  assumes "scu_inv self" and "unreliable_messages self = [x, y]"
    and "is_small x" and "\<not> is_small y" and "length x + length y \<le> a"
  shows "\<exists>self' s' a' ps q. scu_get_packets_to_send lib self s a =
      Some (self', s', a', ps @ [SmallUnreliable q (scu_channel_id self) [x]]) \<and>
     small_of ps = [] \<and> pieces_of ps = cut_message (sliced_message_id self) y"
proof -
  let ?ch = "scu_channel_id self" and ?sub = "ordered_reliable_substrate self"
  let ?lp = "\<lparr>lp_memory = scu_memory_usage_bytes self, lp_sliced_id = sliced_message_id self, lp_overflow = [],
    lp_trigger = False, lp_state = initial_state s a\<rparr>"
  let ?st = "push_small (\<lambda>s ms. SmallUnreliable s ?ch ms) (unrel_size lib x) x
    ((initial_state s a)\<lparr>st_available := a - length x\<rparr>)"
  let ?lp1 = "?lp\<lparr>lp_memory := length y, lp_state := ?st\<rparr>"
  have mem: "scu_memory_usage_bytes self = length x + length y" using assms(1,2) by (simp add: scu_inv_def)
  have one: "scu_send_one lib ?ch ?sub x ?lp = Some ?lp1"
    using assms(3,5) mem by (simp add: scu_send_one_def is_small_def unrel_size_def initial_state_def Let_def)
  have st: "st_small ?st = [x]" "small_of (st_packets ?st) = []" "pieces_of (st_packets ?st) = []"
    "st_available ?st = a - length x"
    by (simp_all add: push_small_def flush_small_def initial_state_def Let_def)
  have "loop_inv length (unrel_size lib) s a ?st"
    by (rule loop_inv_push_small) (use assms(5) loop_inv_initial in \<open>simp_all add: initial_state_def\<close>)
  then have "\<exists>st'. scu_send_one lib ?ch ?sub y ?lp1 =
      Some (?lp1\<lparr>lp_memory := lp_memory ?lp1 - length y, lp_state := st', lp_sliced_id := lp_sliced_id ?lp1 + 1\<rparr>) \<and>
    loop_inv length (unrel_size lib) s a st' \<and> st_available st' = st_available (lp_state ?lp1) - length y \<and>
    st_small st' = st_small (lp_state ?lp1) \<and> small_of (st_packets st') = small_of (st_packets (lp_state ?lp1)) \<and>
    pieces_of (st_packets st') = pieces_of (st_packets (lp_state ?lp1)) @ cut_message (lp_sliced_id ?lp1) y"
    by (intro scu_send_one_large) (use assms(4,5) st(4) in simp_all)
  then obtain st' where two: "scu_send_one lib ?ch ?sub y ?lp1 =
      Some (?lp1\<lparr>lp_memory := 0, lp_state := st', lp_sliced_id := sliced_message_id self + 1\<rparr>)"
    "st_small st' = [x]" "small_of (st_packets st') = []" "pieces_of (st_packets st') = cut_message (sliced_message_id self) y"
    using st by auto
  then have "\<exists>self' s' a'. scu_get_packets_to_send lib self s a =
      Some (self', s', a', st_packets st' @ [SmallUnreliable (st_sequence st') ?ch [x]])"
    using one assms(2) by (simp add: scu_get_packets_to_send_def finish_small_def flush_small_def Let_def)
  then show ?thesis using two(3,4) by blast
qed

lemma large_message_overtakes_example:
  "\<exists>self' s' a' ps q. scu_get_packets_to_send quic_lib
       (foldl scu_send_message (scu_new 2 5000 True) [[1, 2, 3], replicate 1300 9]) 0 2000 =
      Some (self', s', a', ps @ [SmallUnreliable q 2 [[1, 2, 3]]]) \<and>
     small_of ps = [] \<and> pieces_of ps = cut_message 0 (replicate 1300 9)"
proof -
  let ?self = "foldl scu_send_message (scu_new 2 5000 True) [[1, 2, 3], replicate 1300 9]"
  have eq: "unreliable_messages ?self = [[1, 2, 3], replicate 1300 9]" "scu_channel_id ?self = 2" "sliced_message_id ?self = 0"
    by (simp_all add: scu_new_def scu_send_message_def)
  have "scu_inv ?self" by (simp add: scu_inv_send_message scu_inv_new)
  from large_message_overtakes [OF this eq(1), of 2000 quic_lib 0, unfolded eq(2,3)] show ?thesis
    by (simp add: is_small_def SLICE_SIZE_def del: foldl.simps)
qed

end
