(* ===== verification/Channel_Unreliable_Receive.thy ===== *)
theory Channel_Unreliable_Receive
  imports Slice_Constructor Ordered_Map
begin

text \<open>
  The receiving half of \<open>src/renet2/src/channel/unreliable.rs\<close>: a queue of received messages, the
  messages under assembly with the time their last slice arrived, and the removal of messages that
  have waited too long. The lemmas show the memory accounting exact under every operation and that
  none of the subtractions or lookups can fail.
\<close>

record receive_channel_unreliable =
  rcu_channel_id :: u8
  rcu_messages :: "bytes list"
  rcu_slices :: "(nat, slice_constructor) btree_map"
  slices_last_received :: "(nat, duration) btree_map"
  rcu_max_memory_usage_bytes :: nat
  rcu_memory_usage_bytes :: nat

definition rcu_new :: "u8 \<Rightarrow> nat \<Rightarrow> receive_channel_unreliable" where
  "rcu_new channel_id max_memory = \<lparr>rcu_channel_id = channel_id, rcu_messages = [], rcu_slices = [],
     slices_last_received = [], rcu_max_memory_usage_bytes = max_memory, rcu_memory_usage_bytes = 0\<rparr>"

definition rcu_process_message :: "receive_channel_unreliable \<Rightarrow> bytes \<Rightarrow> receive_channel_unreliable" where
  "rcu_process_message self message =
     (if rcu_memory_usage_bytes self + length message > rcu_max_memory_usage_bytes self then self
      else self\<lparr>rcu_memory_usage_bytes := rcu_memory_usage_bytes self + length message,
             rcu_messages := rcu_messages self @ [message]\<rparr>)"

text \<open>The reservation for a message whose first slice arrives; \<open>None\<close> when it does not fit.\<close>

definition rcu_reserve :: "receive_channel_unreliable \<Rightarrow> Slice \<Rightarrow> receive_channel_unreliable option" where
  "rcu_reserve self sl =
     (if bt_contains_key (rcu_slices self) (message_id sl) then Some self
      else let message_len = num_slices sl * SLICE_SIZE
        in if rcu_memory_usage_bytes self + message_len > rcu_max_memory_usage_bytes self then None
           else Some (self\<lparr>rcu_memory_usage_bytes := rcu_memory_usage_bytes self + message_len\<rparr>))"

definition rcu_process_slice ::
  "receive_channel_unreliable \<Rightarrow> Slice \<Rightarrow> duration \<Rightarrow> (receive_channel_unreliable \<times> (ChannelError + unit)) option" where
  "rcu_process_slice self sl current_time =
     (case rcu_reserve self sl of
        None \<Rightarrow> Some (self, Inr ())
      | Some self \<Rightarrow> do {
          let con = (case bt_get (rcu_slices self) (message_id sl) of
                       Some sc \<Rightarrow> sc
                     | None \<Rightarrow> sc_new (message_id sl) (num_slices sl));
          (sc, r) \<leftarrow> sc_process_slice con (slice_index sl) (payload sl);
          let self = self\<lparr>rcu_slices := bt_insert (message_id sl) sc (rcu_slices self)\<rparr>;
          case r of
            Inl e \<Rightarrow> Some (self, Inl e)
          | Inr None \<Rightarrow>
              Some (self\<lparr>slices_last_received :=
                bt_insert (message_id sl) current_time (slices_last_received self)\<rparr>, Inr ())
          | Inr (Some message) \<Rightarrow> do {
              mem \<leftarrow> checked_sub (rcu_memory_usage_bytes self) (num_slices sl * SLICE_SIZE);
              Some (self\<lparr>rcu_slices := bt_remove (message_id sl) (rcu_slices self),
                  slices_last_received := bt_remove (message_id sl) (slices_last_received self),
                  rcu_memory_usage_bytes := mem + length message,
                  rcu_messages := rcu_messages self @ [message]\<rparr>, Inr ())
            }
        })"

definition DISCARD_AFTER :: duration where
  "DISCARD_AFTER = from_secs 3"

text \<open>The first loop of \<open>discard_incomplete_old_slices\<close>: the ids that have expired, up to the first that has not.\<close>

fun lost_messages :: "duration \<Rightarrow> (nat, duration) btree_map \<Rightarrow> nat list option" where
  "lost_messages current_time [] = Some []"
| "lost_messages current_time ((mid, last_received) # es) = do {
     age \<leftarrow> checked_sub current_time last_received;
     if age \<ge> DISCARD_AFTER then do {
       lost \<leftarrow> lost_messages current_time es;
       Some (mid # lost)
     } else Some []
   }"

fun rcu_discard :: "nat list \<Rightarrow> receive_channel_unreliable \<Rightarrow> receive_channel_unreliable option" where
  "rcu_discard [] self = Some self"
| "rcu_discard (mid # mids) self = do {
     sc \<leftarrow> bt_get (rcu_slices self) mid;
     mem \<leftarrow> checked_sub (rcu_memory_usage_bytes self) (sc_num_slices sc * SLICE_SIZE);
     rcu_discard mids (self\<lparr>slices_last_received := bt_remove mid (slices_last_received self),
       rcu_slices := bt_remove mid (rcu_slices self), rcu_memory_usage_bytes := mem\<rparr>)
   }"

definition discard_incomplete_old_slices ::
  "receive_channel_unreliable \<Rightarrow> duration \<Rightarrow> receive_channel_unreliable option" where
  "discard_incomplete_old_slices self current_time = do {
     lost \<leftarrow> lost_messages current_time (slices_last_received self);
     rcu_discard lost self
   }"

definition rcu_receive_message ::
  "receive_channel_unreliable \<Rightarrow> (receive_channel_unreliable \<times> bytes option) option" where
  "rcu_receive_message self =
     (case rcu_messages self of
        [] \<Rightarrow> Some (self, None)
      | message # ms \<Rightarrow> do {
          mem \<leftarrow> checked_sub (rcu_memory_usage_bytes self) (length message);
          Some (self\<lparr>rcu_messages := ms, rcu_memory_usage_bytes := mem\<rparr>, Some message)
        })"

subsection \<open>Invariant\<close>

definition rcu_inv :: "duration \<Rightarrow> receive_channel_unreliable \<Rightarrow> bool" where
  "rcu_inv now self \<longleftrightarrow> bt_wf (rcu_slices self) \<and> bt_wf (slices_last_received self) \<and>
     (\<forall>(mid, sc) \<in> set (rcu_slices self). sc_wf sc) \<and>
     (\<forall>(mid, t) \<in> set (slices_last_received self). t \<le> now \<and> bt_contains_key (rcu_slices self) mid) \<and>
     rcu_memory_usage_bytes self = sum_list (map length (rcu_messages self)) +
       bt_weight (\<lambda>sc. sc_num_slices sc * SLICE_SIZE) (rcu_slices self) \<and>
     rcu_memory_usage_bytes self \<le> rcu_max_memory_usage_bytes self"

definition rcu_fits :: "receive_channel_unreliable \<Rightarrow> Slice \<Rightarrow> bool" where
  "rcu_fits self sl \<longleftrightarrow> slice_index sl < num_slices sl \<and>
     (\<forall>sc. bt_get (rcu_slices self) (message_id sl) = Some sc \<longrightarrow> sc_num_slices sc = num_slices sl)"

lemma rcu_inv_new: "rcu_inv now (rcu_new ch mx)"
  by (simp add: rcu_inv_def rcu_new_def bt_weight_def)

lemma rcu_inv_mono: "rcu_inv now self \<Longrightarrow> now \<le> now' \<Longrightarrow> rcu_inv now' self"
  by (fastforce simp: rcu_inv_def)

lemma rcu_inv_process_message: "rcu_inv now self \<Longrightarrow> rcu_inv now (rcu_process_message self m)"
  by (simp add: rcu_inv_def rcu_process_message_def)

lemma rcu_receive_message_spec:
  assumes "rcu_inv now self"
  shows "case rcu_messages self of
      [] \<Rightarrow> rcu_receive_message self = Some (self, None)
    | m # ms \<Rightarrow> \<exists>self'. rcu_receive_message self = Some (self', Some m) \<and> rcu_messages self' = ms \<and> rcu_inv now self'"
  using assms by (auto simp: rcu_receive_message_def rcu_inv_def split: list.splits)

lemma rcu_inv_remove:
  assumes inv: "rcu_inv now self" and get: "bt_get (rcu_slices self) mid = Some sc"
  shows "sc_num_slices sc * SLICE_SIZE \<le> rcu_memory_usage_bytes self"
    and "rcu_inv now (self\<lparr>slices_last_received := bt_remove mid (slices_last_received self),
      rcu_slices := bt_remove mid (rcu_slices self),
      rcu_memory_usage_bytes := rcu_memory_usage_bytes self - sc_num_slices sc * SLICE_SIZE\<rparr>)"
proof -
  have wf: "bt_wf (rcu_slices self)" using inv by (simp add: rcu_inv_def)
  note w = bt.weight_ge_entry [OF wf get, of "\<lambda>sc. sc_num_slices sc * SLICE_SIZE"]
    bt.weight_removed [OF wf get, of "\<lambda>sc. sc_num_slices sc * SLICE_SIZE"]
  then show "sc_num_slices sc * SLICE_SIZE \<le> rcu_memory_usage_bytes self" using inv by (simp add: rcu_inv_def)
  show "rcu_inv now (self\<lparr>slices_last_received := bt_remove mid (slices_last_received self),
      rcu_slices := bt_remove mid (rcu_slices self),
      rcu_memory_usage_bytes := rcu_memory_usage_bytes self - sc_num_slices sc * SLICE_SIZE\<rparr>)"
    using inv w by (auto simp: rcu_inv_def bt_map_simps dest!: in_set_bt_remove)
qed

subsection \<open>Slices\<close>

text \<open>The state after the reservation, with the constructor put back.\<close>

lemma rcu_reserve_spec:
  assumes inv: "rcu_inv now self" and fits: "rcu_fits self sl" and res: "rcu_reserve self sl = Some self1"
    and sc: "sc_num_slices sc = num_slices sl" "sc_wf sc"
  shows "rcu_inv now (self1\<lparr>rcu_slices := bt_insert (message_id sl) sc (rcu_slices self1)\<rparr>)"
    and "rcu_slices self1 = rcu_slices self"
proof -
  have wf: "bt_wf (rcu_slices self)" using inv by (simp add: rcu_inv_def)
  show eq: "rcu_slices self1 = rcu_slices self" using res by (auto simp: rcu_reserve_def Let_def split: if_splits)
  let ?w = "bt_weight (\<lambda>sc. sc_num_slices sc * SLICE_SIZE)"
  have mem: "rcu_memory_usage_bytes self1 =
      sum_list (map length (rcu_messages self1)) + ?w (bt_insert (message_id sl) sc (rcu_slices self)) \<and>
    rcu_memory_usage_bytes self1 \<le> rcu_max_memory_usage_bytes self1"
  proof (cases "bt_get (rcu_slices self) (message_id sl)")
    case None
    then show ?thesis
      using inv res sc bt.weight_insert [OF wf None, of "\<lambda>sc. sc_num_slices sc * SLICE_SIZE" sc]
      by (auto simp: rcu_reserve_def rcu_inv_def bt_contains_key_def Let_def split: if_splits)
  next
    case (Some sc0)
    then have "?w (bt_insert (message_id sl) sc (rcu_slices self)) = ?w (rcu_slices self)"
      using fits sc by (intro bt.weight_replace_same [OF wf Some]) (simp add: rcu_fits_def)
    then show ?thesis using inv res Some by (simp add: rcu_reserve_def rcu_inv_def bt_contains_key_def)
  qed
  have "slices_last_received self1 = slices_last_received self"
    using res by (auto simp: rcu_reserve_def Let_def split: if_splits)
  then show "rcu_inv now (self1\<lparr>rcu_slices := bt_insert (message_id sl) sc (rcu_slices self1)\<rparr>)"
    using inv mem eq sc(2) by (auto simp: rcu_inv_def bt_map_simps dest!: in_set_bt_insert [OF wf])
qed

lemma rcu_inv_stamp:
  assumes "rcu_inv now self" and "bt_contains_key (rcu_slices self) mid"
  shows "rcu_inv now (self\<lparr>slices_last_received := bt_insert mid now (slices_last_received self)\<rparr>)"
  using assms by (auto simp: rcu_inv_def bt_map_simps dest!: in_set_bt_insert [rotated])

text \<open>A completed message takes the place of its reservation.\<close>

lemma rcu_inv_complete:
  assumes inv: "rcu_inv now self" and get: "bt_get (rcu_slices self) mid = Some sc"
    and len: "length m \<le> sc_num_slices sc * SLICE_SIZE"
  shows "rcu_inv now (self\<lparr>rcu_slices := bt_remove mid (rcu_slices self),
    slices_last_received := bt_remove mid (slices_last_received self),
    rcu_memory_usage_bytes := rcu_memory_usage_bytes self - sc_num_slices sc * SLICE_SIZE + length m,
    rcu_messages := rcu_messages self @ [m]\<rparr>)"
  using rcu_inv_remove [OF inv get] len inv by (auto simp: rcu_inv_def)

lemma rcu_process_slice_spec:
  assumes inv: "rcu_inv now self" and fits: "rcu_fits self sl"
  shows "\<exists>self' r. rcu_process_slice self sl now = Some (self', r) \<and> rcu_inv now self'"
proof (cases "rcu_reserve self sl")
  case None
  then show ?thesis using inv by (simp add: rcu_process_slice_def)
next
  case (Some self1)
  have wf: "bt_wf (rcu_slices self)" using inv by (simp add: rcu_inv_def)
  have eq: "rcu_slices self1 = rcu_slices self"
    using Some by (auto simp: rcu_reserve_def Let_def split: if_splits)
  define con where "con = (case bt_get (rcu_slices self1) (message_id sl) of
      Some sc \<Rightarrow> sc | None \<Rightarrow> sc_new (message_id sl) (num_slices sl))"
  have con: "sc_wf con" "sc_num_slices con = num_slices sl"
    using inv fits
    by (auto simp: con_def eq rcu_inv_def rcu_fits_def intro: sc_wf_new split: option.splits dest!: bt_get_in_set)
  have idx: "slice_index sl < sc_num_slices con" using fits con(2) by (simp add: rcu_fits_def)
  obtain sc r where run: "sc_process_slice con (slice_index sl) (payload sl) = Some (sc, r)"
    and n: "sc_num_slices sc = num_slices sl" and wf': "\<forall>m. r \<noteq> Inr (Some m) \<Longrightarrow> sc_wf sc"
    and len: "\<And>m. r = Inr (Some m) \<Longrightarrow> length m \<le> num_slices sl * SLICE_SIZE"
    using sc_process_slice_safe [OF con(1) idx] con(2) by metis
  let ?self = "\<lambda>sc. self1\<lparr>rcu_slices := bt_insert (message_id sl) sc (rcu_slices self1)\<rparr>"
  show ?thesis
  proof (cases "\<exists>m. r = Inr (Some m)")
    case False
    then have inv2: "rcu_inv now (?self sc)" using rcu_reserve_spec(1) [OF inv fits Some n wf'] by blast
    from rcu_inv_stamp [OF this, of "message_id sl"] False inv2 Some run show ?thesis
      by (auto simp: rcu_process_slice_def con_def [symmetric] Let_def split: sum.splits option.splits)
  next
    case True
    then obtain m where m: "r = Inr (Some m)" by blast
    note inv2 = rcu_reserve_spec(1) [OF inv fits Some con(2,1)]
    have get: "bt_get (rcu_slices (?self con)) (message_id sl) = Some con" by (simp add: bt_map_simps)
    have le: "num_slices sl * SLICE_SIZE \<le> rcu_memory_usage_bytes self1"
      using rcu_inv_remove(1) [OF inv2 get] con(2) by simp
    from rcu_inv_complete [OF inv2 get, of m] len [OF m] con(2)
    have "rcu_inv now (self1\<lparr>rcu_slices := bt_remove (message_id sl) (rcu_slices self1),
      slices_last_received := bt_remove (message_id sl) (slices_last_received self1),
      rcu_memory_usage_bytes := rcu_memory_usage_bytes self1 - num_slices sl * SLICE_SIZE + length m,
      rcu_messages := rcu_messages self1 @ [m]\<rparr>)" by (simp add: bt_remove_insert)
    then show ?thesis
      using Some run m le by (simp add: rcu_process_slice_def con_def [symmetric] Let_def bt_remove_insert)
  qed
qed

subsection \<open>Discarding\<close>

lemma lost_messages_spec:
  assumes "\<forall>(mid, t) \<in> set es. t \<le> now"
  shows "lost_messages now es = Some (map fst (takeWhile (\<lambda>e. DISCARD_AFTER \<le> now - snd e) es))"
  using assms by (induction es) auto

lemma rcu_discard_spec:
  assumes "rcu_inv now self" and "distinct mids" and "\<forall>mid \<in> set mids. bt_contains_key (rcu_slices self) mid"
  shows "\<exists>self'. rcu_discard mids self = Some self' \<and> rcu_inv now self' \<and> rcu_messages self' = rcu_messages self \<and>
    (\<forall>k. bt_get (rcu_slices self') k = (if k \<in> set mids then None else bt_get (rcu_slices self) k)) \<and>
    (\<forall>k. bt_get (slices_last_received self') k = (if k \<in> set mids then None else bt_get (slices_last_received self) k))"
  using assms
proof (induction mids arbitrary: self)
  case Nil
  then show ?case by simp
next
  case (Cons mid mids)
  then obtain sc where sc: "bt_get (rcu_slices self) mid = Some sc" by (auto simp: bt_contains_key_def)
  note rem = rcu_inv_remove [OF Cons.prems(1) sc]
  let ?self = "self\<lparr>slices_last_received := bt_remove mid (slices_last_received self),
      rcu_slices := bt_remove mid (rcu_slices self),
      rcu_memory_usage_bytes := rcu_memory_usage_bytes self - sc_num_slices sc * SLICE_SIZE\<rparr>"
  have "rcu_discard (mid # mids) self = rcu_discard mids ?self" using sc rem(1) by simp
  moreover have "\<forall>k \<in> set mids. bt_contains_key (rcu_slices ?self) k" using Cons.prems(2,3) by auto
  ultimately show ?case
    using Cons.IH [OF rem(2)] Cons.prems(2) by (auto simp: bt_map_simps)
qed

definition expired :: "duration \<Rightarrow> receive_channel_unreliable \<Rightarrow> nat list" where
  "expired now self = map fst (takeWhile (\<lambda>e. DISCARD_AFTER \<le> now - snd e) (slices_last_received self))"

lemma discard_spec:
  assumes inv: "rcu_inv now self"
  shows "\<exists>self'. discard_incomplete_old_slices self now = Some self' \<and> rcu_inv now self' \<and>
    rcu_messages self' = rcu_messages self \<and>
    (\<forall>k. bt_get (rcu_slices self') k = (if k \<in> set (expired now self) then None else bt_get (rcu_slices self) k)) \<and>
    (\<forall>k. bt_get (slices_last_received self') k =
      (if k \<in> set (expired now self) then None else bt_get (slices_last_received self) k))"
proof -
  have "distinct (map fst (slices_last_received self))" using inv by (simp add: rcu_inv_def bt_wf_distinct)
  then have "distinct (expired now self)"
    unfolding expired_def by (metis distinct_append map_append takeWhile_dropWhile_id)
  moreover have "\<forall>mid \<in> set (expired now self). bt_contains_key (rcu_slices self) mid"
    using inv by (auto simp: expired_def rcu_inv_def dest!: set_takeWhileD)
  moreover have "lost_messages now (slices_last_received self) = Some (expired now self)"
    using inv unfolding expired_def by (intro lost_messages_spec) (auto simp: rcu_inv_def)
  ultimately show ?thesis
    using rcu_discard_spec [OF inv] by (simp add: discard_incomplete_old_slices_def)
qed
subsection \<open>Properties\<close>

text \<open>
  C29: the unreliable receiver is safe. Every operation keeps the invariant (the memory counter is the
  size of the queued messages plus the reservations, within the limit; every message under assembly
  that has a time stamp exists) and returns: message arrival, a slice that agrees with the slices
  before it, the periodic discard, and the application taking a message, which takes the oldest.
\<close>
theorem unreliable_receiver_safe:
  assumes "rcu_inv now self"
  shows "rcu_inv now (rcu_process_message self m) \<and>
    (rcu_fits self sl \<longrightarrow> (\<exists>self' r. rcu_process_slice self sl now = Some (self', r) \<and> rcu_inv now self')) \<and>
    (\<exists>self'. discard_incomplete_old_slices self now = Some self' \<and> rcu_inv now self' \<and>
       rcu_messages self' = rcu_messages self) \<and>
    (\<exists>self'. rcu_receive_message self = Some (self', (case rcu_messages self of [] \<Rightarrow> None | m # _ \<Rightarrow> Some m)) \<and>
       rcu_messages self' = tl (rcu_messages self) \<and> rcu_inv now self')"
proof (intro conjI impI)
  show "rcu_inv now (rcu_process_message self m)" using assms by (rule rcu_inv_process_message)
  show "\<exists>self' r. rcu_process_slice self sl now = Some (self', r) \<and> rcu_inv now self'" if "rcu_fits self sl"
    using assms that by (rule rcu_process_slice_spec)
  show "\<exists>self'. discard_incomplete_old_slices self now = Some self' \<and> rcu_inv now self' \<and>
       rcu_messages self' = rcu_messages self" using discard_spec [OF assms] by blast
  show "\<exists>self'. rcu_receive_message self = Some (self', (case rcu_messages self of [] \<Rightarrow> None | m # _ \<Rightarrow> Some m)) \<and>
       rcu_messages self' = tl (rcu_messages self) \<and> rcu_inv now self'"
    using rcu_receive_message_spec [OF assms] assms by (cases "rcu_messages self") auto
qed

definition demo_assembly :: "receive_channel_unreliable" where
  "demo_assembly = (rcu_new 0 10000)\<lparr>rcu_slices := [(0, sc_new 0 2), (1, sc_new 1 2)],
     slices_last_received := [(0, from_secs 3), (1, 0)], rcu_memory_usage_bytes := 4800\<rparr>"

lemma demo_assembly_inv: "rcu_inv (from_secs 4) demo_assembly"
  by (simp add: demo_assembly_def rcu_inv_def rcu_new_def bt_wf_def bt_contains_key_def bt_get_def bt_weight_def
      SLICE_SIZE_def sc_wf_new from_secs_def)

theorem unreliable_receiver_safe_witness:
  "rcu_inv (from_secs 4) (rcu_process_message demo_assembly [1, 2]) \<and>
   (\<exists>self' r. rcu_process_slice demo_assembly \<lparr>message_id = 1, slice_index = 1, num_slices = 2, payload = [5]\<rparr>
      (from_secs 4) = Some (self', r) \<and> rcu_inv (from_secs 4) self')"
proof -
  let ?sl = "\<lparr>message_id = 1, slice_index = 1, num_slices = 2, payload = [5]\<rparr>"
  have "rcu_fits demo_assembly ?sl" by (simp add: rcu_fits_def demo_assembly_def bt_get_def)
  then show ?thesis using unreliable_receiver_safe [OF demo_assembly_inv, of "[1, 2]" ?sl] by blast
qed

text \<open>
  The periodic discard looks no further than the first message, by id, that has received a slice
  within the last three seconds: it then removes nothing at all, however long the other messages under
  assembly have waited. The comment in the loop says that the following messages cannot have expired,
  but the time stamp is the arrival of the last slice, also of a repeated one, and not of the first.
\<close>
lemma discard_stops_at_first_fresh:
  assumes "slices_last_received self = (mid, t) # es" and "t \<le> now" and "now - t < DISCARD_AFTER"
  shows "discard_incomplete_old_slices self now = Some self"
  using assms by (simp add: discard_incomplete_old_slices_def)

lemma discard_stops_at_first_fresh_example:
  "discard_incomplete_old_slices demo_assembly (from_secs 4) = Some demo_assembly \<and>
   DISCARD_AFTER \<le> from_secs 4 - the (bt_get (slices_last_received demo_assembly) 1)"
proof
  show "discard_incomplete_old_slices demo_assembly (from_secs 4) = Some demo_assembly"
    by (rule discard_stops_at_first_fresh [where mid = 0 and t = "from_secs 3" and es = "[(1, 0)]"])
      (simp_all add: demo_assembly_def from_secs_def DISCARD_AFTER_def)
qed (simp add: demo_assembly_def from_secs_def DISCARD_AFTER_def bt_get_def)

end
