(* ===== verification/Pending_Acks.thy ===== *)
theory Pending_Acks
  imports Renet_Packet
begin

text \<open>
  The acknowledgement bookkeeping of \<open>src/renet2/src/remote_connection.rs\<close>: the sequence numbers
  received so far are kept as a list of half-open ranges. The abstraction is the set of numbers in the
  ranges; \<open>add_pending_ack\<close> inserts one number and \<open>acked_largest\<close> drops everything up to a number.
\<close>

text \<open>
  The loop of \<open>add_pending_ack\<close> over the ranges; \<open>None\<close> when the sequence number is after all of them.
\<close>

fun fit_in_ranges :: "nat \<Rightarrow> ack_range list \<Rightarrow> ack_range list option" where
  "fit_in_ranges sequence [] = None"
| "fit_in_ranges sequence ((start, end) # ranges) =
     (if start \<le> sequence \<and> sequence < end then Some ((start, end) # ranges)
      else if start = sequence + 1 then Some ((sequence, end) # ranges)
      else if end = sequence then
        (case ranges of
           (next_start, next_end) # ranges' \<Rightarrow>
             if sequence + 1 = next_start then Some ((start, next_end) # ranges')
             else Some ((start, sequence + 1) # ranges)
         | [] \<Rightarrow> Some [(start, sequence + 1)])
      else if start > sequence + 1 then Some ((sequence, sequence + 1) # (start, end) # ranges)
      else map_option (\<lambda>rs. (start, end) # rs) (fit_in_ranges sequence ranges))"

definition add_pending_ack :: "ack_range list \<Rightarrow> nat \<Rightarrow> ack_range list" where
  "add_pending_ack pending_acks sequence =
     (if pending_acks = [] then [(sequence, sequence + 1)]
      else case fit_in_ranges sequence pending_acks of
        Some ranges \<Rightarrow> ranges
      | None \<Rightarrow>
          let ranges = pending_acks @ [(sequence, sequence + 1)]
          in if length ranges > 64 then tl ranges else ranges)"

fun acked_largest :: "ack_range list \<Rightarrow> nat \<Rightarrow> ack_range list" where
  "acked_largest [] largest_ack = []"
| "acked_largest ((start, end) # ranges) largest_ack =
     (if largest_ack < start then (start, end) # ranges
      else if end \<le> largest_ack then acked_largest ranges largest_ack
      else if largest_ack + 1 \<ge> end then ranges
      else (largest_ack + 1, end) # ranges)"

subsection \<open>The set of numbers\<close>

definition in_ranges :: "ack_range list \<Rightarrow> nat set" where
  "in_ranges rs = (\<Union>(s, e) \<in> set rs. {s..<e})"

lemma in_ranges_simps [simp]:
  "in_ranges [] = {}" "in_ranges ((s, e) # rs) = {s..<e} \<union> in_ranges rs" "in_ranges (rs @ rs') = in_ranges rs \<union> in_ranges rs'"
  by (auto simp: in_ranges_def)

lemma ack_ranges_wf_Cons:
  "ack_ranges_wf ((s, e) # rs) \<longleftrightarrow> s < e \<and> (\<forall>(s', e') \<in> set rs. e < s') \<and> ack_ranges_wf rs"
  by (auto simp: ack_ranges_wf_def)

lemma ack_ranges_wf_Nil [simp]: "ack_ranges_wf []"
  by (simp add: ack_ranges_wf_def)

lemma fit_in_ranges_starts:
  "fit_in_ranges sequence rs = Some rs' \<Longrightarrow> (s, e) \<in> set rs' \<Longrightarrow> sequence \<le> s \<or> s \<in> fst ` set rs"
proof (induction sequence rs arbitrary: rs' rule: fit_in_ranges.induct)
  case (2 sequence start "end" ranges)
  then show ?case by (auto split: if_splits list.splits simp: image_iff) (force+)?
qed simp

lemma fit_in_ranges_Some:
  assumes "ack_ranges_wf rs" and "fit_in_ranges sequence rs = Some rs'"
  shows "ack_ranges_wf rs' \<and> in_ranges rs' = insert sequence (in_ranges rs) \<and> length rs' \<le> length rs + 1"
  using assms
proof (induction sequence rs arbitrary: rs' rule: fit_in_ranges.induct)
  case (2 sequence s e rs)
  have wf: "s < e" "\<forall>(s', e') \<in> set rs. e < s'" "ack_ranges_wf rs" using 2(2) by (auto simp: ack_ranges_wf_Cons)
  consider "s \<le> sequence \<and> sequence < e" | "s = sequence + 1" | "e = sequence" | "s > sequence + 1"
    | "s \<le> sequence" "e < sequence" by linarith
  then show ?case
  proof cases
    case 3
    show ?thesis
    proof (cases rs)
      case Nil
      then show ?thesis using 2(3) 3 wf by (auto simp: ack_ranges_wf_Cons)
    next
      case (Cons r rs0)
      obtain s2 e2 where r: "r = (s2, e2)" by (cases r)
      then have r2: "e < s2" "s2 < e2" "\<forall>(s', e') \<in> set rs0. e2 < s'" "ack_ranges_wf rs0"
        using wf Cons by (auto simp: ack_ranges_wf_Cons)
      then have "\<forall>(s', e') \<in> set rs0. Suc e < s'" by fastforce
      with r2 show ?thesis using 2(3) 3 wf Cons r by (auto simp: ack_ranges_wf_Cons split: if_splits)
    qed
  next
    case 5
    then obtain rs1 where rs1: "fit_in_ranges sequence rs = Some rs1" "rs' = (s, e) # rs1" using 2(3) by auto
    have "ack_ranges_wf rs1 \<and> in_ranges rs1 = insert sequence (in_ranges rs) \<and> length rs1 \<le> length rs + 1"
      using 2(1) [OF _ _ _ _ wf(3) rs1(1)] 5 by simp
    moreover have "e < s'" if "(s', e') \<in> set rs1" for s' e'
      using fit_in_ranges_starts [OF rs1(1) that] 5 wf(2) by auto
    ultimately show ?thesis using rs1(2) wf(1) by (auto simp: ack_ranges_wf_Cons)
  next
    case 4
    then have "\<forall>(s', e') \<in> set rs. Suc sequence < s'" using wf by fastforce
    then show ?thesis using 2(3) wf 4 by (auto simp: ack_ranges_wf_Cons)
  qed (use 2(3) wf in \<open>auto simp: ack_ranges_wf_Cons\<close>)
qed simp

lemma fit_in_ranges_None:
  assumes "ack_ranges_wf rs" and "fit_in_ranges sequence rs = None"
  shows "\<forall>(s, e) \<in> set rs. e < sequence"
  using assms
proof (induction sequence rs rule: fit_in_ranges.induct)
  case (2 sequence s e rs)
  have "s < e" "ack_ranges_wf rs" using 2(2) by (auto simp: ack_ranges_wf_Cons)
  then show ?case using 2 by (auto split: if_splits list.splits)
qed simp

lemma ack_ranges_wf_snoc:
  "ack_ranges_wf rs \<Longrightarrow> \<forall>(s, e) \<in> set rs. e < n \<Longrightarrow> ack_ranges_wf (rs @ [(n, n + 1)])"
  by (auto simp: ack_ranges_wf_def sorted_wrt_append)

lemma ack_ranges_wf_tl: "ack_ranges_wf rs \<Longrightarrow> ack_ranges_wf (tl rs)"
  by (cases rs) (auto simp: ack_ranges_wf_def)

lemma add_pending_ack_wf: "ack_ranges_wf rs \<Longrightarrow> ack_ranges_wf (add_pending_ack rs n)"
  using fit_in_ranges_Some [of rs n] fit_in_ranges_None [of rs n] ack_ranges_wf_snoc [of rs n]
    ack_ranges_wf_tl [of "rs @ [(n, n + 1)]"]
  by (auto simp: add_pending_ack_def ack_ranges_wf_Cons Let_def split: option.splits simp del: tl_append)

lemma acked_largest_wf: "ack_ranges_wf rs \<Longrightarrow> ack_ranges_wf (acked_largest rs n)"
  by (induction rs n rule: acked_largest.induct) (auto simp: ack_ranges_wf_Cons)

lemma acked_largest_set: "ack_ranges_wf rs \<Longrightarrow> in_ranges (acked_largest rs n) = {k \<in> in_ranges rs. n < k}"
proof (induction rs n rule: acked_largest.induct)
  case (2 s e rs n)
  have "\<forall>k \<in> in_ranges rs. e < k" using 2(2) by (fastforce simp: ack_ranges_wf_Cons in_ranges_def)
  then show ?case using 2 by (auto simp: ack_ranges_wf_Cons)
qed simp

lemma add_pending_ack_set:
  assumes wf: "ack_ranges_wf rs"
  shows "in_ranges (add_pending_ack rs n) =
    (if fit_in_ranges n rs = None \<and> length rs \<ge> 64 then insert n (in_ranges (tl rs)) else insert n (in_ranges rs))"
proof (cases "fit_in_ranges n rs")
  case None
  have "{n..<Suc n} = {n}" by auto
  then show ?thesis using None by (cases rs) (auto simp: add_pending_ack_def Let_def)
next
  case (Some rs')
  then show ?thesis using fit_in_ranges_Some [OF wf Some] by (cases rs) (auto simp: add_pending_ack_def)
qed

text \<open>Numbers that arrive in descending order with gaps: every one opens a range at the left.\<close>

lemma descending_ranges:
  "foldl add_pending_ack [] (map (\<lambda>i. 2 * (n - i)) [0..<Suc k]) = map (\<lambda>i. (2 * (n - k + i), 2 * (n - k + i) + 1)) [0..<Suc k]"
  if "k \<le> n"
  using that
proof (induction k)
  case 0
  then show ?case by (simp add: add_pending_ack_def)
next
  case (Suc k)
  let ?x = "2 * (n - Suc k)"
  have shift: "n - Suc k + Suc i = n - k + i" for i using Suc.prems by simp
  have "map (\<lambda>i. (2 * (n - k + i), 2 * (n - k + i) + 1)) [0..<Suc k] =
      (2 * (n - k), 2 * (n - k) + 1) # map (\<lambda>i. (2 * (n - k + i), 2 * (n - k + i) + 1)) [1..<Suc k]"
    by (simp add: upt_rec)
  then have "add_pending_ack (map (\<lambda>i. (2 * (n - k + i), 2 * (n - k + i) + 1)) [0..<Suc k]) ?x =
      (?x, ?x + 1) # map (\<lambda>i. (2 * (n - k + i), 2 * (n - k + i) + 1)) [0..<Suc k]"
    using Suc.prems by (simp add: add_pending_ack_def)
  also have "\<dots> = map (\<lambda>i. (2 * (n - Suc k + i), 2 * (n - Suc k + i) + 1)) (0 # map Suc [0..<Suc k])"
    using Suc.prems by (simp add: Suc_diff_Suc shift comp_def)
  also have "0 # map Suc [0..<Suc k] = [0..<Suc (Suc k)]" by (simp only: map_Suc_upt upt_conv_Cons [of 0 "Suc (Suc k)"])
  finally show ?case using Suc by (simp del: upt_Suc add: upt_Suc [of 0 "Suc k"])
qed

subsection \<open>Properties\<close>

text \<open>
  C20: the pending acknowledgements are exactly the received sequence numbers. On ranges that are
  non-empty, ascending and separated, \<open>add_pending_ack\<close> keeps them so and adds one number to the set
  they stand for, merging neighbours, unless it appends a 65th range: then the oldest range is
  forgotten; \<open>acked_largest\<close> keeps exactly the numbers above its argument.
\<close>
theorem pending_acks_refine_set:
  assumes "ack_ranges_wf rs"
  shows "ack_ranges_wf (add_pending_ack rs n) \<and> ack_ranges_wf (acked_largest rs n) \<and>
    in_ranges (add_pending_ack rs n) =
      (if fit_in_ranges n rs = None \<and> length rs \<ge> 64 then insert n (in_ranges (tl rs)) else insert n (in_ranges rs)) \<and>
    in_ranges (acked_largest rs n) = {k \<in> in_ranges rs. n < k}"
  using add_pending_ack_wf acked_largest_wf add_pending_ack_set acked_largest_set assms by blast

theorem pending_acks_refine_set_witness:
  "in_ranges (add_pending_ack [(3, 5), (6, 8)] 5) = insert 5 (in_ranges [(3, 5), (6, 8)]) \<and>
   in_ranges (acked_largest [(3, 5), (6, 8)] 6) = {k \<in> in_ranges [(3, 5), (6, 8)]. 6 < k}"
proof -
  have "ack_ranges_wf [(3, 5), (6, 8)]" by (simp add: ack_ranges_wf_def)
  from pending_acks_refine_set [OF this, of 5] pending_acks_refine_set [OF this, of 6] show ?thesis by simp
qed

text \<open>
  C35: the limit of 64 ranges does not hold. It is enforced only where a range is appended at the end:
  sequence numbers that arrive in descending order with gaps open a range each, without any bound.
\<close>
theorem pending_acks_unbounded:
  "length (foldl add_pending_ack [] (map (\<lambda>i. 2 * (n - i)) [0..<Suc n])) = Suc n"
  by (simp only: descending_ranges [OF order_refl] length_map length_upt)

end
