(* ===== verification/Connection_Stats.thy ===== *)
theory Connection_Stats
  imports Renet_Prelude Complex_Main
begin

text \<open>
  \<open>src/renet2/src/connection_stats.rs\<close>: counters in twenty slots of 300 milliseconds. The floating
  point results are rational numbers here, without the rounding of \<open>f64\<close>; a division by zero, whose
  value in \<open>f64\<close> is not a number, is \<open>None\<close>. The lemmas relate the slots to the list of everything
  that was ever counted.
\<close>

definition RESOLUTION :: duration where
  "RESOLUTION = from_millis 300"

definition WINDOW :: duration where
  "WINDOW = from_millis 6000"

definition SIZE :: nat where
  "SIZE = as_millis WINDOW div as_millis RESOLUTION"

record connection_stats =
  packets_sent :: "nat list"
  packets_acked :: "nat list"
  bytes_sent :: "nat list"
  bytes_received :: "nat list"
  current_index :: nat

definition stats_new :: connection_stats where
  "stats_new = \<lparr>packets_sent = replicate SIZE 0, packets_acked = replicate SIZE 0, bytes_sent = replicate SIZE 0,
     bytes_received = replicate SIZE 0, current_index = 0\<rparr>"

definition stats_index :: "duration \<Rightarrow> nat" where
  "stats_index time = (as_millis time div as_millis RESOLUTION) mod SIZE"

definition stats_update :: "connection_stats \<Rightarrow> duration \<Rightarrow> connection_stats option" where
  "stats_update self current_time =
     (let i = stats_index current_time
      in if current_index self \<noteq> i then do {
           let self = self\<lparr>current_index := i\<rparr>;
           a \<leftarrow> set_index (packets_sent self) i 0;
           b \<leftarrow> set_index (bytes_sent self) i 0;
           c \<leftarrow> set_index (bytes_received self) i 0;
           d \<leftarrow> set_index (packets_acked self) i 0;
           Some (self\<lparr>packets_sent := a, bytes_sent := b, bytes_received := c, packets_acked := d\<rparr>)
         } else Some self)"

text \<open>Rust's \<open>xs[i] += n\<close>.\<close>

definition add_at :: "nat list \<Rightarrow> nat \<Rightarrow> nat \<Rightarrow> nat list option" where
  "add_at xs i n = do { x \<leftarrow> index xs i; set_index xs i (x + n) }"

definition stats_sent_packets :: "connection_stats \<Rightarrow> nat \<Rightarrow> nat \<Rightarrow> connection_stats option" where
  "stats_sent_packets self num_packets bs = do {
     p \<leftarrow> add_at (packets_sent self) (current_index self) num_packets;
     b \<leftarrow> add_at (bytes_sent self) (current_index self) bs;
     Some (self\<lparr>packets_sent := p, bytes_sent := b\<rparr>)
   }"

definition stats_received_packet :: "connection_stats \<Rightarrow> nat \<Rightarrow> connection_stats option" where
  "stats_received_packet self bs = do {
     b \<leftarrow> add_at (bytes_received self) (current_index self) bs;
     Some (self\<lparr>bytes_received := b\<rparr>)
   }"

definition stats_acked_packet :: "connection_stats \<Rightarrow> duration \<Rightarrow> duration \<Rightarrow> connection_stats option" where
  "stats_acked_packet self sent_at current_time = do {
     delta \<leftarrow> checked_sub current_time sent_at;
     if delta > WINDOW then Some self
     else do {
       a \<leftarrow> add_at (packets_acked self) (stats_index sent_at) 1;
       Some (self\<lparr>packets_acked := a\<rparr>)
     }
   }"

definition as_secs_f64 :: "duration \<Rightarrow> rat" where
  "as_secs_f64 d = of_nat d / 1000000000"

definition f64_div :: "rat \<Rightarrow> rat \<Rightarrow> rat option" where
  "f64_div x y = (if y = 0 then None else Some (x / y))"

text \<open>The two rates differ only in the counter they read; the outer \<open>option\<close> is the panic.\<close>

definition bytes_per_second :: "nat list \<Rightarrow> nat \<Rightarrow> duration \<Rightarrow> rat option option" where
  "bytes_per_second counter idx current_time =
     (let total_bytes = sum_list counter
      in if current_time < WINDOW then Some (f64_div (of_nat total_bytes) (as_secs_f64 current_time))
         else do {
           c \<leftarrow> index counter idx;
           total_bytes \<leftarrow> checked_sub total_bytes c;
           span \<leftarrow> checked_sub WINDOW RESOLUTION;
           Some (f64_div (of_nat total_bytes) (as_secs_f64 span))
         })"

definition bytes_sent_per_second :: "connection_stats \<Rightarrow> duration \<Rightarrow> rat option option" where
  "bytes_sent_per_second self current_time = bytes_per_second (bytes_sent self) (current_index self) current_time"

definition bytes_received_per_second :: "connection_stats \<Rightarrow> duration \<Rightarrow> rat option option" where
  "bytes_received_per_second self current_time =
     bytes_per_second (bytes_received self) (current_index self) current_time"

text \<open>The sum of a counter without the current and the last two slots.\<close>

definition settled_sum :: "nat list \<Rightarrow> nat \<Rightarrow> nat option" where
  "settled_sum counter idx = do {
     x \<leftarrow> index counter idx;
     s \<leftarrow> checked_sub (sum_list counter) x;
     y \<leftarrow> index counter ((idx + SIZE - 1) mod SIZE);
     s \<leftarrow> checked_sub s y;
     z \<leftarrow> index counter ((idx + SIZE - 2) mod SIZE);
     checked_sub s z
   }"

definition packet_loss :: "connection_stats \<Rightarrow> rat option" where
  "packet_loss self = do {
     total_packets_sent \<leftarrow> settled_sum (packets_sent self) (current_index self);
     total_packets_acked \<leftarrow> settled_sum (packets_acked self) (current_index self);
     if total_packets_sent = 0 then Some 0
     else Some ((of_nat total_packets_sent - of_nat total_packets_acked) / of_nat total_packets_sent)
   }"

subsection \<open>No operation fails\<close>

lemma SIZE_eq [simp]: "SIZE = 20"
  by (simp add: SIZE_def WINDOW_def RESOLUTION_def as_millis_def from_millis_def)

definition stats_inv :: "connection_stats \<Rightarrow> bool" where
  "stats_inv self \<longleftrightarrow> length (packets_sent self) = SIZE \<and> length (packets_acked self) = SIZE \<and>
     length (bytes_sent self) = SIZE \<and> length (bytes_received self) = SIZE \<and> current_index self < SIZE"

lemma stats_inv_new: "stats_inv stats_new"
  by (simp add: stats_inv_def stats_new_def)

lemma stats_index_less [simp]: "stats_index t < 20"
  by (simp add: stats_index_def)

lemma add_at_Some [simp]: "i < length xs \<Longrightarrow> add_at xs i n = Some (xs[i := xs ! i + n])"
  by (simp add: add_at_def)

lemma stats_update_inv: "stats_inv self \<Longrightarrow> \<exists>self'. stats_update self t = Some self' \<and> stats_inv self'"
  by (auto simp: stats_update_def stats_inv_def Let_def)

lemma stats_sent_packets_inv: "stats_inv self \<Longrightarrow> \<exists>self'. stats_sent_packets self n b = Some self' \<and> stats_inv self'"
  by (auto simp: stats_sent_packets_def stats_inv_def)

lemma stats_received_packet_inv: "stats_inv self \<Longrightarrow> \<exists>self'. stats_received_packet self b = Some self' \<and> stats_inv self'"
  by (auto simp: stats_received_packet_def stats_inv_def)

lemma stats_acked_packet_inv:
  "stats_inv self \<Longrightarrow> t \<le> now \<Longrightarrow> \<exists>self'. stats_acked_packet self t now = Some self' \<and> stats_inv self'"
  by (auto simp: stats_acked_packet_def stats_inv_def)

subsection \<open>The slots and everything that was counted\<close>

definition time_slot :: "duration \<Rightarrow> nat" where
  "time_slot t = as_millis t div as_millis RESOLUTION"

definition slot_live :: "nat \<Rightarrow> nat \<Rightarrow> bool" where
  "slot_live s t \<longleftrightarrow> t \<le> s \<and> s < t + SIZE"

text \<open>The bytes logged in the live slots, and in the live slots of one residue.\<close>

definition logged :: "(nat \<Rightarrow> bool) \<Rightarrow> (nat \<times> nat) list \<Rightarrow> nat" where
  "logged P entries = sum_list (map snd (filter (P \<circ> fst) entries))"

definition slots_of :: "nat \<Rightarrow> (nat \<times> nat) list \<Rightarrow> nat list" where
  "slots_of s entries = map (\<lambda>j. logged (\<lambda>t. slot_live s t \<and> t mod SIZE = j) entries) [0..<SIZE]"

lemma logged_simps [simp]:
  "logged P [] = 0" "logged P ((t, b) # entries) = (if P t then b else 0) + logged P entries"
  by (simp_all add: logged_def)

lemma logged_cong: "\<forall>e \<in> set entries. P (fst e) = Q (fst e) \<Longrightarrow> logged P entries = logged Q entries"
  by (induction entries) auto

lemma logged_none: "\<forall>e \<in> set entries. \<not> P (fst e) \<Longrightarrow> logged P entries = 0"
  by (induction entries) auto

lemma mod20_Suc_live:
  assumes "t \<le> s" "s < t + 20" "t mod 20 = Suc s mod 20"
  shows "s = t + 19"
proof -
  have "20 dvd Suc s - t"
    using assms mod_eq_dvd_iff_nat [of t "Suc s" 20] by simp
  then obtain k where "Suc s - t = 20 * k"
    by (auto elim: dvdE)
  with assms(1,2) show ?thesis
    by (cases k) auto
qed

lemma slots_of_next:
  assumes "\<forall>e \<in> set entries. fst e \<le> s"
  shows "slots_of (Suc s) entries = (slots_of s entries)[Suc s mod SIZE := 0]"
proof (rule nth_equalityI)
  fix j
  assume "j < length (slots_of (Suc s) entries)"
  then have j: "j < 20"
    by (simp add: slots_of_def)
  show "slots_of (Suc s) entries ! j = (slots_of s entries)[Suc s mod SIZE := 0] ! j"
  proof (cases "j = Suc s mod 20")
    case True
    have "logged (\<lambda>t. slot_live (Suc s) t \<and> t mod SIZE = j) entries = 0"
    proof (rule logged_none, rule ballI)
      fix e
      assume "e \<in> set entries"
      with assms have "fst e \<le> s"
        by blast
      then show "\<not> (slot_live (Suc s) (fst e) \<and> fst e mod SIZE = j)"
        using mod20_Suc_live [of "fst e" s] True by (auto simp: slot_live_def)
    qed
    then show ?thesis
      using True j by (simp add: slots_of_def)
  next
    case False
    have "logged (\<lambda>t. slot_live (Suc s) t \<and> t mod SIZE = j) entries = logged (\<lambda>t. slot_live s t \<and> t mod SIZE = j) entries"
    proof (rule logged_cong, rule ballI)
      fix e
      assume "e \<in> set entries"
      with assms have "fst e \<le> s"
        by blast
      then show "(slot_live (Suc s) (fst e) \<and> fst e mod SIZE = j) = (slot_live s (fst e) \<and> fst e mod SIZE = j)"
        using False by (cases "s = fst e + 19") (auto simp: slot_live_def)
    qed
    then show ?thesis
      using False j by (simp add: slots_of_def)
  qed
qed (simp add: slots_of_def)

lemma slots_of_add:
  "slots_of s ((s, b) # entries) = (slots_of s entries)[s mod SIZE := slots_of s entries ! (s mod SIZE) + b]"
  by (rule nth_equalityI) (auto simp: slots_of_def slot_live_def nth_list_update)

lemma sum_residues:

  shows "sum_list (map (\<lambda>j. logged (\<lambda>t. P t \<and> t mod SIZE = j) entries) [0..<SIZE]) = logged P entries"
proof (induction entries)
  case Nil
  show ?case by (simp add: sum_list_0)
next
  case (Cons e entries)
  obtain t b where e: "e = (t, b)"
    by (cases e)
  have one: "sum_list (map (\<lambda>j. if P t \<and> t mod SIZE = j then b else 0) [0..<SIZE]) = (if P t then b else 0)"
    by (cases "P t") (simp_all add: interv_sum_list_conv_sum_set_nat)
  show ?case
    using Cons.IH one unfolding e by (simp add: sum_list_addf del: SIZE_eq)
qed

lemma length_slots_of [simp]: "length (slots_of s entries) = 20"
  by (simp add: slots_of_def)

lemma sum_slots_of: "sum_list (slots_of s entries) = logged (slot_live s) entries"
  unfolding slots_of_def by (rule sum_residues)

subsection \<open>Runs with steady updates\<close>

text \<open>
  What a connection does to its statistics: time passes, packets are sent, a packet arrives. Beside the
  statistics and the time, the state keeps the log of the bytes sent, each entry with its slot.
\<close>

datatype stats_event = Tick duration | Sent nat nat | Received nat

fun stats_event_step ::
  "stats_event \<Rightarrow> connection_stats \<times> duration \<times> (nat \<times> nat) list \<Rightarrow> (connection_stats \<times> duration \<times> (nat \<times> nat) list) option" where
  "stats_event_step (Tick d) (st, now, entries) = map_option (\<lambda>st. (st, now + d, entries)) (stats_update st (now + d))"
| "stats_event_step (Sent n b) (st, now, entries) =
     map_option (\<lambda>st. (st, now, (time_slot now, b) # entries)) (stats_sent_packets st n b)"
| "stats_event_step (Received b) (st, now, entries) = map_option (\<lambda>st. (st, now, entries)) (stats_received_packet st b)"

fun stats_run ::
  "stats_event list \<Rightarrow> connection_stats \<times> duration \<times> (nat \<times> nat) list \<Rightarrow> (connection_stats \<times> duration \<times> (nat \<times> nat) list) option" where
  "stats_run [] s = Some s"
| "stats_run (ev # evs) s = do { s \<leftarrow> stats_event_step ev s; stats_run evs s }"

fun steady :: "stats_event \<Rightarrow> bool" where
  "steady (Tick d) = (d \<le> RESOLUTION)"
| "steady _ = True"

fun window_inv :: "connection_stats \<times> duration \<times> (nat \<times> nat) list \<Rightarrow> bool" where
  "window_inv (st, now, entries) \<longleftrightarrow> stats_inv st \<and> current_index st = time_slot now mod SIZE \<and>
     bytes_sent st = slots_of (time_slot now) entries \<and> (\<forall>e \<in> set entries. fst e \<le> time_slot now)"

lemma stats_index_slot: "stats_index t = time_slot t mod SIZE"
  by (simp add: stats_index_def time_slot_def)

lemma time_slot_step: "d \<le> RESOLUTION \<Longrightarrow> time_slot (now + d) = time_slot now \<or> time_slot (now + d) = Suc (time_slot now)"
  unfolding time_slot_def RESOLUTION_def as_millis_def from_millis_def by simp linarith

lemma window_step:
  assumes "window_inv s" "steady ev"
  shows "\<exists>s'. stats_event_step ev s = Some s' \<and> window_inv s'"
proof -
  obtain st now entries where s: "s = (st, now, entries)"
    by (cases s)
  have inv: "stats_inv st" "current_index st = time_slot now mod SIZE" "bytes_sent st = slots_of (time_slot now) entries"
    "\<forall>e \<in> set entries. fst e \<le> time_slot now" "length (slots_of (time_slot now) entries) = SIZE"
    using assms(1) by (simp_all add: s stats_inv_def)
  show ?thesis
  proof (cases ev)
    case (Tick d)
    with assms(2) consider "time_slot (now + d) = time_slot now" | "time_slot (now + d) = Suc (time_slot now)"
      using time_slot_step by fastforce
    then show ?thesis
    proof cases
      case 1
      then show ?thesis
        using inv Tick by (simp add: s stats_update_def stats_index_slot)
    next
      case 2
      have "Suc (time_slot now) mod 20 \<noteq> time_slot now mod 20"
        by (simp add: mod_Suc)
      with 2 show ?thesis
        using inv Tick by (auto simp: s stats_update_def stats_index_slot stats_inv_def slots_of_next Let_def intro: le_SucI)
    qed
  next
    case (Sent n b)
    then show ?thesis
      using inv by (auto simp: s stats_sent_packets_def stats_inv_def slots_of_add)
  next
    case (Received b)
    then show ?thesis
      using inv by (auto simp: s stats_received_packet_def stats_inv_def)
  qed
qed

lemma window_run: "window_inv s \<Longrightarrow> list_all steady evs \<Longrightarrow> \<exists>s'. stats_run evs s = Some s' \<and> window_inv s'"
proof (induction evs arbitrary: s)
  case (Cons ev evs)
  then obtain s' where "stats_event_step ev s = Some s'" "window_inv s'"
    using window_step [of s ev] by auto
  with Cons show ?case
    by simp
qed simp

lemma window_init: "window_inv (stats_new, 0, [])"
  using stats_inv_new by (simp add: time_slot_def as_millis_def slots_of_def stats_new_def map_replicate_const)


subsection \<open>The rates and the loss\<close>

lemma settled_sum_Some:
  assumes "length xs = SIZE" "i < SIZE"
  shows "\<exists>n. settled_sum xs i = Some n \<and> n \<le> sum_list xs"
proof -
  define j k where "j = (i + SIZE - 1) mod SIZE" and "k = (i + SIZE - 2) mod SIZE"
  have jk: "j < 20" "k < 20" "i \<noteq> j" "i \<noteq> k" "j \<noteq> k"
    using assms(2) unfolding j_def k_def by (auto simp: mod_if)
  have "sum ((!) xs) {i, j, k} \<le> sum ((!) xs) {0..<20}"
    by (rule sum_mono2) (use assms(2) jk in auto)
  then have "xs ! i + xs ! j + xs ! k \<le> sum_list xs"
    using assms(1) jk by (simp add: sum_list_sum_nth)
  then have "settled_sum xs i = Some (sum_list xs - xs ! i - xs ! j - xs ! k)"
    unfolding settled_sum_def j_def [symmetric] k_def [symmetric] using assms jk(1,2) by simp
  then show ?thesis
    by simp
qed

lemma as_secs_f64_span: "as_secs_f64 (WINDOW - RESOLUTION) = 57 / 10" "RESOLUTION \<le> WINDOW"
  by (simp_all add: as_secs_f64_def WINDOW_def RESOLUTION_def from_millis_def)

lemma logged_split: "logged P entries = logged (\<lambda>t. P t \<and> Q t) entries + logged (\<lambda>t. P t \<and> \<not> Q t) entries"
  by (induction entries) auto

lemma current_slot_logged:
  "slots_of s entries ! (s mod 20) = logged (\<lambda>t. slot_live s t \<and> t = s) entries"
proof -
  have "slots_of s entries ! (s mod 20) = logged (\<lambda>t. slot_live s t \<and> t mod 20 = s mod 20) entries"
    by (simp add: slots_of_def)
  also have "\<dots> = logged (\<lambda>t. slot_live s t \<and> t = s) entries"
  proof (rule logged_cong, rule ballI)
    fix e
    have "fst e \<le> s \<Longrightarrow> s < fst e + 20 \<Longrightarrow> s mod 20 = fst e mod 20 \<Longrightarrow> fst e = s"
      using mod_eq_dvd_iff_nat [of "fst e" s 20] by (auto dest: dvd_imp_le)
    then show "(slot_live s (fst e) \<and> fst e mod 20 = s mod 20) = (slot_live s (fst e) \<and> fst e = s)"
      by (auto simp: slot_live_def)
  qed
  finally show ?thesis .
qed

lemma window_rate:
  assumes "window_inv (st, now, entries)" "WINDOW \<le> now"
  shows "bytes_sent_per_second st now =
    Some (Some (of_nat (logged (\<lambda>t. slot_live (time_slot now) t \<and> t \<noteq> time_slot now) entries) / (57 / 10)))"
proof -
  have inv: "bytes_sent st = slots_of (time_slot now) entries" "current_index st = time_slot now mod 20"
    using assms(1) by simp_all
  have "sum_list (bytes_sent st) = bytes_sent st ! (time_slot now mod 20) +
      logged (\<lambda>t. slot_live (time_slot now) t \<and> t \<noteq> time_slot now) entries"
    unfolding inv sum_slots_of current_slot_logged by (rule logged_split)
  then show ?thesis
    using assms(2) inv as_secs_f64_span(2)
    by (simp add: bytes_sent_per_second_def bytes_per_second_def Let_def f64_div_def as_secs_f64_span(1))
qed

text \<open>
  C30: When the clock never advances by more than 300 milliseconds at a time, no statistics operation
  fails, and from six seconds on the reported rate is exactly the number of bytes sent in the nineteen
  complete slots before the current one, divided by their 5.7 seconds.
\<close>

theorem stats_rate_exact:
  assumes "list_all steady evs" "stats_run evs (stats_new, 0, []) = r"
  shows "\<exists>st now entries. r = Some (st, now, entries) \<and> (WINDOW \<le> now \<longrightarrow> bytes_sent_per_second st now =
    Some (Some (of_nat (logged (\<lambda>t. slot_live (time_slot now) t \<and> t \<noteq> time_slot now) entries) / (57 / 10))))"
proof -
  obtain st now entries where "stats_run evs (stats_new, 0, []) = Some (st, now, entries)" "window_inv (st, now, entries)"
    using window_run [OF window_init assms(1)] by (metis prod_cases3)
  with assms(2) window_rate show ?thesis
    by blast
qed

theorem stats_rate_exact_witness:
  "list_all steady (Sent 1 570 # replicate 20 (Tick RESOLUTION)) \<and> (\<exists>st now entries. stats_run (Sent 1 570 # replicate 20 (Tick RESOLUTION)) (stats_new, 0, []) = Some (st, now, entries))"
  using stats_rate_exact [of "Sent 1 570 # replicate 20 (Tick RESOLUTION)" "stats_run (Sent 1 570 # replicate 20 (Tick RESOLUTION)) (stats_new, 0, [])"]
  by (auto simp: list_all_iff)

text \<open>
  An update clears the slot of the new time only. When the clock jumps over slots, what they hold
  is reported as sent within the last six seconds however old it is.
\<close>

lemma stats_jump_keeps_stale:
  "\<exists>st entries. stats_run [Sent 1 b, Tick (from_millis 6300)] (stats_new, 0, []) = Some (st, from_millis 6300, entries) \<and>
     logged (slot_live (time_slot (from_millis 6300))) entries = 0 \<and>
     bytes_sent_per_second st (from_millis 6300) = Some (Some (of_nat b / (57 / 10)))"
  by (simp add: stats_sent_packets_def stats_update_def stats_new_def stats_index_slot time_slot_def as_millis_def from_millis_def
      RESOLUTION_def slot_live_def bytes_sent_per_second_def bytes_per_second_def f64_div_def WINDOW_def as_secs_f64_def sum_list_update sum_list_replicate)

text \<open>
  With any counters of the right length the packet loss is computed without underflow, and it is at
  most one.
\<close>

lemma packet_loss_bound:
  assumes "stats_inv self"
  shows "\<exists>q. packet_loss self = Some q \<and> q \<le> 1"
proof -
  obtain a b where "settled_sum (packets_sent self) (current_index self) = Some a"
      "settled_sum (packets_acked self) (current_index self) = Some b"
    using assms settled_sum_Some unfolding stats_inv_def by metis
  then show ?thesis
    by (cases "a = 0") (auto simp: packet_loss_def divide_le_eq)
qed

end
