(* ===== verification/Channel_Config.thy ===== *)
theory Channel_Config
  imports Renet_Prelude
begin

text \<open>
  \<open>src/renet2/src/channel/mod.rs\<close> and the \<open>ConnectionConfig\<close> of \<open>src/renet2/src/remote_connection.rs\<close>.
  Constructors that several enums of the source share carry a prefix (\<open>ST_\<close> for \<open>SendType\<close>, \<open>DC_\<close> for
  \<open>DefaultChannel\<close>).
\<close>

datatype SendType =
    ST_Unreliable (ordered_substrate: bool)
  | ST_ReliableOrdered duration
  | ST_ReliableUnordered duration

record ChannelConfig =
  cfg_channel_id :: u8
  cfg_max_memory_usage_bytes :: nat
  cfg_send_type :: SendType

datatype DefaultChannel = DC_Unreliable | DC_ReliableOrdered | DC_ReliableUnordered

fun default_channel_id :: "DefaultChannel \<Rightarrow> u8" where
  "default_channel_id DC_Unreliable = 0"
| "default_channel_id DC_ReliableUnordered = 1"
| "default_channel_id DC_ReliableOrdered = 2"

definition default_config :: "ChannelConfig list" where
  "default_config =
     [\<lparr>cfg_channel_id = 0, cfg_max_memory_usage_bytes = 5 * 1024 * 1024, cfg_send_type = ST_Unreliable False\<rparr>,
      \<lparr>cfg_channel_id = 1, cfg_max_memory_usage_bytes = 5 * 1024 * 1024,
        cfg_send_type = ST_ReliableUnordered (from_millis 300)\<rparr>,
      \<lparr>cfg_channel_id = 2, cfg_max_memory_usage_bytes = 5 * 1024 * 1024,
        cfg_send_type = ST_ReliableOrdered (from_millis 300)\<rparr>]"

record ConnectionConfig =
  cc_available_bytes_per_tick :: nat
  server_channels_config :: "ChannelConfig list"
  client_channels_config :: "ChannelConfig list"

definition config_from_channels :: "ChannelConfig list \<Rightarrow> ChannelConfig list \<Rightarrow> ConnectionConfig" where
  "config_from_channels server client =
     \<lparr>cc_available_bytes_per_tick = 60000, server_channels_config = server, client_channels_config = client\<rparr>"

definition config_from_shared_channels :: "ChannelConfig list \<Rightarrow> ConnectionConfig" where
  "config_from_shared_channels channels = config_from_channels channels channels"

definition config_test :: ConnectionConfig where
  "config_test = config_from_shared_channels default_config"

definition downgrade_channel :: "ChannelConfig \<Rightarrow> ChannelConfig" where
  "downgrade_channel c =
     (case cfg_send_type c of ST_Unreliable _ \<Rightarrow> c | _ \<Rightarrow> c\<lparr>cfg_send_type := ST_Unreliable True\<rparr>)"

definition downgrade_to_unreliable :: "ConnectionConfig \<Rightarrow> ConnectionConfig" where
  "downgrade_to_unreliable self = self\<lparr>
     server_channels_config := map downgrade_channel (server_channels_config self),
     client_channels_config := map downgrade_channel (client_channels_config self)\<rparr>"

definition is_reliable :: "ChannelConfig \<Rightarrow> bool" where
  "is_reliable c \<longleftrightarrow> (case cfg_send_type c of ST_Unreliable _ \<Rightarrow> False | _ \<Rightarrow> True)"

lemma downgrade_channel_simps [simp]:
  "\<not> is_reliable (downgrade_channel c)" "cfg_channel_id (downgrade_channel c) = cfg_channel_id c"
  "cfg_max_memory_usage_bytes (downgrade_channel c) = cfg_max_memory_usage_bytes c"
  "\<not> is_reliable c \<Longrightarrow> downgrade_channel c = c"
  by (auto simp: is_reliable_def downgrade_channel_def split: SendType.splits)

end
