(* ===== verification/Remote_Connection.thy ===== *)
theory Remote_Connection
  imports Reliable_Delivery Channel_Unreliable_Send Channel_Unreliable_Receive Pending_Acks Connection_Stats
    Channel_Config
begin

text \<open>
  \<open>src/renet2/src/remote_connection.rs\<close>: \<open>RenetClient\<close>, one end of a connection. It owns the channels,
  numbers the packets, remembers what each packet in flight carried and keeps the statistics. A Rust
  panic is \<open>None\<close>; the constructors that several enums of the source share carry a prefix (\<open>CO_\<close> for
  \<open>ChannelOrder\<close>, \<open>SC_\<close> for \<open>SendChannel\<close>, \<open>RC_\<close> for \<open>ReceiveChannel\<close>, \<open>Sent_\<close> for \<open>PacketSentInfo\<close>).
  The round trip time is a rational number, without the rounding of \<open>f64\<close>.
\<close>

datatype PacketSentInfo =
    Sent_None
  | Sent_ReliableMessages u8 "nat list"
  | Sent_ReliableSliceMessage u8 nat nat
  | Sent_Ack nat

record PacketSent =
  sent_at :: duration
  sent_info :: PacketSentInfo

datatype ChannelOrder = CO_Reliable u8 | CO_Unreliable u8

datatype SendChannel = SC_Empty | SC_Unreliable send_channel_unreliable | SC_Reliable send_channel_reliable

datatype ReceiveChannel = RC_Empty | RC_Unreliable receive_channel_unreliable | RC_Reliable receive_channel_reliable

datatype RenetConnectionStatus = Connected | Connecting | Disconnected DisconnectReason

record renet_client =
  has_reliable_socket :: bool
  next_sequence :: nat
  current_time :: duration
  sent_packets :: "(nat, PacketSent) btree_map"
  pending_acks :: "ack_range list"
  channel_send_order :: "ChannelOrder list"
  send_channels :: "SendChannel list"
  receive_channels :: "ReceiveChannel list"
  conn_stats :: connection_stats
  available_bytes_per_tick :: nat
  connection_status :: RenetConnectionStatus
  rtt :: rat

record NetworkInfo =
  ni_rtt :: rat
  ni_packet_loss :: rat
  ni_bytes_sent_per_second :: "rat option"
  ni_bytes_received_per_second :: "rat option"

subsection \<open>Construction\<close>

definition max_channel :: "ChannelConfig list \<Rightarrow> nat" where
  "max_channel configs = foldr (\<lambda>c n. max (unat (cfg_channel_id c)) n) configs 0"

definition make_send_channel :: "ChannelConfig \<Rightarrow> ChannelOrder \<times> SendChannel" where
  "make_send_channel c = (case cfg_send_type c of
     ST_Unreliable substrate \<Rightarrow> (CO_Unreliable (cfg_channel_id c),
       SC_Unreliable (scu_new (cfg_channel_id c) (cfg_max_memory_usage_bytes c) substrate))
   | ST_ReliableOrdered rt \<Rightarrow> (CO_Reliable (cfg_channel_id c),
       SC_Reliable (scr_new (cfg_channel_id c) rt (cfg_max_memory_usage_bytes c)))
   | ST_ReliableUnordered rt \<Rightarrow> (CO_Reliable (cfg_channel_id c),
       SC_Reliable (scr_new (cfg_channel_id c) rt (cfg_max_memory_usage_bytes c))))"

fun make_send_channels ::
  "ChannelConfig list \<Rightarrow> ChannelOrder list \<Rightarrow> SendChannel list \<Rightarrow> (ChannelOrder list \<times> SendChannel list) option" where
  "make_send_channels [] order channels = Some (order, channels)"
| "make_send_channels (c # cs) order channels = do {
     channel \<leftarrow> index channels (unat (cfg_channel_id c));
     if channel \<noteq> SC_Empty then None
     else do {
       let (entry, channel) = make_send_channel c;
       channels \<leftarrow> set_index channels (unat (cfg_channel_id c)) channel;
       make_send_channels cs (order @ [entry]) channels
     }
   }"

definition make_receive_channel :: "ChannelConfig \<Rightarrow> ReceiveChannel" where
  "make_receive_channel c = (case cfg_send_type c of
     ST_Unreliable _ \<Rightarrow> RC_Unreliable (rcu_new (cfg_channel_id c) (cfg_max_memory_usage_bytes c))
   | ST_ReliableOrdered _ \<Rightarrow> RC_Reliable (rcr_new (cfg_max_memory_usage_bytes c) True)
   | ST_ReliableUnordered _ \<Rightarrow> RC_Reliable (rcr_new (cfg_max_memory_usage_bytes c) False))"

fun make_receive_channels :: "ChannelConfig list \<Rightarrow> ReceiveChannel list \<Rightarrow> ReceiveChannel list option" where
  "make_receive_channels [] channels = Some channels"
| "make_receive_channels (c # cs) channels = do {
     channel \<leftarrow> index channels (unat (cfg_channel_id c));
     if channel \<noteq> RC_Empty then None
     else do {
       channels \<leftarrow> set_index channels (unat (cfg_channel_id c)) (make_receive_channel c);
       make_receive_channels cs channels
     }
   }"

definition client_from_channels ::
  "bool \<Rightarrow> nat \<Rightarrow> ChannelConfig list \<Rightarrow> ChannelConfig list \<Rightarrow> renet_client option" where
  "client_from_channels reliable_socket bytes_per_tick send_config receive_config = do {
     (order, send) \<leftarrow> make_send_channels send_config [] (replicate (max_channel send_config + 1) SC_Empty);
     receive \<leftarrow> make_receive_channels receive_config (replicate (max_channel receive_config + 1) RC_Empty);
     Some \<lparr>has_reliable_socket = reliable_socket, next_sequence = 0, current_time = 0, sent_packets = [],
       pending_acks = [], channel_send_order = order, send_channels = send, receive_channels = receive,
       conn_stats = stats_new, available_bytes_per_tick = bytes_per_tick, connection_status = Connecting, rtt = 0\<rparr>
   }"

definition client_new :: "ConnectionConfig \<Rightarrow> bool \<Rightarrow> renet_client option" where
  "client_new config reliable_socket =
     (let config = (if reliable_socket then downgrade_to_unreliable config else config)
      in client_from_channels reliable_socket (cc_available_bytes_per_tick config)
           (client_channels_config config) (server_channels_config config))"

definition client_new_from_server :: "ConnectionConfig \<Rightarrow> bool \<Rightarrow> renet_client option" where
  "client_new_from_server config reliable_socket =
     (let config = (if reliable_socket then downgrade_to_unreliable config else config)
      in client_from_channels reliable_socket (cc_available_bytes_per_tick config)
           (server_channels_config config) (client_channels_config config))"

subsection \<open>Status\<close>

definition client_packet_loss :: "renet_client \<Rightarrow> rat option" where
  "client_packet_loss self = packet_loss (conn_stats self)"

definition client_bytes_sent_per_sec :: "renet_client \<Rightarrow> rat option option" where
  "client_bytes_sent_per_sec self = bytes_sent_per_second (conn_stats self) (current_time self)"

definition client_bytes_received_per_sec :: "renet_client \<Rightarrow> rat option option" where
  "client_bytes_received_per_sec self = bytes_received_per_second (conn_stats self) (current_time self)"

definition network_info :: "renet_client \<Rightarrow> NetworkInfo option" where
  "network_info self = do {
     loss \<leftarrow> packet_loss (conn_stats self);
     out \<leftarrow> bytes_sent_per_second (conn_stats self) (current_time self);
     inc \<leftarrow> bytes_received_per_second (conn_stats self) (current_time self);
     Some \<lparr>ni_rtt = rtt self, ni_packet_loss = loss, ni_bytes_sent_per_second = out,
       ni_bytes_received_per_second = inc\<rparr>
   }"

definition is_connected :: "renet_client \<Rightarrow> bool" where
  "is_connected self \<longleftrightarrow> (case connection_status self of Connected \<Rightarrow> True | _ \<Rightarrow> False)"

definition is_connecting :: "renet_client \<Rightarrow> bool" where
  "is_connecting self \<longleftrightarrow> (case connection_status self of Connecting \<Rightarrow> True | _ \<Rightarrow> False)"

definition is_disconnected :: "renet_client \<Rightarrow> bool" where
  "is_disconnected self \<longleftrightarrow> (case connection_status self of Disconnected _ \<Rightarrow> True | _ \<Rightarrow> False)"

definition disconnect_reason :: "renet_client \<Rightarrow> DisconnectReason option" where
  "disconnect_reason self = (case connection_status self of Disconnected reason \<Rightarrow> Some reason | _ \<Rightarrow> None)"

definition set_connected :: "renet_client \<Rightarrow> renet_client" where
  "set_connected self = (if \<not> is_disconnected self then self\<lparr>connection_status := Connected\<rparr> else self)"

definition set_connecting :: "renet_client \<Rightarrow> renet_client" where
  "set_connecting self = (if \<not> is_disconnected self then self\<lparr>connection_status := Connecting\<rparr> else self)"

definition disconnect_with_reason :: "renet_client \<Rightarrow> DisconnectReason \<Rightarrow> renet_client" where
  "disconnect_with_reason self reason =
     (if \<not> is_disconnected self then self\<lparr>connection_status := Disconnected reason\<rparr> else self)"

definition client_disconnect :: "renet_client \<Rightarrow> renet_client" where
  "client_disconnect self = disconnect_with_reason self DisconnectedByClient"

definition disconnect_due_to_transport :: "renet_client \<Rightarrow> renet_client" where
  "disconnect_due_to_transport self = disconnect_with_reason self Transport"

subsection \<open>The application's side\<close>

text \<open>\<open>get(i)\<close> of a vector: unlike indexing it does not panic.\<close>

definition vec_get :: "'a list \<Rightarrow> nat \<Rightarrow> 'a option" where
  "vec_get xs i = (if i < length xs then Some (xs ! i) else None)"

definition channel_available_memory :: "renet_client \<Rightarrow> u8 \<Rightarrow> nat option" where
  "channel_available_memory self channel_id =
     (case vec_get (send_channels self) (unat channel_id) of
        None \<Rightarrow> None
      | Some SC_Empty \<Rightarrow> None
      | Some (SC_Reliable channel) \<Rightarrow> scr_available_memory channel
      | Some (SC_Unreliable channel) \<Rightarrow> scu_available_memory channel)"

definition client_can_send_message :: "renet_client \<Rightarrow> u8 \<Rightarrow> nat \<Rightarrow> bool option" where
  "client_can_send_message self channel_id size_bytes =
     (case vec_get (send_channels self) (unat channel_id) of
        None \<Rightarrow> None
      | Some SC_Empty \<Rightarrow> None
      | Some (SC_Reliable channel) \<Rightarrow> Some (scr_can_send_message channel size_bytes)
      | Some (SC_Unreliable channel) \<Rightarrow> Some (scu_can_send_message channel size_bytes))"

text \<open>\<open>*self.send_channels.get_mut(i) = channel\<close>, and the same for the receive channels.\<close>

definition put_send_channel :: "renet_client \<Rightarrow> u8 \<Rightarrow> SendChannel \<Rightarrow> renet_client" where
  "put_send_channel self channel_id channel = self\<lparr>send_channels := (send_channels self)[unat channel_id := channel]\<rparr>"

definition put_receive_channel :: "renet_client \<Rightarrow> u8 \<Rightarrow> ReceiveChannel \<Rightarrow> renet_client" where
  "put_receive_channel self channel_id channel =
     self\<lparr>receive_channels := (receive_channels self)[unat channel_id := channel]\<rparr>"

definition client_send_message :: "renet_client \<Rightarrow> u8 \<Rightarrow> bytes \<Rightarrow> renet_client option" where
  "client_send_message self channel_id message =
     (if is_disconnected self then Some self
      else case vec_get (send_channels self) (unat channel_id) of
        None \<Rightarrow> None
      | Some SC_Empty \<Rightarrow> None
      | Some (SC_Reliable channel) \<Rightarrow>
          (case scr_send_message channel message of
             (channel, Inl e) \<Rightarrow> Some (disconnect_with_reason (put_send_channel self channel_id (SC_Reliable channel))
                (SendChannelError channel_id e))
           | (channel, Inr _) \<Rightarrow> Some (put_send_channel self channel_id (SC_Reliable channel)))
      | Some (SC_Unreliable channel) \<Rightarrow>
          Some (put_send_channel self channel_id (SC_Unreliable (scu_send_message channel message))))"

definition client_receive_message :: "renet_client \<Rightarrow> u8 \<Rightarrow> (renet_client \<times> bytes option) option" where
  "client_receive_message self channel_id =
     (if is_disconnected self then Some (self, None)
      else case vec_get (receive_channels self) (unat channel_id) of
        None \<Rightarrow> None
      | Some RC_Empty \<Rightarrow> None
      | Some (RC_Reliable channel) \<Rightarrow> do {
          (channel, message) \<leftarrow> rcr_receive_message channel;
          Some (put_receive_channel self channel_id (RC_Reliable channel), message)
        }
      | Some (RC_Unreliable channel) \<Rightarrow> do {
          (channel, message) \<leftarrow> rcu_receive_message channel;
          Some (put_receive_channel self channel_id (RC_Unreliable channel), message)
        })"

subsection \<open>Time\<close>

fun discard_old :: "duration \<Rightarrow> ReceiveChannel list \<Rightarrow> ReceiveChannel list option" where
  "discard_old now [] = Some []"
| "discard_old now (RC_Unreliable channel # channels) = do {
     channel \<leftarrow> discard_incomplete_old_slices channel now;
     channels \<leftarrow> discard_old now channels;
     Some (RC_Unreliable channel # channels)
   }"
| "discard_old now (channel # channels) = do {
     channels \<leftarrow> discard_old now channels;
     Some (channel # channels)
   }"

fun lost_packets :: "duration \<Rightarrow> (nat, PacketSent) btree_map \<Rightarrow> nat list option" where
  "lost_packets now [] = Some []"
| "lost_packets now ((sequence, sent_packet) # sent) = do {
     age \<leftarrow> checked_sub now (sent_at sent_packet);
     if age \<ge> DISCARD_AFTER then do {
       lost \<leftarrow> lost_packets now sent;
       Some (sequence # lost)
     } else Some []
   }"

definition client_update :: "renet_client \<Rightarrow> duration \<Rightarrow> renet_client option" where
  "client_update self duration = do {
     let self = self\<lparr>current_time := current_time self + duration\<rparr>;
     st \<leftarrow> stats_update (conn_stats self) (current_time self);
     channels \<leftarrow> discard_old (current_time self) (receive_channels self);
     lost \<leftarrow> lost_packets (current_time self) (sent_packets self);
     Some (self\<lparr>conn_stats := st, receive_channels := channels,
       sent_packets := fold bt_remove lost (sent_packets self)\<rparr>)
   }"

subsection \<open>Receiving a packet\<close>

definition f64_EPSILON :: rat where
  "f64_EPSILON = 1 / 2 ^ 52"

text \<open>\<open>self.sent_packets.range(range)\<close> panics when the range starts after its end.\<close>

fun collect_acks :: "(nat, PacketSent) btree_map \<Rightarrow> ack_range list \<Rightarrow> nat list option" where
  "collect_acks sent [] = Some []"
| "collect_acks sent ((start, end) # ranges) =
     (if start > end then None
      else do {
        acks \<leftarrow> collect_acks sent ranges;
        Some (bt_range_keys start end sent @ acks)
      })"

definition update_rtt :: "rat \<Rightarrow> rat \<Rightarrow> rat" where
  "update_rtt old sample = (if old < f64_EPSILON then sample else old * 875 / 1000 + sample * 125 / 1000)"

text \<open>What an acknowledged packet carried is handed to its channel.\<close>

definition deliver_ack :: "renet_client \<Rightarrow> PacketSentInfo \<Rightarrow> renet_client option" where
  "deliver_ack self info =
     (case info of
        Sent_ReliableMessages channel_id message_ids \<Rightarrow>
          (case vec_get (send_channels self) (unat channel_id) of
             Some (SC_Reliable channel) \<Rightarrow> do {
               channel \<leftarrow> scr_process_message_acks channel message_ids;
               Some (put_send_channel self channel_id (SC_Reliable channel))
             }
           | _ \<Rightarrow> None)
      | Sent_ReliableSliceMessage channel_id mid idx \<Rightarrow>
          (case vec_get (send_channels self) (unat channel_id) of
             Some (SC_Reliable channel) \<Rightarrow> do {
               channel \<leftarrow> scr_process_slice_message_ack channel mid idx;
               Some (put_send_channel self channel_id (SC_Reliable channel))
             }
           | _ \<Rightarrow> None)
      | Sent_Ack largest_acked_packet \<Rightarrow> Some (self\<lparr>pending_acks := acked_largest (pending_acks self) largest_acked_packet\<rparr>)
      | Sent_None \<Rightarrow> Some self)"

definition ack_packet :: "renet_client \<Rightarrow> nat \<Rightarrow> renet_client option" where
  "ack_packet self sequence = do {
     sent_packet \<leftarrow> bt_get (sent_packets self) sequence;
     let self = self\<lparr>sent_packets := bt_remove sequence (sent_packets self)\<rparr>;
     st \<leftarrow> stats_acked_packet (conn_stats self) (sent_at sent_packet) (current_time self);
     age \<leftarrow> checked_sub (current_time self) (sent_at sent_packet);
     let self = self\<lparr>conn_stats := st, rtt := update_rtt (rtt self) (as_secs_f64 age)\<rparr>;
     deliver_ack self (sent_info sent_packet)
   }"

fun ack_packets :: "renet_client \<Rightarrow> nat list \<Rightarrow> renet_client option" where
  "ack_packets self [] = Some self"
| "ack_packets self (sequence # sequences) = do {
     self \<leftarrow> ack_packet self sequence;
     ack_packets self sequences
   }"

text \<open>The \<open>match packet\<close> of \<open>process_packet\<close>.\<close>

fun handle_packet :: "renet_client \<Rightarrow> Packet \<Rightarrow> renet_client option" where
  "handle_packet self (SmallReliable _ channel_id messages) =
     (case vec_get (receive_channels self) (unat channel_id) of
        Some (RC_Reliable channel) \<Rightarrow>
          (case rcr_process_messages channel messages of
             (channel, Inl e) \<Rightarrow> Some (disconnect_with_reason (put_receive_channel self channel_id (RC_Reliable channel))
                (ReceiveChannelError channel_id e))
           | (channel, Inr _) \<Rightarrow> Some (put_receive_channel self channel_id (RC_Reliable channel)))
      | _ \<Rightarrow> Some (disconnect_with_reason self (ReceivedInvalidChannelId channel_id)))"
| "handle_packet self (SmallUnreliable _ channel_id messages) =
     (case vec_get (receive_channels self) (unat channel_id) of
        Some (RC_Unreliable channel) \<Rightarrow>
          Some (put_receive_channel self channel_id
            (RC_Unreliable (fold (\<lambda>message channel. rcu_process_message channel message) messages channel)))
      | _ \<Rightarrow> Some (disconnect_with_reason self (ReceivedInvalidChannelId channel_id)))"
| "handle_packet self (ReliableSlice _ channel_id sl) =
     (case vec_get (receive_channels self) (unat channel_id) of
        Some (RC_Reliable channel) \<Rightarrow> do {
          (channel, r) \<leftarrow> rcr_process_slice channel sl;
          let self = put_receive_channel self channel_id (RC_Reliable channel);
          Some (case r of Inl e \<Rightarrow> disconnect_with_reason self (ReceiveChannelError channel_id e) | Inr _ \<Rightarrow> self)
        }
      | _ \<Rightarrow> Some (disconnect_with_reason self (ReceivedInvalidChannelId channel_id)))"
| "handle_packet self (UnreliableSlice _ channel_id sl) =
     (case vec_get (receive_channels self) (unat channel_id) of
        Some (RC_Unreliable channel) \<Rightarrow> do {
          (channel, r) \<leftarrow> rcu_process_slice channel sl (current_time self);
          let self = put_receive_channel self channel_id (RC_Unreliable channel);
          Some (case r of Inl e \<Rightarrow> disconnect_with_reason self (ReceiveChannelError channel_id e) | Inr _ \<Rightarrow> self)
        }
      | _ \<Rightarrow> Some (disconnect_with_reason self (ReceivedInvalidChannelId channel_id)))"
| "handle_packet self (Ack _ ack_ranges) = do {
     new_acks \<leftarrow> collect_acks (sent_packets self) ack_ranges;
     ack_packets self new_acks
   }"

definition client_process_packet :: "octets_lib \<Rightarrow> renet_client \<Rightarrow> bytes \<Rightarrow> renet_client option" where
  "client_process_packet lib self packet =
     (if is_disconnected self then Some self
      else do {
        st \<leftarrow> stats_received_packet (conn_stats self) (length packet);
        let self = self\<lparr>conn_stats := st\<rparr>;
        case from_bytes lib packet of
          Panic \<Rightarrow> None
        | Err e \<Rightarrow> Some (disconnect_with_reason self (PacketDeserialization e))
        | Ok (packet, _) \<Rightarrow>
            handle_packet (self\<lparr>pending_acks := add_pending_ack (pending_acks self) (packet_sequence packet)\<rparr>) packet
      })"

subsection \<open>Sending packets\<close>

fun channel_packets ::
  "octets_lib \<Rightarrow> duration \<Rightarrow> ChannelOrder list \<Rightarrow> SendChannel list \<times> nat \<times> nat \<times> Packet list \<Rightarrow>
   (SendChannel list \<times> nat \<times> nat \<times> Packet list) option" where
  "channel_packets lib now [] st = Some st"
| "channel_packets lib now (CO_Reliable channel_id # order) (channels, sequence, available, packets) =
     (case vec_get channels (unat channel_id) of
        Some (SC_Reliable channel) \<Rightarrow> do {
          (channel, sequence, available, new) \<leftarrow> scr_get_packets_to_send lib channel sequence available now;
          channel_packets lib now order (channels[unat channel_id := SC_Reliable channel], sequence, available, packets @ new)
        }
      | _ \<Rightarrow> None)"
| "channel_packets lib now (CO_Unreliable channel_id # order) (channels, sequence, available, packets) =
     (case vec_get channels (unat channel_id) of
        Some (SC_Unreliable channel) \<Rightarrow> do {
          (channel, sequence, available, new) \<leftarrow> scu_get_packets_to_send lib channel sequence available;
          channel_packets lib now order (channels[unat channel_id := SC_Unreliable channel], sequence, available, packets @ new)
        }
      | _ \<Rightarrow> None)"

text \<open>The entry of \<open>sent_packets\<close> for a packet; \<open>last().unwrap()\<close> and \<open>end - 1\<close> of an ack may panic.\<close>

fun packet_sent_info :: "Packet \<Rightarrow> PacketSentInfo option" where
  "packet_sent_info (SmallReliable _ channel_id messages) = Some (Sent_ReliableMessages channel_id (map fst messages))"
| "packet_sent_info (ReliableSlice _ channel_id sl) =
     Some (Sent_ReliableSliceMessage channel_id (message_id sl) (slice_index sl))"
| "packet_sent_info (SmallUnreliable _ _ _) = Some Sent_None"
| "packet_sent_info (UnreliableSlice _ _ _) = Some Sent_None"
| "packet_sent_info (Ack _ ack_ranges) =
     (if ack_ranges = [] then None
      else do {
        largest \<leftarrow> checked_sub (snd (last ack_ranges)) 1;
        Some (Sent_Ack largest)
      })"

fun record_sent :: "duration \<Rightarrow> Packet list \<Rightarrow> (nat, PacketSent) btree_map \<Rightarrow> (nat, PacketSent) btree_map option" where
  "record_sent now [] sent = Some sent"
| "record_sent now (packet # packets) sent = do {
     info \<leftarrow> packet_sent_info packet;
     record_sent now packets (bt_insert (packet_sequence packet) \<lparr>sent_at = now, sent_info = info\<rparr> sent)
   }"

text \<open>The buffer is written from its start for every packet; the payload is \<open>buffer[..len]\<close>.\<close>

fun serialize_packets :: "octets_lib \<Rightarrow> Packet list \<Rightarrow> (SerializationError, bytes list) outcome" where
  "serialize_packets lib [] = Ok []"
| "serialize_packets lib (packet # packets) =
     and_then (to_bytes lib packet (with_slice 1400)) (\<lambda>(len, oct).
     and_then (serialize_packets lib packets) (\<lambda>serialized.
     Ok (take len (om_written oct) # serialized)))"

definition client_get_packets_to_send :: "octets_lib \<Rightarrow> renet_client \<Rightarrow> (renet_client \<times> bytes list) option" where
  "client_get_packets_to_send lib self =
     (if is_disconnected self then Some (self, [])
      else do {
        (channels, sequence, _, packets) \<leftarrow> channel_packets lib (current_time self) (channel_send_order self)
          (send_channels self, next_sequence self, available_bytes_per_tick self, []);
        let (sequence, packets) =
          (if pending_acks self \<noteq> [] then (sequence + 1, packets @ [Ack sequence (pending_acks self)])
           else (sequence, packets));
        sent \<leftarrow> record_sent (current_time self) packets (sent_packets self);
        let self = self\<lparr>send_channels := channels, next_sequence := sequence, sent_packets := sent\<rparr>;
        case serialize_packets lib packets of
          Panic \<Rightarrow> None
        | Err e \<Rightarrow> Some (disconnect_with_reason self (PacketSerialization e), [])
        | Ok serialized \<Rightarrow> do {
            st \<leftarrow> stats_sent_packets (conn_stats self) (length serialized) (sum_list (map length serialized));
            Some (self\<lparr>conn_stats := st\<rparr>, serialized)
          }
      })"

end
