(* ===== verification/Connection_Invariant.thy ===== *)
theory Connection_Invariant
  imports Remote_Connection
begin

text \<open>
  The invariant of a connection and that every operation keeps it. It ties the record of the packets in
  flight to the send channels: what a packet carried is either acknowledged or still held in the shape
  in which it was sent, which is why acknowledgements, although chosen by the peer, never panic.
\<close>

subsection \<open>Steps of one send channel\<close>

fun um_shape :: "UnackedMessage \<Rightarrow> nat option" where
  "um_shape (Small _ _) = None"
| "um_shape (Sliced _ n _ _ _ _) = Some n"

text \<open>Messages that had an id before are the same kind as before, or gone.\<close>

definition scr_step :: "send_channel_reliable \<Rightarrow> send_channel_reliable \<Rightarrow> bool" where
  "scr_step c c' \<longleftrightarrow> scr_channel_id c' = scr_channel_id c \<and> next_reliable_message_id c \<le> next_reliable_message_id c' \<and>
     (\<forall>mid u'. mid < next_reliable_message_id c \<longrightarrow> bt_get (unacked_messages c') mid = Some u' \<longrightarrow>
        (\<exists>u. bt_get (unacked_messages c) mid = Some u \<and> um_shape u = um_shape u'))"

lemma scr_step_refl: "scr_step c c"
  by (simp add: scr_step_def)

lemma scr_step_trans: "scr_step a b \<Longrightarrow> scr_step b c \<Longrightarrow> scr_step a c"
  unfolding scr_step_def by (metis order_less_le_trans order_trans)

lemma um_shape_core: "um_core u = um_core u' \<Longrightarrow> um_shape u = um_shape u'"
  by (cases u; cases u') auto

lemma um_shape_iff:
  "um_shape u = None \<longleftrightarrow> (\<exists>m ls. u = Small m ls)"
  "um_shape u = Some n \<longleftrightarrow> (\<exists>m na nx ack ls. u = Sliced m n na nx ack ls)"
  by (cases u; auto)+

lemma scr_step_send: "scr_step c (fst (scr_send_message c m))"
  by (auto simp: scr_step_def scr_send_message_def Let_def bt_map_simps)

lemma scr_step_packets:
  assumes "scr_inv now c"
  obtains c' s' a' ps where "scr_get_packets_to_send lib c s a now = Some (c', s', a', ps)"
    and "scr_inv now c'" and "scr_step c c'" and "map packet_sequence ps = [s..<s']" and "s \<le> s'"
    and "a' + payload_bytes ps = a"
    and "\<forall>p \<in> set ps. carries (scr_channel_id c) (bt_get (unacked_messages c)) p \<and> small_fits lib p"
    and "ums_core (unacked_messages c') = ums_core (unacked_messages c)"
proof -
  obtain ums' s' a' ps where
    run: "scr_get_packets_to_send lib c s a now = Some (c\<lparr>unacked_messages := ums'\<rparr>, s', a', ps)"
    "ums_core ums' = ums_core (unacked_messages c)" "scr_inv now (c\<lparr>unacked_messages := ums'\<rparr>)"
    "map packet_sequence ps = [s..<s']" "s \<le> s'" "a' + payload_bytes ps = a"
    "\<forall>p \<in> set ps. carries (scr_channel_id c) (bt_get (unacked_messages c)) p \<and> small_fits lib p"
    using scr_get_packets_spec [OF assms, of lib s a] by (elim exE conjE)
  have "map_option um_core (bt_get ums' k) = map_option um_core (bt_get (unacked_messages c) k)" for k
    by (simp add: ums_core_get run(2))
  then have "scr_step c (c\<lparr>unacked_messages := ums'\<rparr>)"
    unfolding scr_step_def by (fastforce simp: map_option_case split: option.splits dest: um_shape_core)
  with run that show thesis
    by simp
qed

lemma scr_step_ack:
  assumes "scr_inv now c" and "mid < next_reliable_message_id c"
    and "\<forall>u. bt_get (unacked_messages c) mid = Some u \<longrightarrow> um_shape u = None"
  obtains c' where "scr_process_message_ack c mid = Some c'" and "scr_inv now c'" and "scr_step c c'"
proof -
  obtain c' where c': "scr_process_message_ack c mid = Some c'" "scr_inv now c'"
      "unacked_messages c' = bt_remove mid (unacked_messages c)"
      "next_reliable_message_id c' = next_reliable_message_id c" "scr_channel_id c' = scr_channel_id c"
    using scr_process_message_ack_spec [OF assms(1), of mid] assms(3) um_shape_iff by blast
  then have "scr_step c c'"
    by (auto simp: scr_step_def bt_map_simps split: if_splits)
  with c' that show thesis
    by blast
qed

lemma scr_step_acks:
  assumes "scr_inv now c"
    and "\<forall>mid \<in> set mids. mid < next_reliable_message_id c \<and>
      (\<forall>u. bt_get (unacked_messages c) mid = Some u \<longrightarrow> um_shape u = None)"
  shows "\<exists>c'. scr_process_message_acks c mids = Some c' \<and> scr_inv now c' \<and> scr_step c c'"
  using assms
proof (induction mids arbitrary: c)
  case Nil
  then show ?case
    by (simp add: scr_step_refl)
next
  case (Cons mid mids)
  obtain c1 where c1: "scr_process_message_ack c mid = Some c1" "scr_inv now c1" "scr_step c c1"
    by (rule scr_step_ack [OF Cons.prems(1), of mid]) (use Cons.prems(2) in simp_all)
  have "\<forall>mid \<in> set mids. mid < next_reliable_message_id c1 \<and>
      (\<forall>u. bt_get (unacked_messages c1) mid = Some u \<longrightarrow> um_shape u = None)"
    using Cons.prems(2) c1(3) unfolding scr_step_def by (metis list.set_intros(2) order_less_le_trans)
  from Cons.IH [OF c1(2) this] obtain c2 where "scr_process_message_acks c1 mids = Some c2" "scr_inv now c2" "scr_step c1 c2"
    by blast
  with c1 show ?case
    using scr_step_trans by auto
qed

lemma scr_step_slice_ack:
  assumes "scr_inv now c"
    and "\<forall>u. bt_get (unacked_messages c) mid = Some u \<longrightarrow> (\<exists>n. um_shape u = Some n \<and> idx < n)"
  shows "\<exists>c'. scr_process_slice_message_ack c mid idx = Some c' \<and> scr_inv now c' \<and> scr_step c c'"
proof -
  have "\<forall>u. bt_get (unacked_messages c) mid = Some u \<longrightarrow> (\<exists>m n na nx ack ls. u = Sliced m n na nx ack ls \<and> idx < n)"
    using assms(2) um_shape_iff(2) by blast
  from scr_process_slice_message_ack_spec [OF assms(1) this] obtain c' where
    c': "scr_process_slice_message_ack c mid idx = Some c'" "scr_inv now c'"
    "next_reliable_message_id c' = next_reliable_message_id c" "scr_channel_id c' = scr_channel_id c"
    "\<forall>k. k \<noteq> mid \<longrightarrow> bt_get (unacked_messages c') k = bt_get (unacked_messages c) k"
    "\<forall>u'. bt_get (unacked_messages c') mid = Some u' \<longrightarrow>
        (\<exists>m n na na' nx ack ls. bt_get (unacked_messages c) mid = Some (Sliced m n na nx ack ls) \<and>
           u' = Sliced m n na' nx (ack[idx := True]) ls)"
    by (elim exE conjE)
  have "scr_step c c'"
    unfolding scr_step_def
  proof (intro conjI allI impI)
    fix k u'
    assume get: "bt_get (unacked_messages c') k = Some u'"
    show "\<exists>u. bt_get (unacked_messages c) k = Some u \<and> um_shape u = um_shape u'"
      using get c'(5,6) by (cases "k = mid") auto
  qed (simp_all add: c'(3,4))
  with c'(1,2) show ?thesis
    by blast
qed

subsection \<open>Steps of the list of send channels\<close>

fun send_channel_ok :: "duration \<Rightarrow> nat \<Rightarrow> SendChannel \<Rightarrow> bool" where
  "send_channel_ok now i SC_Empty \<longleftrightarrow> True"
| "send_channel_ok now i (SC_Unreliable c) \<longleftrightarrow> scu_inv c"
| "send_channel_ok now i (SC_Reliable c) \<longleftrightarrow> scr_inv now c \<and> unat (scr_channel_id c) = i"

fun send_channel_step :: "SendChannel \<Rightarrow> SendChannel \<Rightarrow> bool" where
  "send_channel_step SC_Empty SC_Empty \<longleftrightarrow> True"
| "send_channel_step (SC_Unreliable _) (SC_Unreliable _) \<longleftrightarrow> True"
| "send_channel_step (SC_Reliable c) (SC_Reliable c') \<longleftrightarrow> scr_step c c'"
| "send_channel_step _ _ \<longleftrightarrow> False"

lemma send_channel_step_refl: "send_channel_step c c"
  by (cases c) (auto simp: scr_step_refl)

lemma send_channel_step_trans: "send_channel_step a b \<Longrightarrow> send_channel_step b c \<Longrightarrow> send_channel_step a c"
  by (cases a; cases b; cases c) (auto intro: scr_step_trans)

definition channels_ok :: "duration \<Rightarrow> SendChannel list \<Rightarrow> bool" where
  "channels_ok now cs \<longleftrightarrow> (\<forall>i < length cs. send_channel_ok now i (cs ! i))"

definition channels_step :: "SendChannel list \<Rightarrow> SendChannel list \<Rightarrow> bool" where
  "channels_step cs cs' \<longleftrightarrow> list_all2 send_channel_step cs cs'"

lemma channels_step_refl: "channels_step cs cs"
  by (simp add: channels_step_def list_all2_refl send_channel_step_refl)

lemma channels_step_trans: "channels_step a b \<Longrightarrow> channels_step b c \<Longrightarrow> channels_step a c"
  unfolding channels_step_def by (rule list_all2_trans [OF send_channel_step_trans])

lemma channels_put:
  assumes "channels_ok now cs" "vec_get cs i = Some c" "send_channel_ok now i c'" "send_channel_step c c'"
  shows "channels_ok now (cs[i := c']) \<and> channels_step cs (cs[i := c'])"
proof -
  have i: "i < length cs" "cs ! i = c"
    using assms(2) by (auto simp: vec_get_def split: if_splits)
  have "channels_step cs (cs[i := c'])"
    unfolding channels_step_def
    by (rule list_all2_all_nthI) (use assms(4) i send_channel_step_refl in \<open>auto simp: nth_list_update\<close>)
  with assms(1,3) i show ?thesis
    by (auto simp: channels_ok_def nth_list_update)
qed

lemma channels_ok_get: "channels_ok now cs \<Longrightarrow> vec_get cs i = Some c \<Longrightarrow> send_channel_ok now i c"
  by (auto simp: channels_ok_def vec_get_def split: if_splits)

lemma send_channel_ok_mono: "send_channel_ok now i c \<Longrightarrow> now \<le> now' \<Longrightarrow> send_channel_ok now' i c"
  by (cases c) (auto intro: scr_inv_mono)

lemma channels_step_get:
  "channels_step cs cs' \<Longrightarrow> vec_get cs i = Some c \<Longrightarrow> \<exists>c'. vec_get cs' i = Some c' \<and> send_channel_step c c'"
  by (auto simp: channels_step_def vec_get_def list_all2_conv_all_nth split: if_splits)

lemma send_channel_step_cases:
  "send_channel_step (SC_Reliable c) x \<Longrightarrow> \<exists>c'. x = SC_Reliable c' \<and> scr_step c c'"
  "send_channel_step (SC_Unreliable u) x \<Longrightarrow> \<exists>u'. x = SC_Unreliable u'"
  by (cases x; simp)+

text \<open>The order lists channels of the right kind.\<close>

fun order_ok :: "SendChannel list \<Rightarrow> ChannelOrder \<Rightarrow> bool" where
  "order_ok cs (CO_Reliable i) \<longleftrightarrow> (\<exists>c. vec_get cs (unat i) = Some (SC_Reliable c))"
| "order_ok cs (CO_Unreliable i) \<longleftrightarrow> (\<exists>c. vec_get cs (unat i) = Some (SC_Unreliable c))"

lemma order_ok_step: "order_ok cs ord \<Longrightarrow> channels_step cs cs' \<Longrightarrow> order_ok cs' ord"
  by (cases ord) (auto dest!: channels_step_get send_channel_step_cases)

text \<open>What a packet in flight carried is known to its channel.\<close>

fun info_ok :: "SendChannel list \<Rightarrow> PacketSentInfo \<Rightarrow> bool" where
  "info_ok cs (Sent_ReliableMessages i mids) \<longleftrightarrow> (\<exists>c. vec_get cs (unat i) = Some (SC_Reliable c) \<and>
     (\<forall>mid \<in> set mids. mid < next_reliable_message_id c \<and>
        (\<forall>u. bt_get (unacked_messages c) mid = Some u \<longrightarrow> um_shape u = None)))"
| "info_ok cs (Sent_ReliableSliceMessage i mid idx) \<longleftrightarrow> (\<exists>c. vec_get cs (unat i) = Some (SC_Reliable c) \<and>
     mid < next_reliable_message_id c \<and>
     (\<forall>u. bt_get (unacked_messages c) mid = Some u \<longrightarrow> (\<exists>n. um_shape u = Some n \<and> idx < n)))"
| "info_ok cs _ \<longleftrightarrow> True"

lemma info_ok_step: "info_ok cs info \<Longrightarrow> channels_step cs cs' \<Longrightarrow> info_ok cs' info"
proof (cases info)
  case (Sent_ReliableMessages i mids)
  assume "info_ok cs info" and step: "channels_step cs cs'"
  then obtain c where c: "vec_get cs (unat i) = Some (SC_Reliable c)" "\<forall>mid \<in> set mids. mid < next_reliable_message_id c \<and>
      (\<forall>u. bt_get (unacked_messages c) mid = Some u \<longrightarrow> um_shape u = None)"
    using Sent_ReliableMessages by auto
  obtain c' where c': "vec_get cs' (unat i) = Some (SC_Reliable c')" "scr_step c c'"
    using channels_step_get [OF step c(1)] send_channel_step_cases(1) by blast
  have "\<forall>mid \<in> set mids. mid < next_reliable_message_id c' \<and>
      (\<forall>u. bt_get (unacked_messages c') mid = Some u \<longrightarrow> um_shape u = None)"
    using c(2) c'(2) unfolding scr_step_def by (metis order_less_le_trans)
  then show ?thesis
    using c'(1) Sent_ReliableMessages by simp
next
  case (Sent_ReliableSliceMessage i mid idx)
  assume "info_ok cs info" and step: "channels_step cs cs'"
  then obtain c where c: "vec_get cs (unat i) = Some (SC_Reliable c)" "mid < next_reliable_message_id c"
      "\<forall>u. bt_get (unacked_messages c) mid = Some u \<longrightarrow> (\<exists>n. um_shape u = Some n \<and> idx < n)"
    using Sent_ReliableSliceMessage by auto
  obtain c' where c': "vec_get cs' (unat i) = Some (SC_Reliable c')" "scr_step c c'"
    using channels_step_get [OF step c(1)] send_channel_step_cases(1) by blast
  have "mid < next_reliable_message_id c' \<and>
      (\<forall>u. bt_get (unacked_messages c') mid = Some u \<longrightarrow> (\<exists>n. um_shape u = Some n \<and> idx < n))"
    using c(2,3) c'(2) unfolding scr_step_def by (metis order_less_le_trans)
  then show ?thesis
    using c'(1) Sent_ReliableSliceMessage by simp
qed auto

subsection \<open>The invariant\<close>

fun receive_channel_ok :: "duration \<Rightarrow> ReceiveChannel \<Rightarrow> bool" where
  "receive_channel_ok now RC_Empty \<longleftrightarrow> True"
| "receive_channel_ok now (RC_Unreliable c) \<longleftrightarrow> rcu_inv now c"
| "receive_channel_ok now (RC_Reliable c) \<longleftrightarrow> rcr_inv c"

definition older :: "nat \<times> PacketSent \<Rightarrow> nat \<times> PacketSent \<Rightarrow> bool" where
  "older a b \<longleftrightarrow> sent_at (snd a) \<le> sent_at (snd b)"

definition sent_ok :: "duration \<Rightarrow> nat \<Rightarrow> SendChannel list \<Rightarrow> (nat, PacketSent) btree_map \<Rightarrow> bool" where
  "sent_ok now next cs sent \<longleftrightarrow> bt_wf sent \<and> sorted_wrt older sent \<and>
     (\<forall>(sequence, p) \<in> set sent. sequence < next \<and> sent_at p \<le> now \<and> info_ok cs (sent_info p))"

definition client_inv :: "renet_client \<Rightarrow> bool" where
  "client_inv self \<longleftrightarrow>
     stats_inv (conn_stats self) \<and> ack_ranges_wf (pending_acks self) \<and>
     in_ranges (pending_acks self) \<subseteq> {..<varint_limit} \<and>
     channels_ok (current_time self) (send_channels self) \<and>
     list_all (order_ok (send_channels self)) (channel_send_order self) \<and>
     list_all (receive_channel_ok (current_time self)) (receive_channels self) \<and>
     sent_ok (current_time self) (next_sequence self) (send_channels self) (sent_packets self)"

lemma sent_ok_step: "sent_ok now next cs sent \<Longrightarrow> channels_step cs cs' \<Longrightarrow> sent_ok now next cs' sent"
  unfolding sent_ok_def using info_ok_step by fastforce

lemma sent_ok_filter: "sent_ok now next cs sent \<Longrightarrow> sent_ok now next cs (filter P sent)"
  unfolding sent_ok_def by (auto simp: bt_wf_filter intro: sorted_wrt_filter)

lemma sent_ok_remove: "sent_ok now next cs sent \<Longrightarrow> sent_ok now next cs (bt_remove k sent)"
  unfolding bt_remove_def by (rule sent_ok_filter)

lemma order_ok_list: "list_all (order_ok cs) os \<Longrightarrow> channels_step cs cs' \<Longrightarrow> list_all (order_ok cs') os"
  by (auto simp: list_all_iff intro: order_ok_step)

lemma client_inv_put_send:
  assumes "client_inv self" "vec_get (send_channels self) (unat i) = Some c"
    "send_channel_ok (current_time self) (unat i) c'" "send_channel_step c c'"
  shows "client_inv (put_send_channel self i c')"
  using assms channels_put [OF _ assms(2-4)] order_ok_list sent_ok_step
  by (auto simp: client_inv_def put_send_channel_def)

lemma client_inv_put_receive:
  "client_inv self \<Longrightarrow> receive_channel_ok (current_time self) c \<Longrightarrow> client_inv (put_receive_channel self i c)"
  unfolding client_inv_def put_receive_channel_def list_all_iff
  by (auto dest: set_update_subset_insert [THEN subsetD])

lemma client_inv_status: "client_inv self \<Longrightarrow> client_inv (self\<lparr>connection_status := s\<rparr>)"
  by (simp add: client_inv_def)

lemma client_inv_disconnect: "client_inv self \<Longrightarrow> client_inv (disconnect_with_reason self r)"
  by (simp add: disconnect_with_reason_def client_inv_status)

lemma client_inv_receive_channel:
  assumes "client_inv self" "vec_get (receive_channels self) i = Some c"
  shows "receive_channel_ok (current_time self) c"
  using assms by (auto simp: client_inv_def vec_get_def list_all_length split: if_splits)

lemma client_inv_send_channel:
  assumes "client_inv self" "vec_get (send_channels self) i = Some c"
  shows "send_channel_ok (current_time self) i c"
  using assms channels_ok_get by (auto simp: client_inv_def)

subsection \<open>Construction\<close>

lemma max_channel_bound: "c \<in> set cs \<Longrightarrow> unat (cfg_channel_id c) \<le> max_channel cs"
  unfolding max_channel_def by (induction cs) auto

lemma make_send_channel_ok:
  "send_channel_ok now (unat (cfg_channel_id c)) (snd (make_send_channel c))" "snd (make_send_channel c) \<noteq> SC_Empty"
  by (auto simp: make_send_channel_def scu_inv_new scr_inv_new scr_new_def split: SendType.splits
      intro: scr_inv_new [unfolded scr_new_def])

lemma make_send_channel_order:
  assumes "unat (cfg_channel_id c) < length cs"
  shows "order_ok (cs[unat (cfg_channel_id c) := snd (make_send_channel c)]) (fst (make_send_channel c))"
  using assms by (auto simp: make_send_channel_def vec_get_def split: SendType.splits)

lemma order_ok_put_empty:
  "order_ok cs ord \<Longrightarrow> i < length cs \<Longrightarrow> cs ! i = SC_Empty \<Longrightarrow> order_ok (cs[i := c]) ord"
  by (cases ord) (auto simp: vec_get_def nth_list_update split: if_splits)

lemma make_send_channels_spec:
  assumes "distinct (map cfg_channel_id configs)" "\<forall>c \<in> set configs. unat (cfg_channel_id c) < length cs"
    "\<forall>c \<in> set configs. cs ! unat (cfg_channel_id c) = SC_Empty" "channels_ok now cs" "list_all (order_ok cs) order"
  shows "\<exists>order' cs'. make_send_channels configs order cs = Some (order', cs') \<and> channels_ok now cs' \<and>
    list_all (order_ok cs') order' \<and> length order' = length order + length configs"
  using assms
proof (induction configs arbitrary: order cs)
  case (Cons c configs)
  let ?i = "unat (cfg_channel_id c)"
  let ?cs = "cs[?i := snd (make_send_channel c)]"
  have i: "?i < length cs" "cs ! ?i = SC_Empty"
    using Cons.prems by simp_all
  have "channels_ok now ?cs"
    using Cons.prems(4) i make_send_channel_ok(1) by (auto simp: channels_ok_def nth_list_update)
  moreover have "list_all (order_ok ?cs) (order @ [fst (make_send_channel c)])"
    using Cons.prems(5) i make_send_channel_order order_ok_put_empty by (auto simp: list_all_iff)
  moreover have "\<forall>c' \<in> set configs. ?cs ! unat (cfg_channel_id c') = SC_Empty"
    using Cons.prems(1,2,3) by (auto simp: nth_list_update image_iff dest!: unsigned_word_eqI)
  moreover have "distinct (map cfg_channel_id configs)" "\<forall>c' \<in> set configs. unat (cfg_channel_id c') < length ?cs"
    using Cons.prems(1,2) by auto
  ultimately obtain order' cs' where "make_send_channels configs (order @ [fst (make_send_channel c)]) ?cs = Some (order', cs')"
      "channels_ok now cs'" "list_all (order_ok cs') order'" "length order' = Suc (length order) + length configs"
    using Cons.IH [of ?cs "order @ [fst (make_send_channel c)]"] by auto
  then show ?case
    using i by (simp add: case_prod_beta)
qed simp

lemma make_receive_channels_spec:
  assumes "distinct (map cfg_channel_id configs)" "\<forall>c \<in> set configs. unat (cfg_channel_id c) < length cs"
    "\<forall>c \<in> set configs. cs ! unat (cfg_channel_id c) = RC_Empty" "list_all (receive_channel_ok now) cs"
  shows "\<exists>cs'. make_receive_channels configs cs = Some cs' \<and> list_all (receive_channel_ok now) cs'"
  using assms
proof (induction configs arbitrary: cs)
  case (Cons c configs)
  let ?i = "unat (cfg_channel_id c)"
  let ?cs = "cs[?i := make_receive_channel c]"
  have i: "?i < length cs" "cs ! ?i = RC_Empty"
    using Cons.prems by simp_all
  have "receive_channel_ok now (make_receive_channel c)"
    by (auto simp: make_receive_channel_def rcu_inv_new rcr_inv_new split: SendType.splits)
  then have "list_all (receive_channel_ok now) ?cs"
    using Cons.prems(4) by (auto simp: list_all_iff dest: set_update_subset_insert [THEN subsetD])
  moreover have "\<forall>c' \<in> set configs. ?cs ! unat (cfg_channel_id c') = RC_Empty"
    using Cons.prems(1,2,3) by (auto simp: nth_list_update image_iff dest!: unsigned_word_eqI)
  moreover have "distinct (map cfg_channel_id configs)" "\<forall>c' \<in> set configs. unat (cfg_channel_id c') < length ?cs"
    using Cons.prems(1,2) by auto
  ultimately obtain cs' where "make_receive_channels configs ?cs = Some cs'" "list_all (receive_channel_ok now) cs'"
    using Cons.IH [of ?cs] by auto
  then show ?case
    using i by simp
qed simp

lemma client_from_channels_inv:
  assumes "distinct (map cfg_channel_id sc)" "distinct (map cfg_channel_id rc)"
  shows "\<exists>self. client_from_channels rel n sc rc = Some self \<and> client_inv self \<and> connection_status self = Connecting"
proof -
  have "\<forall>c \<in> set cs. unat (cfg_channel_id c) < max_channel cs + 1" for cs
    using max_channel_bound [of _ cs] by (auto simp: less_Suc_eq_le)
  note b = this
  obtain order' cs' where s: "make_send_channels sc [] (replicate (max_channel sc + 1) SC_Empty) = Some (order', cs')"
      "channels_ok 0 cs'" "list_all (order_ok cs') order'"
    using make_send_channels_spec [OF assms(1), of "replicate (max_channel sc + 1) SC_Empty" 0 "[]"] b [of sc]
    by (auto simp: channels_ok_def simp del: replicate_Suc)
  obtain rs where "make_receive_channels rc (replicate (max_channel rc + 1) RC_Empty) = Some rs"
      "list_all (receive_channel_ok 0) rs"
    using make_receive_channels_spec [OF assms(2), of "replicate (max_channel rc + 1) RC_Empty" 0] b [of rc]
    by (auto simp: list_all_length simp del: replicate_Suc)
  with s show ?thesis
    by (simp add: client_from_channels_def client_inv_def stats_inv_new sent_ok_def)
qed

lemma make_send_channels_duplicate:
  assumes "c \<in> set configs" "vec_get cs (unat (cfg_channel_id c)) = Some x" "x \<noteq> SC_Empty"
  shows "make_send_channels configs order cs = None"
  using assms
proof (induction configs arbitrary: cs order x)
  case (Cons d configs)
  then show ?case
    using make_send_channel_ok(2) [of d]
    by (cases "c = d") (auto simp: vec_get_def index_def set_index_def case_prod_beta nth_list_update split: if_splits bind_splits)
qed simp


lemma make_send_channels_not_distinct: "\<not> distinct (map cfg_channel_id configs) \<Longrightarrow> make_send_channels configs order cs = None"
proof (induction configs arbitrary: cs order)
  case (Cons d configs)
  let ?i = "unat (cfg_channel_id d)"
  show ?case
  proof (cases "cfg_channel_id d \<in> cfg_channel_id ` set configs")
    case True
    then obtain c where c: "c \<in> set configs" "cfg_channel_id c = cfg_channel_id d"
      by auto
    show ?thesis
    proof (cases "?i < length cs")
      case True
      then have "make_send_channels configs (order @ [fst (make_send_channel d)]) (cs[?i := snd (make_send_channel d)]) = None"
        using make_send_channels_duplicate [OF c(1), of "cs[?i := snd (make_send_channel d)]" "snd (make_send_channel d)"]
          make_send_channel_ok(2) [of d] c(2) by (simp add: vec_get_def)
      with True show ?thesis
        by (simp add: case_prod_beta)
    qed (simp add: index_def)
  next
    case False
    with Cons.prems have "\<not> distinct (map cfg_channel_id configs)"
      by simp
    then have "make_send_channels configs order' cs' = None" for order' cs'
      by (rule Cons.IH)
    then show ?thesis
      by (simp add: case_prod_beta split: bind_splits)
  qed
qed simp

lemma make_receive_channels_duplicate:
  assumes "c \<in> set configs" "vec_get cs (unat (cfg_channel_id c)) = Some x" "x \<noteq> RC_Empty"
  shows "make_receive_channels configs cs = None"
  using assms
proof (induction configs arbitrary: cs x)
  case (Cons d configs)
  have "make_receive_channel d \<noteq> RC_Empty"
    by (auto simp: make_receive_channel_def split: SendType.splits)
  with Cons show ?case
    by (cases "c = d") (auto simp: vec_get_def index_def set_index_def nth_list_update split: if_splits bind_splits)
qed simp

lemma make_receive_channels_not_distinct: "\<not> distinct (map cfg_channel_id configs) \<Longrightarrow> make_receive_channels configs cs = None"
proof (induction configs arbitrary: cs)
  case (Cons d configs)
  let ?i = "unat (cfg_channel_id d)"
  show ?case
  proof (cases "cfg_channel_id d \<in> cfg_channel_id ` set configs")
    case True
    then obtain c where c: "c \<in> set configs" "cfg_channel_id c = cfg_channel_id d"
      by auto
    have ne: "make_receive_channel d \<noteq> RC_Empty"
      by (auto simp: make_receive_channel_def split: SendType.splits)
    show ?thesis
    proof (cases "?i < length cs")
      case True
      then have "make_receive_channels configs (cs[?i := make_receive_channel d]) = None"
        using make_receive_channels_duplicate [OF c(1), of "cs[?i := make_receive_channel d]" "make_receive_channel d"]
          ne c(2) by (simp add: vec_get_def)
      with True show ?thesis
        by simp
    qed (simp add: index_def)
  next
    case False
    with Cons.prems have "\<not> distinct (map cfg_channel_id configs)"
      by simp
    then have "make_receive_channels configs cs' = None" for cs'
      by (rule Cons.IH)
    then show ?thesis
      by (simp split: bind_splits)
  qed
qed simp

lemma client_from_channels_None:
  "client_from_channels rel n sc rc = None \<longleftrightarrow> \<not> (distinct (map cfg_channel_id sc) \<and> distinct (map cfg_channel_id rc))"
proof
  assume "client_from_channels rel n sc rc = None"
  then show "\<not> (distinct (map cfg_channel_id sc) \<and> distinct (map cfg_channel_id rc))"
    using client_from_channels_inv [of sc rc rel n] by auto
next
  assume "\<not> (distinct (map cfg_channel_id sc) \<and> distinct (map cfg_channel_id rc))"
  then show "client_from_channels rel n sc rc = None"
    using make_send_channels_not_distinct [of sc] make_receive_channels_not_distinct [of rc]
    by (auto simp: client_from_channels_def split: bind_splits)
qed

subsection \<open>The application's operations\<close>

lemma client_send_message_spec:
  assumes "client_inv self" "vec_get (send_channels self) (unat ch) = Some c" "c \<noteq> SC_Empty"
  shows "\<exists>self'. client_send_message self ch m = Some self' \<and> client_inv self'"
proof (cases c)
  case (SC_Unreliable u)
  have "scu_inv u"
    using client_inv_send_channel [OF assms(1,2)] SC_Unreliable by simp
  then have "client_inv (put_send_channel self ch (SC_Unreliable (scu_send_message u m)))"
    by (intro client_inv_put_send [OF assms(1,2)]) (simp_all add: SC_Unreliable scu_inv_send_message)
  then show ?thesis
    using assms SC_Unreliable by (simp add: client_send_message_def)
next
  case (SC_Reliable r)
  have r: "scr_inv (current_time self) r" "unat (scr_channel_id r) = unat ch"
    using client_inv_send_channel [OF assms(1,2)] SC_Reliable by simp_all
  obtain r' res where run: "scr_send_message r m = (r', res)"
    by (cases "scr_send_message r m")
  have "scr_inv (current_time self) r'" "scr_step r r'"
    using scr_inv_send_message [OF r(1), of m] scr_step_send [of r m] run by simp_all
  then have "client_inv (put_send_channel self ch (SC_Reliable r'))"
    using r(2) by (intro client_inv_put_send [OF assms(1,2)]) (simp_all add: SC_Reliable scr_step_def)
  then show ?thesis
    using assms SC_Reliable run
    by (cases res) (simp_all add: client_send_message_def client_inv_disconnect)
qed (use assms in simp)

lemma rcr_receive_inv:
  assumes "rcr_inv c"
  shows "\<exists>c' m. rcr_receive_message c = Some (c', m) \<and> rcr_inv c'"
proof (cases "is_ordered c")
  case True
  then show ?thesis
    using rcr_receive_ordered [OF assms] assms by (auto split: option.splits)
next
  case False
  then show ?thesis
    using rcr_receive_unordered [OF assms False] assms by (auto split: if_splits)
qed

lemma rcu_receive_inv:
  assumes "rcu_inv now c"
  shows "\<exists>c' m. rcu_receive_message c = Some (c', m) \<and> rcu_inv now c'"
  using rcu_receive_message_spec [OF assms] assms by (auto split: list.splits)

lemma client_receive_message_spec:
  assumes "client_inv self" "vec_get (receive_channels self) (unat ch) = Some c" "c \<noteq> RC_Empty"
  shows "\<exists>self' m. client_receive_message self ch = Some (self', m) \<and> client_inv self'"
proof (cases c)
  case (RC_Unreliable u)
  then obtain u' m where "rcu_receive_message u = Some (u', m)" "rcu_inv (current_time self) u'"
    using client_inv_receive_channel [OF assms(1,2)] rcu_receive_inv by fastforce
  then show ?thesis
    using assms RC_Unreliable client_inv_put_receive [OF assms(1), of "RC_Unreliable u'" ch]
    by (simp add: client_receive_message_def)
next
  case (RC_Reliable r)
  then obtain r' m where "rcr_receive_message r = Some (r', m)" "rcr_inv r'"
    using client_inv_receive_channel [OF assms(1,2)] rcr_receive_inv by fastforce
  then show ?thesis
    using assms RC_Reliable client_inv_put_receive [OF assms(1), of "RC_Reliable r'" ch]
    by (simp add: client_receive_message_def)
qed (use assms in simp)

subsection \<open>Time\<close>

lemma discard_old_spec:
  "list_all (receive_channel_ok now) cs \<Longrightarrow>
   \<exists>cs'. discard_old now cs = Some cs' \<and> list_all (receive_channel_ok now) cs' \<and> length cs' = length cs"
proof (induction now cs rule: discard_old.induct)
  case (2 now c cs)
  then obtain c' where "discard_incomplete_old_slices c now = Some c'" "rcu_inv now c'"
    using discard_spec [of now c] by auto
  with 2 show ?case
    by auto
qed auto

lemma lost_packets_spec:
  "\<forall>(sequence, p) \<in> set sent. sent_at p \<le> now \<Longrightarrow>
   lost_packets now sent = Some (map fst (takeWhile (\<lambda>e. DISCARD_AFTER \<le> now - sent_at (snd e)) sent))"
  by (induction sent) auto

lemma fold_bt_remove: "fold bt_remove ks m = filter (\<lambda>e. fst e \<notin> set ks) m"
  by (induction ks arbitrary: m) (auto simp: bt_remove_def intro!: filter_cong)

lemma takeWhile_sorted:
  assumes mono: "\<And>x y. R x y \<Longrightarrow> P y \<Longrightarrow> P x"
  shows "sorted_wrt R xs \<Longrightarrow> x \<in> set xs \<Longrightarrow> P x \<Longrightarrow> x \<in> set (takeWhile P xs)"
proof (induction xs)
  case (Cons a xs)
  then have "P a"
    using mono by auto
  with Cons show ?case
    by auto
qed simp

lemma lost_exactly:
  assumes "sent_ok now next cs sent"
  shows "\<exists>lost. lost_packets now sent = Some lost \<and>
    fold bt_remove lost sent = filter (\<lambda>e. now - sent_at (snd e) < DISCARD_AFTER) sent"
proof -
  let ?P = "\<lambda>e. DISCARD_AFTER \<le> now - sent_at (snd e)"
  have ok: "bt_wf sent" "sorted_wrt older sent" "\<forall>(sequence, p) \<in> set sent. sent_at p \<le> now"
    using assms by (auto simp: sent_ok_def)
  have "fst e \<in> set (map fst (takeWhile ?P sent)) \<longleftrightarrow> ?P e" if e: "e \<in> set sent" for e
  proof
    assume "fst e \<in> set (map fst (takeWhile ?P sent))"
    then obtain e' where e': "e' \<in> set (takeWhile ?P sent)" "fst e' = fst e"
      by auto
    then have "e' \<in> set sent" "?P e'"
      by (auto dest: set_takeWhileD)
    moreover have "e' = e"
      using bt_wf_distinct [OF ok(1)] e \<open>e' \<in> set sent\<close> e'(2) by (metis distinct_map inj_on_contraD)
    ultimately show "?P e"
      by simp
  next
    assume "?P e"
    then have "e \<in> set (takeWhile ?P sent)"
      by (rule takeWhile_sorted [OF _ ok(2) e, rotated]) (auto simp: older_def)
    then show "fst e \<in> set (map fst (takeWhile ?P sent))"
      by simp
  qed
  then have "filter (\<lambda>e. fst e \<notin> set (map fst (takeWhile ?P sent))) sent = filter (\<lambda>e. now - sent_at (snd e) < DISCARD_AFTER) sent"
    by (intro filter_cong) (auto simp: not_le)
  then show ?thesis
    unfolding lost_packets_spec [OF ok(3)] fold_bt_remove by simp
qed

lemma client_inv_later:
  assumes "client_inv self"
  shows "client_inv (self\<lparr>current_time := current_time self + d\<rparr>)"
proof -
  have "receive_channel_ok (current_time self) c \<Longrightarrow> receive_channel_ok (current_time self + d) c" for c
    by (cases c) (auto intro: rcu_inv_mono)
  then show ?thesis
    using assms by (fastforce simp: client_inv_def channels_ok_def sent_ok_def list_all_iff intro: send_channel_ok_mono)
qed

lemma client_update_spec:
  assumes "client_inv self"
  shows "\<exists>self'. client_update self d = Some self' \<and> client_inv self' \<and> current_time self' = current_time self + d \<and>
    sent_packets self' = filter (\<lambda>e. current_time self + d - sent_at (snd e) < DISCARD_AFTER) (sent_packets self)"
proof -
  let ?now = "current_time self + d"
  let ?self = "self\<lparr>current_time := ?now\<rparr>"
  have inv: "stats_inv (conn_stats self)" "list_all (receive_channel_ok ?now) (receive_channels self)"
      "sent_ok ?now (next_sequence self) (send_channels self) (sent_packets self)"
    using client_inv_later [OF assms, of d] by (simp_all add: client_inv_def)
  obtain st where st: "stats_update (conn_stats self) ?now = Some st" "stats_inv st"
    using stats_update_inv [OF inv(1)] by blast
  obtain cs where cs: "discard_old ?now (receive_channels self) = Some cs" "list_all (receive_channel_ok ?now) cs"
    using discard_old_spec [OF inv(2)] by blast
  obtain lost where lost: "lost_packets ?now (sent_packets self) = Some lost"
      "fold bt_remove lost (sent_packets self) = filter (\<lambda>e. ?now - sent_at (snd e) < DISCARD_AFTER) (sent_packets self)"
    using lost_exactly [OF inv(3)] by blast
  have "client_inv (?self\<lparr>conn_stats := st, receive_channels := cs,
      sent_packets := filter (\<lambda>e. ?now - sent_at (snd e) < DISCARD_AFTER) (sent_packets self)\<rparr>)"
    using client_inv_later [OF assms, of d] st(2) cs(2) sent_ok_filter by (simp add: client_inv_def)
  then show ?thesis
    using st(1) cs(1) lost by (simp add: client_update_def)
qed

subsection \<open>Receiving a packet\<close>

lemma rcr_inv_process_messages:
  "rcr_inv c \<Longrightarrow> rcr_inv (fst (rcr_process_messages c ms))"
proof (induction c ms rule: rcr_process_messages.induct)
  case (2 c mid m ms)
  have inv: "rcr_mem_inv c" "order_inv (reliable_order c) (oldest_pending_message_id c) (rcr_messages c)"
    using 2(2) by (simp_all add: rcr_inv_def)
  obtain c' r where c': "rcr_process_message c m mid = (c', r)" "rcr_slices c' = rcr_slices c" "rcr_mem_inv c'"
      "order_inv (reliable_order c') (oldest_pending_message_id c') (rcr_messages c')"
    by (rule rcr_process_message_spec [OF inv, of m mid])
  then have "rcr_inv c'"
    using 2(2) by (simp add: rcr_inv_def)
  with 2(1) c'(1) show ?case
    by (cases r) auto
qed simp

lemma rcu_inv_process_messages: "rcu_inv now c \<Longrightarrow> rcu_inv now (fold (\<lambda>m c. rcu_process_message c m) ms c)"
  by (induction ms arbitrary: c) (simp_all add: rcu_inv_process_message)

lemma rcr_process_slice_inv:
  assumes "rcr_inv c" "slice_fits c sl"
  shows "\<exists>c' r. rcr_process_slice c sl = Some (c', r) \<and> rcr_inv c'"
  by (rule rcr_process_slice_spec [OF assms]) (use assms(1) in blast)+

text \<open>A packet whose slice, if it has one, agrees with the slices received before.\<close>

fun packet_fits :: "ReceiveChannel list \<Rightarrow> Packet \<Rightarrow> bool" where
  "packet_fits cs (ReliableSlice _ ch sl) \<longleftrightarrow>
     (case vec_get cs (unat ch) of Some (RC_Reliable c) \<Rightarrow> slice_fits c sl | _ \<Rightarrow> True)"
| "packet_fits cs (UnreliableSlice _ ch sl) \<longleftrightarrow>
     (case vec_get cs (unat ch) of Some (RC_Unreliable c) \<Rightarrow> rcu_fits c sl | _ \<Rightarrow> True)"
| "packet_fits cs _ \<longleftrightarrow> True"

lemma collect_acks_spec:
  assumes "bt_wf sent" "ack_ranges_wf rs"
  shows "\<exists>acks. collect_acks sent rs = Some acks \<and> distinct acks \<and> set acks = in_ranges rs \<inter> fst ` set sent"
  using assms(2)
proof (induction rs)
  case (Cons r rs)
  obtain s e where r: "r = (s, e)"
    by (cases r)
  have wf: "s < e" "\<forall>(s', e') \<in> set rs. e < s'" "ack_ranges_wf rs"
    using Cons.prems by (simp_all add: r ack_ranges_wf_Cons)
  then obtain acks where acks: "collect_acks sent rs = Some acks" "distinct acks" "set acks = in_ranges rs \<inter> fst ` set sent"
    using Cons.IH by blast
  have "\<forall>k \<in> in_ranges rs. e < k"
    using wf(2) by (fastforce simp: in_ranges_def)
  then have "set (bt_range_keys s e sent) \<inter> set acks = {}"
    using acks(3) by auto
  then show ?case
    using acks wf(1) distinct_bt_range_keys [OF assms(1), of s e] by (auto simp: r)
qed simp

lemma deliver_ack_spec:
  assumes "client_inv self" "info_ok (send_channels self) info"
  shows "\<exists>self'. deliver_ack self info = Some self' \<and> client_inv self' \<and> sent_packets self' = sent_packets self"
proof (cases info)
  case Sent_None
  then show ?thesis
    using assms(1) by (simp add: deliver_ack_def)
next
  case (Sent_Ack l)
  then show ?thesis
    using assms(1) by (auto simp: deliver_ack_def client_inv_def acked_largest_wf acked_largest_set)
next
  case (Sent_ReliableMessages ch mids)
  then obtain c where c: "vec_get (send_channels self) (unat ch) = Some (SC_Reliable c)"
      "\<forall>mid \<in> set mids. mid < next_reliable_message_id c \<and>
        (\<forall>u. bt_get (unacked_messages c) mid = Some u \<longrightarrow> um_shape u = None)"
    using assms(2) by auto
  have ok: "scr_inv (current_time self) c" "unat (scr_channel_id c) = unat ch"
    using client_inv_send_channel [OF assms(1) c(1)] by simp_all
  obtain c' where c': "scr_process_message_acks c mids = Some c'" "scr_inv (current_time self) c'" "scr_step c c'"
    using scr_step_acks [OF ok(1) c(2)] by blast
  have "client_inv (put_send_channel self ch (SC_Reliable c'))"
    using c' ok(2) by (intro client_inv_put_send [OF assms(1) c(1)]) (simp_all add: scr_step_def)
  then show ?thesis
    using c(1) c'(1) Sent_ReliableMessages by (simp add: deliver_ack_def put_send_channel_def)
next
  case (Sent_ReliableSliceMessage ch mid idx)
  then obtain c where c: "vec_get (send_channels self) (unat ch) = Some (SC_Reliable c)"
      "\<forall>u. bt_get (unacked_messages c) mid = Some u \<longrightarrow> (\<exists>n. um_shape u = Some n \<and> idx < n)"
    using assms(2) by auto
  have ok: "scr_inv (current_time self) c" "unat (scr_channel_id c) = unat ch"
    using client_inv_send_channel [OF assms(1) c(1)] by simp_all
  obtain c' where c': "scr_process_slice_message_ack c mid idx = Some c'" "scr_inv (current_time self) c'" "scr_step c c'"
    using scr_step_slice_ack [OF ok(1) c(2)] by blast
  have "client_inv (put_send_channel self ch (SC_Reliable c'))"
    using c' ok(2) by (intro client_inv_put_send [OF assms(1) c(1)]) (simp_all add: scr_step_def)
  then show ?thesis
    using c(1) c'(1) Sent_ReliableSliceMessage by (simp add: deliver_ack_def put_send_channel_def)
qed

lemma ack_packet_spec:
  assumes "client_inv self" "bt_contains_key (sent_packets self) sequence"
  shows "\<exists>self'. ack_packet self sequence = Some self' \<and> client_inv self' \<and>
    sent_packets self' = bt_remove sequence (sent_packets self)"
proof -
  obtain p where p: "bt_get (sent_packets self) sequence = Some p"
    using assms(2) by (auto simp: bt_contains_key_def)
  have ok: "sent_at p \<le> current_time self" "info_ok (send_channels self) (sent_info p)" "stats_inv (conn_stats self)"
    using assms(1) bt_get_in_set [OF p] by (auto simp: client_inv_def sent_ok_def)
  obtain st where st: "stats_acked_packet (conn_stats self) (sent_at p) (current_time self) = Some st" "stats_inv st"
    using stats_acked_packet_inv [OF ok(3,1)] by blast
  let ?self = "self\<lparr>sent_packets := bt_remove sequence (sent_packets self), conn_stats := st,
    rtt := update_rtt (rtt self) (as_secs_f64 (current_time self - sent_at p))\<rparr>"
  have "client_inv ?self"
    using assms(1) st(2) sent_ok_remove by (simp add: client_inv_def)
  from deliver_ack_spec [OF this, of "sent_info p"] ok(2)
  obtain self' where "deliver_ack ?self (sent_info p) = Some self'" "client_inv self'"
      "sent_packets self' = bt_remove sequence (sent_packets self)"
    by auto
  then show ?thesis
    using p st(1) ok(1) by (simp add: ack_packet_def)
qed

lemma ack_packets_spec:
  assumes "client_inv self" "distinct acks" "\<forall>k \<in> set acks. bt_contains_key (sent_packets self) k"
  shows "\<exists>self'. ack_packets self acks = Some self' \<and> client_inv self' \<and>
    sent_packets self' = filter (\<lambda>e. fst e \<notin> set acks) (sent_packets self)"
  using assms
proof (induction acks arbitrary: self)
  case (Cons k acks)
  then obtain self1 where self1: "ack_packet self k = Some self1" "client_inv self1"
      "sent_packets self1 = bt_remove k (sent_packets self)"
    using ack_packet_spec [of self k] by auto
  have "\<forall>k' \<in> set acks. bt_contains_key (sent_packets self1) k'"
    using Cons.prems(2,3) by (auto simp: self1(3) bt_contains_key_def bt_map_simps)
  with Cons.IH [of self1] Cons.prems(2) self1(2) obtain self2 where "ack_packets self1 acks = Some self2" "client_inv self2"
      "sent_packets self2 = filter (\<lambda>e. fst e \<notin> set acks) (sent_packets self1)"
    by auto
  then show ?case
    using self1 by (auto simp: bt_remove_def intro!: filter_cong)
qed simp

lemma handle_ack_spec:
  assumes "client_inv self" "ack_ranges_wf rs"
  shows "\<exists>self'. handle_packet self (Ack s rs) = Some self' \<and> client_inv self' \<and>
    sent_packets self' = filter (\<lambda>e. fst e \<notin> in_ranges rs) (sent_packets self)"
proof -
  have "bt_wf (sent_packets self)"
    using assms(1) by (simp add: client_inv_def sent_ok_def)
  from collect_acks_spec [OF this assms(2)] obtain acks where acks: "collect_acks (sent_packets self) rs = Some acks"
      "distinct acks" "set acks = in_ranges rs \<inter> fst ` set (sent_packets self)"
    by blast
  have "\<forall>k \<in> set acks. bt_contains_key (sent_packets self) k"
    using acks(3) by (auto simp: bt_contains_key_def) (metis bt_get_None_iff image_eqI not_None_eq prod.sel(1))
  from ack_packets_spec [OF assms(1) acks(2) this] obtain self' where self': "ack_packets self acks = Some self'" "client_inv self'"
      "sent_packets self' = filter (\<lambda>e. fst e \<notin> set acks) (sent_packets self)"
    by blast
  moreover have "filter (\<lambda>e. fst e \<notin> set acks) (sent_packets self) = filter (\<lambda>e. fst e \<notin> in_ranges rs) (sent_packets self)"
    using acks(3) by (intro filter_cong) auto
  ultimately show ?thesis
    using acks(1) by simp
qed

lemma handle_packet_spec:
  assumes inv: "client_inv self" and wf: "packet_wf p" and fits: "packet_fits (receive_channels self) p"
  shows "\<exists>self'. handle_packet self p = Some self' \<and> client_inv self'"
proof (cases p)
  case (SmallReliable s ch ms)
  show ?thesis
  proof (cases "\<exists>c. vec_get (receive_channels self) (unat ch) = Some (RC_Reliable c)")
    case True
    then obtain c where c: "vec_get (receive_channels self) (unat ch) = Some (RC_Reliable c)" ..
    obtain c' r where run: "rcr_process_messages c ms = (c', r)"
      by (cases "rcr_process_messages c ms")
    have "rcr_inv c'"
      using rcr_inv_process_messages [of c ms] client_inv_receive_channel [OF inv c] run by simp
    then show ?thesis
      using c run SmallReliable client_inv_put_receive [OF inv, of "RC_Reliable c'" ch] client_inv_disconnect
      by (cases r) simp_all
  qed (use inv SmallReliable client_inv_disconnect in \<open>auto split: option.splits ReceiveChannel.splits\<close>)
next
  case (SmallUnreliable s ch ms)
  show ?thesis
  proof (cases "\<exists>c. vec_get (receive_channels self) (unat ch) = Some (RC_Unreliable c)")
    case True
    then obtain c where c: "vec_get (receive_channels self) (unat ch) = Some (RC_Unreliable c)" ..
    have "rcu_inv (current_time self) (fold (\<lambda>m c. rcu_process_message c m) ms c)"
      using rcu_inv_process_messages client_inv_receive_channel [OF inv c] by simp
    then show ?thesis
      using c SmallUnreliable client_inv_put_receive [OF inv] by simp
  qed (use inv SmallUnreliable client_inv_disconnect in \<open>auto split: option.splits ReceiveChannel.splits\<close>)
next
  case (ReliableSlice s ch sl)
  show ?thesis
  proof (cases "\<exists>c. vec_get (receive_channels self) (unat ch) = Some (RC_Reliable c)")
    case True
    then obtain c where c: "vec_get (receive_channels self) (unat ch) = Some (RC_Reliable c)" ..
    obtain c' r where run: "rcr_process_slice c sl = Some (c', r)" "rcr_inv c'"
      using rcr_process_slice_inv [of c sl] client_inv_receive_channel [OF inv c] fits c ReliableSlice by auto
    then show ?thesis
      using c ReliableSlice client_inv_put_receive [OF inv, of "RC_Reliable c'" ch] client_inv_disconnect
      by (cases r) simp_all
  qed (use inv ReliableSlice client_inv_disconnect in \<open>auto split: option.splits ReceiveChannel.splits\<close>)
next
  case (UnreliableSlice s ch sl)
  show ?thesis
  proof (cases "\<exists>c. vec_get (receive_channels self) (unat ch) = Some (RC_Unreliable c)")
    case True
    then obtain c where c: "vec_get (receive_channels self) (unat ch) = Some (RC_Unreliable c)" ..
    obtain c' r where run: "rcu_process_slice c sl (current_time self) = Some (c', r)" "rcu_inv (current_time self) c'"
      using rcu_process_slice_spec [of "current_time self" c sl] client_inv_receive_channel [OF inv c] fits c UnreliableSlice by auto
    then show ?thesis
      using c UnreliableSlice client_inv_put_receive [OF inv, of "RC_Unreliable c'" ch] client_inv_disconnect
      by (cases r) simp_all
  qed (use inv UnreliableSlice client_inv_disconnect in \<open>auto split: option.splits ReceiveChannel.splits\<close>)
next
  case (Ack s rs)
  then show ?thesis
    using handle_ack_spec [OF inv, of rs s] wf by auto
qed

lemma add_pending_ack_subset:
  assumes "ack_ranges_wf rs"
  shows "in_ranges (add_pending_ack rs n) \<subseteq> insert n (in_ranges rs)"
  using add_pending_ack_set [OF assms, of n] by (cases rs) auto

lemma client_process_packet_spec:
  assumes laws: "octets_laws lib e16 ev" and inv: "client_inv self"
    and fits: "\<And>p r. from_bytes lib bs = Ok (p, r) \<Longrightarrow> packet_fits (receive_channels self) p"
  shows "\<exists>self'. client_process_packet lib self bs = Some self' \<and> client_inv self'"
proof (cases "is_disconnected self")
  case False
  obtain st where st: "stats_received_packet (conn_stats self) (length bs) = Some st" "stats_inv st"
    using stats_received_packet_inv [of "conn_stats self" "length bs"] inv by (auto simp: client_inv_def)
  let ?self = "self\<lparr>conn_stats := st\<rparr>"
  have inv1: "client_inv ?self"
    using inv st(2) by (simp add: client_inv_def)
  show ?thesis
  proof (cases "from_bytes lib bs")
    case (Ok x)
    obtain p r where x: "x = (p, r)"
      by (cases x)
    have "packet_wf p"
      using octets_laws.from_bytes_packet_wf [OF laws] Ok x by blast
    moreover from this have "packet_sequence p < varint_limit"
      by (cases p) auto
    then have "client_inv (?self\<lparr>pending_acks := add_pending_ack (pending_acks self) (packet_sequence p)\<rparr>)"
      using inv1 add_pending_ack_subset [of "pending_acks self" "packet_sequence p"]
      by (auto simp: client_inv_def add_pending_ack_wf)
    ultimately show ?thesis
      using handle_packet_spec [of "?self\<lparr>pending_acks := add_pending_ack (pending_acks self) (packet_sequence p)\<rparr>" p]
        fits Ok x st(1) False by (simp add: client_process_packet_def)
  next
    case (Err e)
    then show ?thesis
      using st(1) False client_inv_disconnect [OF inv1] by (simp add: client_process_packet_def)
  qed (use from_bytes_not_Panic in blast)
qed (use inv in \<open>simp add: client_process_packet_def\<close>)

end
