(* ===== verification/Connection_Sending.thy ===== *)
theory Connection_Sending
  imports Connection_Invariant
begin

text \<open>
  \<open>RenetClient::get_packets_to_send\<close>: it never panics, the packets of a tick are numbered consecutively
  and stay within the budget, what they carry is remembered, and their encodings fit the buffer and
  are read back by the peer.
\<close>

subsection \<open>The packets of the channels\<close>

text \<open>A packet of a channel: what is remembered of it, and its size.\<close>

fun packet_sendable :: "octets_lib \<Rightarrow> Packet \<Rightarrow> bool" where
  "packet_sendable lib (SmallReliable s ch ms) \<longleftrightarrow>
     (sum_list (map (rel_size lib) ms) \<le> SLICE_SIZE \<or> length ms \<le> 1) \<and> (\<forall>(mid, m) \<in> set ms. length m \<le> SLICE_SIZE)"
| "packet_sendable lib (SmallUnreliable s ch ms) \<longleftrightarrow>
     (sum_list (map (unrel_size lib) ms) \<le> SLICE_SIZE \<or> length ms \<le> 1) \<and> (\<forall>m \<in> set ms. length m \<le> SLICE_SIZE)"
| "packet_sendable lib (ReliableSlice s ch sl) \<longleftrightarrow> slice_index sl < num_slices sl \<and>
     payload sl \<noteq> [] \<and> length (payload sl) \<le> SLICE_SIZE"
| "packet_sendable lib (UnreliableSlice s ch sl) \<longleftrightarrow> slice_index sl < num_slices sl \<and> length (payload sl) \<le> SLICE_SIZE"
| "packet_sendable lib (Ack s rs) \<longleftrightarrow> False"

text \<open>The numbers a packet carries besides its sequence number.\<close>

fun packet_ids :: "Packet \<Rightarrow> nat list" where
  "packet_ids (SmallReliable s ch ms) = map fst ms"
| "packet_ids (SmallUnreliable s ch ms) = []"
| "packet_ids (ReliableSlice s ch sl) = [message_id sl]"
| "packet_ids (UnreliableSlice s ch sl) = [message_id sl]"
| "packet_ids (Ack s rs) = []"

fun packet_num_slices :: "Packet \<Rightarrow> nat" where
  "packet_num_slices (ReliableSlice s ch sl) = num_slices sl"
| "packet_num_slices (UnreliableSlice s ch sl) = num_slices sl"
| "packet_num_slices _ = 1"

text \<open>Limits under which ids and slice counts can be encoded.\<close>

fun channel_limits :: "SendChannel \<Rightarrow> bool" where
  "channel_limits SC_Empty \<longleftrightarrow> True"
| "channel_limits (SC_Unreliable c) \<longleftrightarrow> scu_max_memory_usage_bytes c \<le> 1000000 * SLICE_SIZE \<and>
     sliced_message_id c + length (unreliable_messages c) \<le> varint_limit"
| "channel_limits (SC_Reliable c) \<longleftrightarrow> scr_max_memory_usage_bytes c \<le> 1000000 * SLICE_SIZE \<and>
     next_reliable_message_id c \<le> varint_limit"

fun packet_within :: "Packet \<Rightarrow> bool" where
  "packet_within p \<longleftrightarrow> list_all (\<lambda>mid. mid < varint_limit) (packet_ids p) \<and> packet_num_slices p \<le> 1000000"

lemma carries_info:
  assumes inv: "scr_inv now c" and ch: "vec_get cs i = Some (SC_Reliable c')" "unat (scr_channel_id c) = i"
    and step: "scr_step c c'" and car: "carries (scr_channel_id c) (bt_get (unacked_messages c)) p"
  shows "\<exists>info. packet_sent_info p = Some info \<and> info_ok cs info"
proof (cases p)
  case (SmallReliable s k ms)
  have k: "k = scr_channel_id c" and ms: "\<forall>(mid, m) \<in> set ms. \<exists>ls. bt_get (unacked_messages c) mid = Some (Small m ls)"
    using car SmallReliable by simp_all
  have "mid < next_reliable_message_id c' \<and> (\<forall>u. bt_get (unacked_messages c') mid = Some u \<longrightarrow> um_shape u = None)"
    if mid: "mid \<in> fst ` set ms" for mid
  proof -
    obtain m ls where get: "bt_get (unacked_messages c) mid = Some (Small m ls)"
      using mid ms by fastforce
    have "mid < next_reliable_message_id c"
      using scr_inv_get [OF inv get] by simp
    with step get show ?thesis
      unfolding scr_step_def by (metis option.inject order_less_le_trans um_shape.simps(1))
  qed
  then show ?thesis
    using SmallReliable k ch by auto
next
  case (ReliableSlice s k sl)
  then obtain m n na nx ack ls where get: "bt_get (unacked_messages c) (message_id sl) = Some (Sliced m n na nx ack ls)"
      "slice_index sl < n" "k = scr_channel_id c"
    using car by auto
  have "message_id sl < next_reliable_message_id c"
    using scr_inv_get [OF inv get(1)] by simp
  with step get(1,2) have "message_id sl < next_reliable_message_id c' \<and>
      (\<forall>u. bt_get (unacked_messages c') (message_id sl) = Some u \<longrightarrow> (\<exists>n. um_shape u = Some n \<and> slice_index sl < n))"
    unfolding scr_step_def by (metis option.inject order_less_le_trans um_shape.simps(2))
  then show ?thesis
    using ReliableSlice get(3) ch by simp
qed (use car in simp_all)

lemma num_slices_le:
  assumes "length m \<le> 1000000 * SLICE_SIZE"
  shows "num_slices_of m \<le> 1000000"
proof (rule ccontr)
  assume "\<not> num_slices_of m \<le> 1000000"
  then have "1000000 \<le> num_slices_of m - 1" "m \<noteq> []"
    by (auto simp: num_slices_of_def div_ceil_def split: if_splits)
  then have "1000000 * SLICE_SIZE < length m"
    using num_slices_of_bounds(2) [of m] order_le_less_trans [OF mult_le_mono1 [of 1000000 "num_slices_of m - 1" SLICE_SIZE]] by blast
  with assms show False
    by simp
qed

lemma carries_sendable:
  assumes inv: "scr_inv now c" and car: "carries (scr_channel_id c) (bt_get (unacked_messages c)) p" and fits: "small_fits lib p"
  shows "packet_sendable lib p" and "channel_limits (SC_Reliable c) \<Longrightarrow> packet_within p"
proof -
  have mem: "length (um_message u) \<le> scr_max_memory_usage_bytes c" if "bt_get (unacked_messages c) mid = Some u" for mid u
    using scr_inv_remove(1) [OF inv that] inv by (simp add: scr_inv_def)
  show "packet_sendable lib p"
  proof (cases p)
    case (SmallReliable s k ms)
    then have "\<forall>(mid, m) \<in> set ms. length m \<le> SLICE_SIZE"
      using car scr_inv_get [OF inv] by fastforce
    then show ?thesis
      using SmallReliable fits by simp
  next
    case (ReliableSlice s k sl)
    then obtain m n na nx ack ls where sl: "bt_get (unacked_messages c) (message_id sl) = Some (Sliced m n na nx ack ls)"
        "num_slices sl = n" "slice_index sl < n" "payload sl = slice_of m (slice_index sl)"
      using car by auto
    then have "n = num_slices_of m" "m \<noteq> []"
      using scr_inv_get [OF inv sl(1)] by auto
    then show ?thesis
      using ReliableSlice sl slice_of_nonempty [of "slice_index sl" m] length_slice_of_le [of m "slice_index sl"] by simp
  qed (use car in simp_all)
  assume lim: "channel_limits (SC_Reliable c)"
  show "packet_within p"
  proof (cases p)
    case (SmallReliable s k ms)
    then have "\<forall>mid \<in> fst ` set ms. mid < next_reliable_message_id c"
      using car scr_inv_get [OF inv] by fastforce
    then show ?thesis
      using SmallReliable lim by (auto simp: list_all_iff)
  next
    case (ReliableSlice s k sl)
    then obtain m n na nx ack ls where sl: "bt_get (unacked_messages c) (message_id sl) = Some (Sliced m n na nx ack ls)"
        "num_slices sl = n"
      using car by auto
    have "n = num_slices_of m" "message_id sl < next_reliable_message_id c"
      using scr_inv_get [OF inv sl(1)] by auto
    moreover have "length m \<le> 1000000 * SLICE_SIZE"
      using mem [OF sl(1)] lim by simp
    ultimately show ?thesis
      using ReliableSlice sl(2) lim num_slices_le by simp
  qed (use car in simp_all)
qed


lemma scu_choose_sub:
  "scu_choose sub a ms = (sent, rest) \<Longrightarrow> set sent \<subseteq> set ms \<and> length sent \<le> length ms"
  by (induction ms arbitrary: a sent rest) (fastforce split: if_splits prod.splits)+

lemma cut_all_piece:
  "sl \<in> set (cut_all k ms) \<Longrightarrow> \<exists>m mid i. sl = piece mid m i \<and> i < num_slices_of m \<and> m \<in> set ms \<and> mid < k + length ms"
proof (induction ms arbitrary: k)
  case (Cons m ms)
  then consider "sl \<in> set (cut_message k m)" | "sl \<in> set (cut_all (k + 1) ms)"
    by auto
  then show ?case
  proof cases
    case 1
    then show ?thesis
      by (fastforce simp: cut_piece)
  next
    case 2
    then show ?thesis
      using Cons.IH [of "k + 1"] by auto
  qed
qed simp

lemma scu_packet_sendable:
  assumes inv: "scu_inv c" and run: "scu_get_packets_to_send lib c s a = Some (c', s', a', ps)" and p: "p \<in> set ps"
  shows "packet_sendable lib p" and "packet_sent_info p = Some Sent_None"
    and "channel_limits (SC_Unreliable c) \<Longrightarrow> packet_within p"
proof -
  obtain sent rest where ch: "scu_choose (ordered_reliable_substrate c) a (unreliable_messages c) = (sent, rest)"
    by (metis prod.exhaust)
  have content: "small_of ps = filter is_small sent"
      "pieces_of ps = cut_all (sliced_message_id c) (filter (\<lambda>m. \<not> is_small m) sent)"
    using scu_get_packets_spec [OF inv ch, of lib s] run by auto
  have sent: "set sent \<subseteq> set (unreliable_messages c)" "length sent \<le> length (unreliable_messages c)"
    using scu_choose_sub [OF ch] by simp_all
  have group: "unrel_group lib p"
    by (rule scu_packets_grouped [OF run p])
  then consider (small) q k ms where "p = SmallUnreliable q k ms" | (piece) q k sl where "p = UnreliableSlice q k sl"
    by (cases p) auto
  then have "packet_sendable lib p \<and> packet_sent_info p = Some Sent_None \<and> (channel_limits (SC_Unreliable c) \<longrightarrow> packet_within p)"
  proof cases
    case small
    then have "set ms \<subseteq> set (small_of ps)"
      using p by (auto simp: small_of_def)
    then have "\<forall>m \<in> set ms. length m \<le> SLICE_SIZE"
      using content(1) by (auto simp: is_small_def)
    then show ?thesis
      using group small by simp
  next
    case piece
    then have "sl \<in> set (pieces_of ps)"
      using p by (auto simp: pieces_of_def intro: bexI [of _ p])
    then have "sl \<in> set (cut_all (sliced_message_id c) (filter (\<lambda>m. \<not> is_small m) sent))"
      using content(2) by simp
    from cut_all_piece [OF this] obtain m mid i where sl: "sl = piece mid m i" "i < num_slices_of m" "m \<in> set sent"
        "mid < sliced_message_id c + length (filter (\<lambda>m. \<not> is_small m) sent)"
      by auto
    moreover have "length (filter (\<lambda>m. \<not> is_small m) sent) \<le> length sent"
      by simp
    ultimately have "mid < sliced_message_id c + length (unreliable_messages c)"
      using sent(2) by linarith
    note sl = sl(1-3) this
    have "length m \<le> scu_max_memory_usage_bytes c"
      using inv sl(3) sent(1) member_le_sum_list [of "length m" "map length (unreliable_messages c)"] by (auto simp: scu_inv_def)
    then show ?thesis
      using piece sl num_slices_le [of m] length_slice_of_le [of m i] by (auto simp: piece_def)
  qed
  then show "packet_sendable lib p" "packet_sent_info p = Some Sent_None"
      "channel_limits (SC_Unreliable c) \<Longrightarrow> packet_within p"
    by blast+
qed

definition channel_packet_ok :: "octets_lib \<Rightarrow> SendChannel list \<Rightarrow> bool \<Rightarrow> Packet \<Rightarrow> bool" where
  "channel_packet_ok lib cs lmt p \<longleftrightarrow> packet_sendable lib p \<and> (\<exists>info. packet_sent_info p = Some info \<and> info_ok cs info) \<and>
     (lmt \<longrightarrow> packet_within p)"

lemma channel_packet_ok_step: "channel_packet_ok lib cs lmt p \<Longrightarrow> channels_step cs cs' \<Longrightarrow> channel_packet_ok lib cs' lmt p"
  unfolding channel_packet_ok_def using info_ok_step by blast

lemma limits_put:
  assumes "list_all channel_limits cs" "vec_get cs i = Some c" "channel_limits c \<Longrightarrow> channel_limits c'"
  shows "list_all channel_limits (cs[i := c'])"
  using assms by (auto simp: list_all_length nth_list_update vec_get_def split: if_splits)

lemma scu_choose_length: "scu_choose sub a ms = (sent, rest) \<Longrightarrow> length sent + length rest \<le> length ms"
  by (induction ms arbitrary: a sent rest) (fastforce split: if_splits prod.splits)+

lemma scu_limits:
  assumes "scu_inv c" "scu_get_packets_to_send lib c s a = Some (c', s', a', ps)" "channel_limits (SC_Unreliable c)"
  shows "channel_limits (SC_Unreliable c')"
proof -
  obtain sent rest where ch: "scu_choose (ordered_reliable_substrate c) a (unreliable_messages c) = (sent, rest)"
    by (metis prod.exhaust)
  have c': "c' = c\<lparr>unreliable_messages := rev rest,
        sliced_message_id := sliced_message_id c + length (filter (\<lambda>m. \<not> is_small m) sent),
        scu_memory_usage_bytes := sum_list (map length rest)\<rparr>"
    using scu_get_packets_spec [OF assms(1) ch, of lib s] assms(2) by auto
  have "sliced_message_id c + length (unreliable_messages c) \<le> varint_limit"
    using assms(3) by simp
  then have "sliced_message_id c + length (filter (\<lambda>m. \<not> is_small m) sent) + length rest \<le> varint_limit"
    using scu_choose_length [OF ch] length_filter_le [of "\<lambda>m. \<not> is_small m" sent] by linarith
  then show ?thesis
    using assms(3) unfolding c' by simp
qed

text \<open>What one channel of the order contributes.\<close>

lemma one_channel_packets:
  assumes inv: "channels_ok now cs" and ord: "order_ok cs ord" and lmt: "lmt \<longrightarrow> list_all channel_limits cs"
  obtains cs' s' a' ps where "\<And>ords qs. channel_packets lib now (ord # ords) (cs, s, a, qs) = channel_packets lib now ords (cs', s', a', qs @ ps)"
    and "channels_ok now cs'" and "channels_step cs cs'" and "map packet_sequence ps = [s..<s']" and "s \<le> s'"
    and "a' + payload_bytes ps = a" and "\<forall>p \<in> set ps. channel_packet_ok lib cs' lmt p" and "length cs' = length cs"
    and "lmt \<longrightarrow> list_all channel_limits cs'"
proof (cases ord)
  case (CO_Reliable ch)
  then obtain c where c: "vec_get cs (unat ch) = Some (SC_Reliable c)"
    using ord by auto
  have i: "unat ch < length cs" "cs ! unat ch = SC_Reliable c"
    using c by (auto simp: vec_get_def split: if_splits)
  have ok: "scr_inv now c" "unat (scr_channel_id c) = unat ch"
    using channels_ok_get [OF inv c] by simp_all
  obtain c' s' a' ps where run: "scr_get_packets_to_send lib c s a now = Some (c', s', a', ps)"
      "scr_inv now c'" "scr_step c c'" "map packet_sequence ps = [s..<s']" "s \<le> s'" "a' + payload_bytes ps = a"
      "\<forall>p \<in> set ps. carries (scr_channel_id c) (bt_get (unacked_messages c)) p \<and> small_fits lib p"
    by (rule scr_step_packets [OF ok(1), of lib s a])
  let ?cs = "cs[unat ch := SC_Reliable c']"
  have put: "channels_ok now ?cs \<and> channels_step cs ?cs"
    using run(2,3) ok(2) by (intro channels_put [OF inv c]) (simp_all add: scr_step_def)
  have get: "vec_get ?cs (unat ch) = Some (SC_Reliable c')"
    using i by (simp add: vec_get_def)
  have "channel_packet_ok lib ?cs lmt p" if p: "p \<in> set ps" for p
    unfolding channel_packet_ok_def
  proof (intro conjI impI)
    have car: "carries (scr_channel_id c) (bt_get (unacked_messages c)) p" "small_fits lib p"
      using run(7) p by auto
    show "packet_sendable lib p" "\<exists>info. packet_sent_info p = Some info \<and> info_ok ?cs info"
      using carries_sendable(1) [OF ok(1) car] carries_info [OF ok(1) get ok(2) run(3) car(1)] .
    show "packet_within p" if "lmt"
      using that lmt i carries_sendable(2) [OF ok(1) car] by (metis list_all_length)
  qed
  moreover have "channel_packets lib now (ord # ords) (cs, s, a, qs) = channel_packets lib now ords (?cs, s', a', qs @ ps)" for ords qs
    using CO_Reliable c run(1) by simp
  moreover have "scr_max_memory_usage_bytes c' = scr_max_memory_usage_bytes c" "next_reliable_message_id c' = next_reliable_message_id c"
    using run(1) scr_get_packets_spec [OF ok(1), of lib s a] by auto
  then have "channel_limits (SC_Reliable c) \<Longrightarrow> channel_limits (SC_Reliable c')"
    by simp
  then have "lmt \<longrightarrow> list_all channel_limits ?cs"
    using limits_put [OF _ c] lmt by blast
  ultimately show thesis
    using that [of ?cs s' a' ps] put run(4,5,6) by simp
next
  case (CO_Unreliable ch)
  then obtain c where c: "vec_get cs (unat ch) = Some (SC_Unreliable c)"
    using ord by auto
  have i: "unat ch < length cs" "cs ! unat ch = SC_Unreliable c"
    using c by (auto simp: vec_get_def split: if_splits)
  have ok: "scu_inv c"
    using channels_ok_get [OF inv c] by simp
  obtain c' s' a' ps where run: "scu_get_packets_to_send lib c s a = Some (c', s', a', ps)"
      "scu_inv c'" "map packet_sequence ps = [s..<s']" "s \<le> s'" "a' + payload_bytes ps = a"
    by (rule scu.get_packets_Some [OF ok, of lib s a])
  let ?cs = "cs[unat ch := SC_Unreliable c']"
  have put: "channels_ok now ?cs \<and> channels_step cs ?cs"
    using run(2) by (intro channels_put [OF inv c]) simp_all
  have "channel_packet_ok lib ?cs lmt p" if p: "p \<in> set ps" for p
    unfolding channel_packet_ok_def
  proof (intro conjI impI)
    show "packet_sendable lib p" "\<exists>info. packet_sent_info p = Some info \<and> info_ok ?cs info"
      using scu_packet_sendable(1,2) [OF ok run(1) p] by simp_all
    show "packet_within p" if "lmt"
      using that lmt i scu_packet_sendable(3) [OF ok run(1) p] by (metis list_all_length)
  qed
  moreover have "channel_packets lib now (ord # ords) (cs, s, a, qs) = channel_packets lib now ords (?cs, s', a', qs @ ps)" for ords qs
    using CO_Unreliable c run(1) by simp
  moreover have "lmt \<longrightarrow> list_all channel_limits ?cs"
    using limits_put [OF _ c] lmt scu_limits [OF ok run(1)] by blast
  ultimately show thesis
    using that [of ?cs s' a' ps] put run(3,4,5) by simp
qed


lemma channel_packets_spec:
  assumes "channels_ok now cs" "list_all (order_ok cs) ords" "lmt \<longrightarrow> list_all channel_limits cs"
  shows "\<exists>cs' s' a' ps. channel_packets lib now ords (cs, s, a, qs) = Some (cs', s', a', qs @ ps) \<and>
    channels_ok now cs' \<and> channels_step cs cs' \<and> map packet_sequence ps = [s..<s'] \<and> s \<le> s' \<and>
    a' + payload_bytes ps = a \<and> (\<forall>p \<in> set ps. channel_packet_ok lib cs' lmt p)"
  using assms
proof (induction ords arbitrary: cs s a qs)
  case Nil
  then show ?case
    by (auto simp: channels_step_refl)
next
  case (Cons ord ords)
  have ord: "order_ok cs ord" "list_all (order_ok cs) ords"
    using Cons.prems(2) by simp_all
  obtain cs1 s1 a1 ps1 where one: "\<And>ords qs. channel_packets lib now (ord # ords) (cs, s, a, qs) = channel_packets lib now ords (cs1, s1, a1, qs @ ps1)"
      "channels_ok now cs1" "channels_step cs cs1" "map packet_sequence ps1 = [s..<s1]" "s \<le> s1"
      "a1 + payload_bytes ps1 = a" "\<forall>p \<in> set ps1. channel_packet_ok lib cs1 lmt p" "lmt \<longrightarrow> list_all channel_limits cs1"
    by (rule one_channel_packets [OF Cons.prems(1) ord(1) Cons.prems(3), where lib = lib and s = s and a = a]) blast
  obtain cs' s' a' ps where rest: "channel_packets lib now ords (cs1, s1, a1, qs @ ps1) = Some (cs', s', a', (qs @ ps1) @ ps)"
      "channels_ok now cs'" "channels_step cs1 cs'" "map packet_sequence ps = [s1..<s']" "s1 \<le> s'"
      "a' + payload_bytes ps = a1" "\<forall>p \<in> set ps. channel_packet_ok lib cs' lmt p"
    using Cons.IH [OF one(2) order_ok_list [OF ord(2) one(3)] one(8), of s1 a1 "qs @ ps1"] by (elim exE conjE)
  have "map packet_sequence (ps1 @ ps) = [s..<s']"
    using one(4,5) rest(4,5) by (simp add: upt_append)
  moreover have "\<forall>p \<in> set (ps1 @ ps). channel_packet_ok lib cs' lmt p"
    using one(7) rest(3,7) channel_packet_ok_step by auto
  moreover have "channels_step cs cs'"
    using channels_step_trans [OF one(3) rest(3)] .
  moreover have "channel_packets lib now (ord # ords) (cs, s, a, qs) = Some (cs', s', a', qs @ ps1 @ ps)"
    unfolding one(1) rest(1) by simp
  moreover have "a' + payload_bytes (ps1 @ ps) = a" "s \<le> s'"
    using one(5,6) rest(5,6) by simp_all
  ultimately show ?case
    using rest(2) by blast
qed

subsection \<open>What is remembered\<close>

lemma bt_insert_last: "\<forall>k' \<in> fst ` set m. k' < k \<Longrightarrow> bt_insert k v m = m @ [(k, v)]"
  by (induction k v m rule: bt_insert.induct) auto

lemma record_sent_spec:
  assumes "sent_ok now s cs sent" "map packet_sequence ps = [s..<s']" "s \<le> s'"
    "\<forall>p \<in> set ps. \<exists>info. packet_sent_info p = Some info \<and> info_ok cs info"
  shows "\<exists>sent'. record_sent now ps sent = Some sent' \<and> sent_ok now s' cs sent' \<and>
    map fst sent' = map fst sent @ [s..<s']"
  using assms
proof (induction ps arbitrary: s sent)
  case Nil
  then have "s' = s"
    by (auto dest: sym)
  with Nil show ?case
    by simp
next
  case (Cons p ps)
  obtain info where info: "packet_sent_info p = Some info" "info_ok cs info"
    using Cons.prems(4) by auto
  have s: "packet_sequence p = s" "map packet_sequence ps = [Suc s..<s']" "Suc s \<le> s'"
    using Cons.prems(2)[symmetric] by (auto simp: upt_eq_Cons_conv)
  have less: "\<forall>k \<in> fst ` set sent. k < s"
    using Cons.prems(1) by (auto simp: sent_ok_def)
  let ?sent = "sent @ [(s, \<lparr>sent_at = now, sent_info = info\<rparr>)]"
  have "sent_ok now (Suc s) cs ?sent"
    using Cons.prems(1) info(2) less
    by (fastforce simp: sent_ok_def bt_wf_def sorted_wrt_append older_def)
  from Cons.IH [OF this s(2,3)] Cons.prems(4)
  obtain sent' where "record_sent now ps ?sent = Some sent'" "sent_ok now s' cs sent'" "map fst sent' = map fst ?sent @ [Suc s..<s']"
    by auto
  then show ?case
    using info(1) s bt_insert_last [OF less] by (simp add: upt_rec [of s s'])
qed

subsection \<open>Encoding\<close>

lemma length_le_sum: "\<forall>x \<in> set xs. 1 \<le> (f x :: nat) \<Longrightarrow> length xs \<le> sum_list (map f xs)"
  by (induction xs) auto

lemma ack_ranges_length: "ack_ranges_wf rs \<Longrightarrow> rs \<noteq> [] \<Longrightarrow> length rs \<le> snd (last rs)"
proof (induction rs rule: rev_induct)
  case (snoc r rs)
  obtain s e where r: "r = (s, e)"
    by (cases r)
  have wf: "ack_ranges_wf rs" "s < e" "\<forall>(s', e') \<in> set rs. e' < s"
    using snoc.prems(1) by (auto simp: r ack_ranges_wf_def sorted_wrt_append)
  show ?case
  proof (cases "rs = []")
    case False
    then have "length rs \<le> snd (last rs)" "snd (last rs) < s"
      using snoc.IH [OF wf(1)] bspec [OF wf(3) last_in_set [OF False]] by (simp_all add: case_prod_beta)
    then show ?thesis
      using wf(2) r by simp
  qed (use wf(2) r in simp)
qed simp

lemma in_ranges_last:
  assumes "ack_ranges_wf rs" "rs \<noteq> []"
  shows "0 < snd (last rs)" and "snd (last rs) - 1 \<in> in_ranges rs"
proof -
  obtain s e where e: "last rs = (s, e)"
    by (cases "last rs")
  then have "(s, e) \<in> set rs"
    using last_in_set [OF assms(2)] by simp
  moreover from this have "s < e"
    using assms(1) by (auto simp: ack_ranges_wf_def)
  ultimately show "0 < snd (last rs)" "snd (last rs) - 1 \<in> in_ranges rs"
    unfolding e in_ranges_def by (auto intro!: bexI [of _ "(s, e)"])
qed

lemma pending_ack_wf:
  assumes "ack_ranges_wf rs" "rs \<noteq> []" "in_ranges rs \<subseteq> {..<varint_limit}" "s < varint_limit"
  shows "packet_wf (Ack s rs)"
proof -
  have "snd (last rs) - 1 < varint_limit"
    using in_ranges_last(2) [OF assms(1,2)] assms(3) by blast
  then show ?thesis
    using assms ack_ranges_length [OF assms(1,2)] by auto
qed

context octets_laws
begin

lemma sendable_wf:
  assumes "packet_sendable lib p" "packet_within p" "packet_sequence p < varint_limit"
  shows "packet_wf p" and "length (packet_bytes enc_u16 enc_varint p) \<le> 1400"
proof -
  have small: "k \<le> SLICE_SIZE \<Longrightarrow> k < varint_limit" for k
    by (simp add: SLICE_SIZE_def)
  have ev: "n < varint_limit \<Longrightarrow> length (enc_varint n) \<le> 8" for n
    using varint_len_bounds [of n] by (simp add: length_enc_varint)
  have "packet_wf p \<and> length (packet_bytes enc_u16 enc_varint p) \<le> 1400"
  proof (cases p)
    case (SmallReliable s ch ms)
    have ms: "\<forall>(mid, m) \<in> set ms. mid < varint_limit \<and> length m \<le> SLICE_SIZE"
      using assms(1,2) SmallReliable by (auto simp: list_all_iff)
    have size: "length (case e of (mid, m) \<Rightarrow> enc_varint mid @ enc_varint (length m) @ m) = rel_size lib e"
      if "e \<in> set ms" for e
      using bspec [OF ms that] small by (auto simp: rel_size_def length_enc_varint)
    have "1 \<le> rel_size lib e \<and> rel_size lib e \<le> SLICE_SIZE + 16" if "e \<in> set ms" for e
      using bspec [OF ms that] small [of "length (snd e)"] varint_len_bounds [of "fst e"] varint_len_bounds [of "length (snd e)"]
      by (simp add: rel_size_def case_prod_beta)
    then have one: "\<forall>e \<in> set ms. 1 \<le> rel_size lib e" and bound: "\<forall>e \<in> set ms. rel_size lib e \<le> SLICE_SIZE + 16"
      by blast+
    have "length (concat (map (\<lambda>(mid, m). enc_varint mid @ enc_varint (length m) @ m) ms)) = sum_list (map (rel_size lib) ms)"
      using size by (simp add: length_concat comp_def cong: map_cong)
    moreover have le: "sum_list (map (rel_size lib) ms) \<le> SLICE_SIZE + 16"
      using assms(1) SmallReliable bound by (cases ms) (auto simp: le_Suc_eq)
    moreover have "length ms \<le> SLICE_SIZE + 16"
      using length_le_sum [OF one] le by linarith
    moreover have "\<forall>(mid, m) \<in> set ms. mid < varint_limit \<and> length m < varint_limit"
      using ms small by blast
    ultimately show ?thesis
      using SmallReliable assms(3) ev [of s] by (simp add: SLICE_SIZE_def length_enc_u16)
  next
    case (SmallUnreliable s ch ms)
    have ms: "\<forall>m \<in> set ms. length m \<le> SLICE_SIZE"
      using assms(1) SmallUnreliable by simp
    have size: "length (enc_varint (length m) @ m) = unrel_size lib m" if "m \<in> set ms" for m
      using bspec [OF ms that] small by (auto simp: unrel_size_def length_enc_varint)
    have "1 \<le> unrel_size lib m \<and> unrel_size lib m \<le> SLICE_SIZE + 8" if "m \<in> set ms" for m
      using bspec [OF ms that] small [of "length m"] varint_len_bounds [of "length m"] by (simp add: unrel_size_def)
    then have one: "\<forall>m \<in> set ms. 1 \<le> unrel_size lib m" and bound: "\<forall>m \<in> set ms. unrel_size lib m \<le> SLICE_SIZE + 8"
      by blast+
    have "length (concat (map (\<lambda>m. enc_varint (length m) @ m) ms)) = sum_list (map (unrel_size lib) ms)"
      using size by (simp add: length_concat comp_def cong: map_cong)
    moreover have le: "sum_list (map (unrel_size lib) ms) \<le> SLICE_SIZE + 8"
      using assms(1) SmallUnreliable bound by (cases ms) (auto simp: le_Suc_eq)
    moreover have "length ms \<le> SLICE_SIZE + 8"
      using length_le_sum [OF one] le by linarith
    moreover have "\<forall>m \<in> set ms. length m < varint_limit"
      using ms small by blast
    ultimately show ?thesis
      using SmallUnreliable assms(3) ev [of s] by (simp add: SLICE_SIZE_def length_enc_u16)
  next
    case (ReliableSlice s ch sl)
    then have sl: "slice_index sl < num_slices sl" "num_slices sl \<le> 1000000" "message_id sl < varint_limit"
        "length (payload sl) \<le> SLICE_SIZE" "payload sl \<noteq> []"
      using assms(1,2) by simp_all
    then show ?thesis
      using ReliableSlice assms(3) small [OF sl(4)] ev [of s] ev [of "message_id sl"] ev [of "slice_index sl"] ev [of "num_slices sl"]
        ev [of "length (payload sl)"] by (simp add: slice_bytes_def SLICE_SIZE_def)
  next
    case (UnreliableSlice s ch sl)
    then have sl: "slice_index sl < num_slices sl" "num_slices sl \<le> 1000000" "message_id sl < varint_limit"
        "length (payload sl) \<le> SLICE_SIZE"
      using assms(1,2) by simp_all
    then show ?thesis
      using UnreliableSlice assms(3) small [OF sl(4)] ev [of s] ev [of "message_id sl"] ev [of "slice_index sl"] ev [of "num_slices sl"]
        ev [of "length (payload sl)"] by (simp add: slice_bytes_def SLICE_SIZE_def)
  qed (use assms(1) in simp)
  then show "packet_wf p" "length (packet_bytes enc_u16 enc_varint p) \<le> 1400"
    by blast+
qed

lemma serialize_packets_eq:
  assumes "\<forall>p \<in> set ps. packet_wf p"
  shows "serialize_packets lib ps =
    (if \<forall>p \<in> set ps. length (packet_bytes enc_u16 enc_varint p) \<le> 1400
     then Ok (map (packet_bytes enc_u16 enc_varint) ps) else Err BufferTooShort)"
  using assms by (induction ps) (auto simp: to_bytes_eq with_slice_def)

end

subsection \<open>A tick\<close>

definition ack_packet_of :: "renet_client \<Rightarrow> nat \<Rightarrow> Packet list" where
  "ack_packet_of self s = (if pending_acks self \<noteq> [] then [Ack s (pending_acks self)] else [])"

lemma client_get_packets_spec:
  assumes laws: "octets_laws lib e16 ev" and inv: "client_inv self" and conn: "\<not> is_disconnected self"
    and lmt: "list_all channel_limits (send_channels self)"
    and run: "channel_packets lib (current_time self) (channel_send_order self)
      (send_channels self, next_sequence self, available_bytes_per_tick self, []) = Some (cs, s, a, ps)"
    and s: "s < varint_limit"
  defines "packets \<equiv> ps @ ack_packet_of self s"
  obtains sent st where
      "client_get_packets_to_send lib self =
        (if \<forall>p \<in> set packets. length (packet_bytes e16 ev p) \<le> 1400
         then Some (self\<lparr>send_channels := cs, next_sequence := s + length (ack_packet_of self s), sent_packets := sent, conn_stats := st\<rparr>,
           map (packet_bytes e16 ev) packets)
         else Some (disconnect_with_reason (self\<lparr>send_channels := cs, next_sequence := s + length (ack_packet_of self s),
             sent_packets := sent\<rparr>) (PacketSerialization BufferTooShort), []))"
    and "client_inv (self\<lparr>send_channels := cs, next_sequence := s + length (ack_packet_of self s), sent_packets := sent\<rparr>)"
    and "client_inv (self\<lparr>send_channels := cs, next_sequence := s + length (ack_packet_of self s), sent_packets := sent, conn_stats := st\<rparr>)"
    and "map packet_sequence packets = [next_sequence self..<s + length (ack_packet_of self s)]"
    and "map fst sent = map fst (sent_packets self) @ [next_sequence self..<s + length (ack_packet_of self s)]"
    and "payload_bytes packets \<le> available_bytes_per_tick self"
    and "\<forall>p \<in> set packets. packet_wf p"
    and "\<forall>p \<in> set ps. length (packet_bytes e16 ev p) \<le> 1400"
proof -
  note [simp] = octets_laws.serialize_packets_eq [OF laws]
  have i: "channels_ok (current_time self) (send_channels self)" "list_all (order_ok (send_channels self)) (channel_send_order self)"
      "sent_ok (current_time self) (next_sequence self) (send_channels self) (sent_packets self)" "stats_inv (conn_stats self)"
      "ack_ranges_wf (pending_acks self)" "in_ranges (pending_acks self) \<subseteq> {..<varint_limit}"
    using inv unfolding client_inv_def by blast+
  have cp: "channels_ok (current_time self) cs" "channels_step (send_channels self) cs" "map packet_sequence ps = [next_sequence self..<s]"
      "next_sequence self \<le> s" "a + payload_bytes ps = available_bytes_per_tick self"
      "\<forall>p \<in> set ps. channel_packet_ok lib cs True p"
    using channel_packets_spec [OF i(1,2), where lmt = True and lib = lib and s = "next_sequence self" and qs = "[]"
        and a = "available_bytes_per_tick self"] lmt run by auto
  let ?s' = "s + length (ack_packet_of self s)"
  have ack: "map packet_sequence (ack_packet_of self s) = [s..<?s']" "payload_bytes (ack_packet_of self s) = 0"
      "\<forall>p \<in> set (ack_packet_of self s). \<exists>info. packet_sent_info p = Some info \<and> info_ok cs info"
      "\<forall>p \<in> set (ack_packet_of self s). packet_wf p"
    using i(5,6) s pending_ack_wf in_ranges_last(1) [of "pending_acks self"] by (auto simp: ack_packet_of_def)
  have seqs: "map packet_sequence packets = [next_sequence self..<?s']" "next_sequence self \<le> ?s'"
    using ack(1) cp(3,4) by (simp_all add: packets_def upt_append)
  have infos: "\<forall>p \<in> set packets. \<exists>info. packet_sent_info p = Some info \<and> info_ok cs info"
    using ack(3) cp(6) by (auto simp: packets_def channel_packet_ok_def)
  obtain sent where sent: "record_sent (current_time self) packets (sent_packets self) = Some sent" "sent_ok (current_time self) ?s' cs sent"
      "map fst sent = map fst (sent_packets self) @ [next_sequence self..<?s']"
    using record_sent_spec [OF sent_ok_step [OF i(3) cp(2)] seqs infos] by blast
  have "packet_wf p \<and> length (packet_bytes e16 ev p) \<le> 1400" if p: "p \<in> set ps" for p
  proof -
    have "packet_sequence p \<in> set (map packet_sequence ps)"
      using p by simp
    then have "packet_sequence p < varint_limit"
      unfolding cp(3) using s by simp
    moreover have "packet_sendable lib p" "packet_within p"
      using cp(6) p by (auto simp: channel_packet_ok_def)
    ultimately show ?thesis
      using octets_laws.sendable_wf [OF laws] by blast
  qed
  then have wf: "\<forall>p \<in> set packets. packet_wf p" and fit: "\<forall>p \<in> set ps. length (packet_bytes e16 ev p) \<le> 1400"
    using ack(4) by (auto simp: packets_def)
  let ?self = "self\<lparr>send_channels := cs, next_sequence := ?s', sent_packets := sent\<rparr>"
  have inv': "client_inv ?self"
    using inv cp(1) sent(2) order_ok_list [OF i(2) cp(2)] by (simp add: client_inv_def)
  obtain st where st: "stats_sent_packets (conn_stats self) (length packets) (sum_list (map length (map (packet_bytes e16 ev) packets))) = Some st" "stats_inv st"
    using stats_sent_packets_inv [OF i(4)] by blast
  have "(if pending_acks self \<noteq> [] then (s + 1, ps @ [Ack s (pending_acks self)]) else (s, ps)) = (?s', packets)"
    by (simp add: packets_def ack_packet_of_def)
  then have "client_get_packets_to_send lib self =
      (if \<forall>p \<in> set packets. length (packet_bytes e16 ev p) \<le> 1400
       then Some (?self\<lparr>conn_stats := st\<rparr>, map (packet_bytes e16 ev) packets)
       else Some (disconnect_with_reason ?self (PacketSerialization BufferTooShort), []))"
    using conn run sent(1) wf st(1) by (simp add: client_get_packets_to_send_def Let_def del: map_map)
  moreover have "client_inv (?self\<lparr>conn_stats := st\<rparr>)"
    using inv' st(2) by (simp add: client_inv_def)
  moreover have "payload_bytes packets \<le> available_bytes_per_tick self"
    using cp(5) ack(2) by (simp add: packets_def)
  ultimately show thesis
    using that [of st sent] inv' seqs(1) sent(3) wf fit by simp
qed

end
