(* ===== verification/Connection_Theorems.thy ===== *)
theory Connection_Theorems
  imports Connection_Sending
begin

text \<open>
  The properties of a connection (\<open>src/renet2/src/remote_connection.rs\<close>): it survives every sequence of
  calls and packets, disconnecting is final, and what a tick sends.
\<close>

subsection \<open>Sequences of operations\<close>

datatype client_action =
    Act_update duration
  | Act_send u8 bytes
  | Act_receive u8
  | Act_packet bytes
  | Act_tick
  | Act_set_connected
  | Act_set_connecting
  | Act_disconnect
  | Act_transport_disconnect

fun client_do :: "octets_lib \<Rightarrow> client_action \<Rightarrow> renet_client \<Rightarrow> renet_client option" where
  "client_do lib (Act_update d) self = client_update self d"
| "client_do lib (Act_send ch m) self = client_send_message self ch m"
| "client_do lib (Act_receive ch) self = map_option fst (client_receive_message self ch)"
| "client_do lib (Act_packet bs) self = client_process_packet lib self bs"
| "client_do lib Act_tick self = map_option fst (client_get_packets_to_send lib self)"
| "client_do lib Act_set_connected self = Some (set_connected self)"
| "client_do lib Act_set_connecting self = Some (set_connecting self)"
| "client_do lib Act_disconnect self = Some (client_disconnect self)"
| "client_do lib Act_transport_disconnect self = Some (disconnect_due_to_transport self)"

text \<open>
  What the caller and the network must respect: the application names channels that exist, slices agree
  with the slices before them, and ids stay below the limit of their encoding.
\<close>

definition tick_limits :: "octets_lib \<Rightarrow> renet_client \<Rightarrow> bool" where
  "tick_limits lib self \<longleftrightarrow> list_all channel_limits (send_channels self) \<and>
     (case channel_packets lib (current_time self) (channel_send_order self)
        (send_channels self, next_sequence self, available_bytes_per_tick self, []) of
        Some (_, s, _, _) \<Rightarrow> s < varint_limit | None \<Rightarrow> True)"

fun action_ok :: "octets_lib \<Rightarrow> client_action \<Rightarrow> renet_client \<Rightarrow> bool" where
  "action_ok lib (Act_send ch m) self \<longleftrightarrow> (\<exists>c. vec_get (send_channels self) (unat ch) = Some c \<and> c \<noteq> SC_Empty)"
| "action_ok lib (Act_receive ch) self \<longleftrightarrow> (\<exists>c. vec_get (receive_channels self) (unat ch) = Some c \<and> c \<noteq> RC_Empty)"
| "action_ok lib (Act_packet bs) self \<longleftrightarrow>
     (case from_bytes lib bs of Ok (p, _) \<Rightarrow> packet_fits (receive_channels self) p | _ \<Rightarrow> True)"
| "action_ok lib Act_tick self \<longleftrightarrow> tick_limits lib self"
| "action_ok lib _ self \<longleftrightarrow> True"

fun client_run :: "octets_lib \<Rightarrow> client_action list \<Rightarrow> renet_client \<Rightarrow> renet_client option" where
  "client_run lib [] self = Some self"
| "client_run lib (act # acts) self = do { self \<leftarrow> client_do lib act self; client_run lib acts self }"

fun run_ok :: "octets_lib \<Rightarrow> client_action list \<Rightarrow> renet_client \<Rightarrow> bool" where
  "run_ok lib [] self \<longleftrightarrow> True"
| "run_ok lib (act # acts) self \<longleftrightarrow> action_ok lib act self \<and>
     (case client_do lib act self of Some self' \<Rightarrow> run_ok lib acts self' | None \<Rightarrow> True)"

lemma client_inv_set_status:
  "client_inv self \<Longrightarrow> client_inv (set_connected self)" "client_inv self \<Longrightarrow> client_inv (set_connecting self)"
  "client_inv self \<Longrightarrow> client_inv (client_disconnect self)" "client_inv self \<Longrightarrow> client_inv (disconnect_due_to_transport self)"
  by (simp_all add: set_connected_def set_connecting_def client_disconnect_def disconnect_due_to_transport_def
      client_inv_status client_inv_disconnect)

lemma client_tick_inv:
  assumes laws: "octets_laws lib e16 ev" and inv: "client_inv self" and lmt: "tick_limits lib self"
  shows "\<exists>self' bs. client_get_packets_to_send lib self = Some (self', bs) \<and> client_inv self'"
proof (cases "is_disconnected self")
  case True
  then show ?thesis
    using inv by (simp add: client_get_packets_to_send_def)
next
  case False
  have i: "channels_ok (current_time self) (send_channels self)" "list_all (order_ok (send_channels self)) (channel_send_order self)"
    using inv by (simp_all add: client_inv_def)
  obtain cs s a ps where run: "channel_packets lib (current_time self) (channel_send_order self)
      (send_channels self, next_sequence self, available_bytes_per_tick self, []) = Some (cs, s, a, ps)"
    using channel_packets_spec [OF i, where lmt = False and lib = lib and s = "next_sequence self" and qs = "[]"
        and a = "available_bytes_per_tick self"] by auto
  have "list_all channel_limits (send_channels self)" "s < varint_limit"
    using lmt run by (simp_all add: tick_limits_def)
  from client_get_packets_spec [OF laws inv False this(1) run this(2)] show ?thesis
    using client_inv_disconnect by (metis (no_types, lifting))
qed

lemma client_do_inv:
  assumes laws: "octets_laws lib e16 ev" and inv: "client_inv self" and ok: "action_ok lib act self"
  shows "\<exists>self'. client_do lib act self = Some self' \<and> client_inv self'"
proof (cases act)
  case (Act_update d)
  then show ?thesis
    using client_update_spec [OF inv, of d] by auto
next
  case (Act_send ch m)
  then show ?thesis
    using client_send_message_spec [OF inv] ok by auto
next
  case (Act_receive ch)
  then show ?thesis
    using client_receive_message_spec [OF inv] ok by fastforce
next
  case (Act_packet bs)
  then have "packet_fits (receive_channels self) p" if "from_bytes lib bs = Ok (p, r)" for p r
    using ok that by simp
  then show ?thesis
    using client_process_packet_spec [OF laws inv, of bs] Act_packet by auto
next
  case Act_tick
  then show ?thesis
    using client_tick_inv [OF laws inv] ok by auto
qed (use inv client_inv_set_status in auto)

lemma client_run_inv:
  assumes "octets_laws lib e16 ev"
  shows "client_inv self \<Longrightarrow> run_ok lib acts self \<Longrightarrow> \<exists>self'. client_run lib acts self = Some self' \<and> client_inv self'"
proof (induction acts arbitrary: self)
  case (Cons act acts)
  then obtain self1 where "client_do lib act self = Some self1" "client_inv self1"
    using client_do_inv [OF assms, of self act] by auto
  with Cons show ?case
    by auto
qed simp


context octets_laws
begin

lemma ack_tail_bytes_ge:
  assumes "desc_ranges_wf rs" "\<forall>(s, e) \<in> set rs. e < p" "p \<le> varint_limit"
  shows "2 * length rs \<le> length (ack_tail_bytes enc_varint p rs)"
  using assms
proof (induction rs arbitrary: p)
  case (Cons r rs)
  obtain s e where r: "r = (s, e)"
    by (cases r)
  have "s < e" "e < p" "desc_ranges_wf rs" "\<forall>(s', e') \<in> set rs. e' < s"
    using Cons.prems by (auto simp: r desc_ranges_wf_def)
  moreover from this have "p - e - 1 < varint_limit" "e - 1 - s < varint_limit" "s \<le> varint_limit"
    using Cons.prems(3) by linarith+
  ultimately show ?case
    using Cons.IH [of s] varint_len_bounds [of "p - e - 1"] varint_len_bounds [of "e - 1 - s"]
    by (simp add: r length_enc_varint)
qed simp

lemma ack_bytes_ge:
  assumes "packet_wf (Ack s rs)"
  shows "2 * length rs + 3 \<le> length (packet_bytes enc_u16 enc_varint (Ack s rs))"
proof -
  obtain qs a b where rs: "rs = qs @ [(a, b)]"
    using assms by (cases rs rule: rev_cases) auto
  have wf: "a < b" "\<forall>(s', e') \<in> set qs. e' < a" "b \<le> varint_limit" "s < varint_limit" "length qs < varint_limit"
    using assms by (auto simp: rs ack_ranges_wf_def sorted_wrt_append)
  have "desc_ranges_wf (rev qs)"
    using assms by (auto simp: rs desc_ranges_wf_def ack_ranges_wf_def sorted_wrt_append sorted_wrt_rev)
  then have "2 * length qs \<le> length (ack_tail_bytes enc_varint a (rev qs))"
    using ack_tail_bytes_ge [of "rev qs" a] wf by simp
  moreover have "1 \<le> length (enc_varint n)" if "n < varint_limit" for n
    using varint_len_bounds [OF that] that by (simp add: length_enc_varint)
  from this [of s] this [of "b - 1"] this [of "b - 1 - a"] this [of "length qs"]
  have "1 \<le> length (enc_varint s)" "1 \<le> length (enc_varint (b - 1))" "1 \<le> length (enc_varint (b - 1 - a))"
      "1 \<le> length (enc_varint (length qs))"
    using wf by linarith+
  ultimately show ?thesis
    by (simp add: rs)
qed

end

subsection \<open>Properties\<close>

definition demo_client :: renet_client where
  "demo_client = the (client_new config_test False)"

lemma demo_client_eq:
  "client_new config_test False = Some demo_client"
  "client_inv demo_client" "connection_status demo_client = Connecting"
proof -
  have d: "distinct (map cfg_channel_id default_config)"
    by (simp add: default_config_def)
  obtain self where "client_new config_test False = Some self" "client_inv self" "connection_status self = Connecting"
    using client_from_channels_inv [OF d d, of False 60000]
    by (auto simp: client_new_def config_test_def config_from_shared_channels_def config_from_channels_def)
  then show "client_new config_test False = Some demo_client" "client_inv demo_client" "connection_status demo_client = Connecting"
    by (simp_all add: demo_client_def)
qed

lemma max_channel_default: "max_channel default_config = 2"
  by (simp add: max_channel_def default_config_def)

lemma replicate_3: "replicate 3 x = [x, x, x]"
  by (simp add: numeral_3_eq_3)

lemma replicate_2: "replicate 2 x = [x, x]"
  by (simp add: numeral_2_eq_2)

lemma list_update_3: "[a, b, c][2 := x] = [a, b, x]"
  by (simp add: numeral_2_eq_2)

lemma demo_client_channels:
  "send_channels demo_client = [SC_Unreliable (scu_new 0 5242880 False), SC_Reliable (scr_new 1 300000000 5242880),
     SC_Reliable (scr_new 2 300000000 5242880)]"
  "receive_channels demo_client = [RC_Unreliable (rcu_new 0 5242880), RC_Reliable (rcr_new 5242880 False),
     RC_Reliable (rcr_new 5242880 True)]"
  "channel_send_order demo_client = [CO_Unreliable 0, CO_Reliable 1, CO_Reliable 2]"
  "sent_packets demo_client = []" "pending_acks demo_client = []" "next_sequence demo_client = 0"
  "current_time demo_client = 0" "conn_stats demo_client = stats_new" "available_bytes_per_tick demo_client = 60000"
  by (simp_all add: demo_client_def client_new_def config_test_def config_from_shared_channels_def config_from_channels_def
      client_from_channels_def max_channel_default replicate_3 list_update_3)
    (simp_all add: default_config_def make_send_channel_def make_receive_channel_def from_millis_def list_update_3 replicate_2)

text \<open>
  C4: a connection survives every history. Starting from a configuration without duplicate channel ids,
  no sequence of calls by the application and the transport, interleaved with arbitrary packets whose
  slices agree with the slices before them, makes an operation panic, and every state on the way
  satisfies the invariant.
\<close>

theorem client_run_safe:
  assumes "octets_laws lib e16 ev" "client_new config rel = Some self" "run_ok lib acts self"
    and "distinct (map cfg_channel_id (client_channels_config config))"
    and "distinct (map cfg_channel_id (server_channels_config config))"
  shows "\<exists>self'. client_run lib acts self = Some self' \<and> client_inv self'"
proof -
  let ?c = "if rel then downgrade_to_unreliable config else config"
  have ids: "map cfg_channel_id (client_channels_config ?c) = map cfg_channel_id (client_channels_config config)"
      "map cfg_channel_id (server_channels_config ?c) = map cfg_channel_id (server_channels_config config)"
    by (simp_all add: downgrade_to_unreliable_def comp_def)
  have "client_from_channels rel (cc_available_bytes_per_tick ?c) (client_channels_config ?c) (server_channels_config ?c) = Some self"
    using assms(2) by (simp add: client_new_def Let_def)
  then have "client_inv self"
    using client_from_channels_inv [of "client_channels_config ?c" "server_channels_config ?c" rel "cc_available_bytes_per_tick ?c"]
      assms(4,5) unfolding ids by auto
  then show ?thesis
    by (rule client_run_inv [OF assms(1) _ assms(3)])
qed

theorem client_run_safe_witness:
  "\<exists>self'. client_run quic_lib [Act_set_connected, Act_send 2 [1, 2, 3], Act_packet [4, 5], Act_update 100] demo_client = Some self' \<and>
     client_inv self'"
proof (rule client_run_safe [OF quic.octets_laws_axioms demo_client_eq(1)])
  show "distinct (map cfg_channel_id (client_channels_config config_test))"
    "distinct (map cfg_channel_id (server_channels_config config_test))"
    by (simp_all add: config_test_def config_from_shared_channels_def config_from_channels_def default_config_def)
  have "from_bytes quic_lib [4, 5] = Err BufferTooShort"
    by (simp add: from_bytes_def get_ack_def quic_lib_def quic_get_varint_def)
  then show "run_ok quic_lib [Act_set_connected, Act_send 2 [1, 2, 3], Act_packet [4, 5], Act_update 100] demo_client"
    by (simp add: set_connected_def is_disconnected_def demo_client_eq(3) demo_client_channels vec_get_def split: option.splits)
qed

text \<open>
  C28: disconnecting is final. Once a connection is disconnected no operation changes its status, so the
  reason given first is the one reported; the transport gets nothing to send, the application nothing
  to receive, and packets and messages are ignored.
\<close>

theorem disconnected_is_final:
  assumes "is_disconnected self"
  shows "(client_do lib act self = Some self' \<longrightarrow> connection_status self' = connection_status self) \<and>
    client_get_packets_to_send lib self = Some (self, []) \<and> client_receive_message self ch = Some (self, None) \<and>
    client_send_message self ch m = Some self \<and> client_process_packet lib self bs = Some self"
proof -
  have status: "connection_status (disconnect_with_reason self r) = connection_status self" for r
    using assms by (simp add: disconnect_with_reason_def)
  have "client_do lib act self = Some self' \<longrightarrow> connection_status self' = connection_status self"
    using assms status
    by (cases act) (auto simp: client_update_def client_send_message_def client_receive_message_def client_process_packet_def
        client_get_packets_to_send_def set_connected_def set_connecting_def client_disconnect_def disconnect_due_to_transport_def
        Let_def split: bind_splits)
  then show ?thesis
    using assms by (simp add: client_get_packets_to_send_def client_receive_message_def client_send_message_def client_process_packet_def)
qed

theorem disconnected_is_final_witness:
  "connection_status (client_disconnect demo_client) = Disconnected DisconnectedByClient \<and>
   connection_status (disconnect_due_to_transport (client_disconnect demo_client)) = Disconnected DisconnectedByClient \<and>
   client_get_packets_to_send quic_lib (client_disconnect demo_client) = Some (client_disconnect demo_client, [])"
proof -
  have d: "connection_status (client_disconnect demo_client) = Disconnected DisconnectedByClient"
    by (simp add: client_disconnect_def disconnect_with_reason_def is_disconnected_def demo_client_eq(3))
  then have "is_disconnected (client_disconnect demo_client)"
    by (simp add: is_disconnected_def)
  from disconnected_is_final [OF this, of quic_lib Act_transport_disconnect] d show ?thesis
    by simp
qed

text \<open>
  C17: what a tick sends. The packets carry consecutive sequence numbers from the connection's counter
  on, which the connection remembers for their acknowledgement; together they stay within the byte
  budget; every payload fits 1400 bytes and is read back by the peer as exactly its packet, as long as
  the acknowledgement of the pending ranges fits.
\<close>

theorem tick_packets:
  assumes "octets_laws lib e16 ev" "client_inv self" "\<not> is_disconnected self" "tick_limits lib self"
    and "length (packet_bytes e16 ev (Ack s' (pending_acks self))) \<le> 1400"
    and "client_get_packets_to_send lib self = Some (self', payloads)"
    and "s' = next_sequence self' - 1"
  shows "\<exists>packets. list_all2 (\<lambda>b p. from_bytes lib b = Ok (p, [])) payloads packets \<and>
    map packet_sequence packets = [next_sequence self..<next_sequence self'] \<and>
    map fst (sent_packets self') = map fst (sent_packets self) @ [next_sequence self..<next_sequence self'] \<and>
    payload_bytes packets \<le> available_bytes_per_tick self \<and> list_all (\<lambda>b. length b \<le> 1400) payloads \<and>
    connection_status self' = connection_status self"
proof -
  have i: "channels_ok (current_time self) (send_channels self)" "list_all (order_ok (send_channels self)) (channel_send_order self)"
    using assms(2) by (simp_all add: client_inv_def)
  obtain cs s a ps where run: "channel_packets lib (current_time self) (channel_send_order self)
      (send_channels self, next_sequence self, available_bytes_per_tick self, []) = Some (cs, s, a, ps)"
    using channel_packets_spec [OF i, where lmt = False and lib = lib and s = "next_sequence self" and qs = "[]"
        and a = "available_bytes_per_tick self"] by auto
  have lmt: "list_all channel_limits (send_channels self)" "s < varint_limit"
    using assms(4) run by (simp_all add: tick_limits_def)
  let ?packets = "ps @ ack_packet_of self s"
  obtain sent st where spec: "client_get_packets_to_send lib self =
        (if \<forall>p \<in> set ?packets. length (packet_bytes e16 ev p) \<le> 1400
         then Some (self\<lparr>send_channels := cs, next_sequence := s + length (ack_packet_of self s), sent_packets := sent, conn_stats := st\<rparr>,
           map (packet_bytes e16 ev) ?packets)
         else Some (disconnect_with_reason (self\<lparr>send_channels := cs, next_sequence := s + length (ack_packet_of self s),
             sent_packets := sent\<rparr>) (PacketSerialization BufferTooShort), []))"
      "map packet_sequence ?packets = [next_sequence self..<s + length (ack_packet_of self s)]"
      "map fst sent = map fst (sent_packets self) @ [next_sequence self..<s + length (ack_packet_of self s)]"
      "payload_bytes ?packets \<le> available_bytes_per_tick self" "\<forall>p \<in> set ?packets. packet_wf p"
      "\<forall>p \<in> set ps. length (packet_bytes e16 ev p) \<le> 1400"
    by (rule client_get_packets_spec [OF assms(1-3) lmt(1) run lmt(2)]) blast
  have "next_sequence self' = s + length (ack_packet_of self s)"
    using assms(6) spec(1) by (auto simp: disconnect_with_reason_def split: if_splits)
  then have fit: "\<forall>p \<in> set ?packets. length (packet_bytes e16 ev p) \<le> 1400"
    using assms(5,7) spec(6) by (auto simp: ack_packet_of_def)
  then have res: "payloads = map (packet_bytes e16 ev) ?packets" "self' = self\<lparr>send_channels := cs,
      next_sequence := s + length (ack_packet_of self s), sent_packets := sent, conn_stats := st\<rparr>"
    using assms(6) spec(1) by simp_all
  have "list_all2 (\<lambda>b p. from_bytes lib b = Ok (p, [])) payloads ?packets"
    unfolding res(1) using spec(5) octets_laws.from_bytes_packet_bytes [OF assms(1), where r = "[]"]
    by (auto simp: list_all2_conv_all_nth nth_append simp del: packet_wf.simps)
  then show ?thesis
    using spec(2-4) fit by (intro exI [of _ ?packets]) (auto simp: res list_all_iff)
qed


lemma demo_tick_limits: "tick_limits quic_lib (set_connected demo_client)"
  by (simp add: tick_limits_def set_connected_def is_disconnected_def demo_client_eq(3) demo_client_channels scu_new_def
      scr_new_def SLICE_SIZE_def vec_get_def scu_get_packets_to_send_def scr_get_packets_to_send_def finish_small_def
      initial_state_def)

lemma demo_connected_inv: "client_inv (set_connected demo_client)" "\<not> is_disconnected (set_connected demo_client)"
  using client_inv_set_status(1) [OF demo_client_eq(2)]
  by (simp_all add: set_connected_def is_disconnected_def demo_client_eq(3))

text \<open>A connected client with one message on the reliable ordered channel and one packet to acknowledge.\<close>

definition demo_sending :: renet_client where
  "demo_sending = demo_client\<lparr>connection_status := Connected, pending_acks := [(3, 7)],
     send_channels := [SC_Empty, SC_Empty, SC_Reliable (fst (scr_send_message (scr_new 2 300000000 5242880) [7, 8]))],
     channel_send_order := [CO_Reliable 2]\<rparr>"

lemma demo_sending_ok: "client_inv demo_sending" "\<not> is_disconnected demo_sending" "tick_limits quic_lib demo_sending"
proof -
  have "scr_inv 0 (fst (scr_send_message (scr_new 2 300000000 5242880) [7, 8]))"
    by (intro scr_inv_send_message scr_inv_new)
  then show "client_inv demo_sending"
    using demo_client_eq(2)
    by (auto simp: demo_sending_def client_inv_def channels_ok_def demo_client_channels sent_ok_def ack_ranges_wf_def in_ranges_def
        vec_get_def less_Suc_eq numeral_3_eq_3 scr_send_message_def scr_new_def Let_def)
  show "\<not> is_disconnected demo_sending"
    by (simp add: demo_sending_def is_disconnected_def)
  show "tick_limits quic_lib demo_sending"
    by (simp add: demo_sending_def tick_limits_def demo_client_channels scr_send_message_def scr_new_def vec_get_def Let_def
        scr_get_packets_to_send_def send_small_def resend_due_def push_small_def finish_small_def flush_small_def initial_state_def
        SLICE_SIZE_def quic_lib_def quic_varint_len_def)
qed

theorem tick_packets_witness:
  "\<exists>self' payloads packets. client_get_packets_to_send quic_lib demo_sending = Some (self', payloads) \<and>
     list_all2 (\<lambda>b p. from_bytes quic_lib b = Ok (p, [])) payloads packets \<and>
     map packet_sequence packets = [0..<next_sequence self']"
proof -
  obtain self' payloads where run: "client_get_packets_to_send quic_lib demo_sending = Some (self', payloads)"
    using client_tick_inv [OF quic.octets_laws_axioms demo_sending_ok(1,3)] by blast
  have "length (quic_enc_varint n) \<le> 8" for n
    by (simp add: quic_enc_varint_def)
  from this [of "next_sequence self' - 1"]
  have "length (packet_bytes (\<lambda>h. be_bytes 2 (unat h)) quic_enc_varint (Ack (next_sequence self' - 1) (pending_acks demo_sending))) \<le> 1400"
    by (simp add: demo_sending_def quic_enc_varint_def)
  from tick_packets [OF quic.octets_laws_axioms demo_sending_ok this run refl] run show ?thesis
    by (auto simp: demo_sending_def demo_client_channels)
qed

text \<open>
  C36: too many pending ranges end the connection. Every range takes at least two bytes of the
  acknowledgement packet, so with 700 of them it does not fit the buffer and the next tick, instead of
  sending anything, disconnects with a serialization error. Nothing in \<open>add_pending_ack\<close> prevents a
  peer that leaves gaps and sends in descending order from causing this.
\<close>

theorem ack_overflow_disconnects:
  assumes "octets_laws lib e16 ev" "client_inv self" "\<not> is_disconnected self" "tick_limits lib self"
    and "700 \<le> length (pending_acks self)"
  shows "\<exists>self'. client_get_packets_to_send lib self = Some (self', []) \<and>
    connection_status self' = Disconnected (PacketSerialization BufferTooShort)"
proof -
  have i: "channels_ok (current_time self) (send_channels self)" "list_all (order_ok (send_channels self)) (channel_send_order self)"
    using assms(2) by (simp_all add: client_inv_def)
  obtain cs s a ps where run: "channel_packets lib (current_time self) (channel_send_order self)
      (send_channels self, next_sequence self, available_bytes_per_tick self, []) = Some (cs, s, a, ps)"
    using channel_packets_spec [OF i, where lmt = False and lib = lib and s = "next_sequence self" and qs = "[]"
        and a = "available_bytes_per_tick self"] by auto
  have lmt: "list_all channel_limits (send_channels self)" "s < varint_limit"
    using assms(4) run by (simp_all add: tick_limits_def)
  let ?packets = "ps @ ack_packet_of self s"
  obtain sent st where spec: "client_get_packets_to_send lib self =
        (if \<forall>p \<in> set ?packets. length (packet_bytes e16 ev p) \<le> 1400
         then Some (self\<lparr>send_channels := cs, next_sequence := s + length (ack_packet_of self s), sent_packets := sent, conn_stats := st\<rparr>,
           map (packet_bytes e16 ev) ?packets)
         else Some (disconnect_with_reason (self\<lparr>send_channels := cs, next_sequence := s + length (ack_packet_of self s),
             sent_packets := sent\<rparr>) (PacketSerialization BufferTooShort), []))"
      "\<forall>p \<in> set ?packets. packet_wf p"
    by (rule client_get_packets_spec [OF assms(1-3) lmt(1) run lmt(2)]) blast
  have ack: "Ack s (pending_acks self) \<in> set ?packets"
    using assms(5) by (auto simp: ack_packet_of_def)
  then have "1400 < length (packet_bytes e16 ev (Ack s (pending_acks self)))"
    using octets_laws.ack_bytes_ge [OF assms(1), of s "pending_acks self"] spec(2) assms(5) by fastforce
  with ack have "\<not> (\<forall>p \<in> set ?packets. length (packet_bytes e16 ev p) \<le> 1400)"
    by (meson not_le)
  from trans [OF spec(1) if_not_P [OF this]] show ?thesis
    using assms(3) by (simp add: disconnect_with_reason_def is_disconnected_def)
qed

theorem ack_overflow_disconnects_witness:
  "\<exists>self'. client_get_packets_to_send quic_lib (demo_sending\<lparr>pending_acks := map (\<lambda>i. (2 * i, 2 * i + 1)) [0..<700]\<rparr>) = Some (self', []) \<and>
    connection_status self' = Disconnected (PacketSerialization BufferTooShort)"
proof (rule ack_overflow_disconnects [OF quic.octets_laws_axioms])
  let ?self = "demo_sending\<lparr>pending_acks := map (\<lambda>i. (2 * i, 2 * i + 1)) [0..<700]\<rparr>"
  have "sorted_wrt (\<lambda>a b. snd a < fst b) (map (\<lambda>i. (2 * i, 2 * i + 1 :: nat)) [0..<n])" for n
    by (induction n) (auto simp: sorted_wrt_append)
  then show "client_inv ?self"
    using demo_sending_ok(1) by (auto simp: client_inv_def ack_ranges_wf_def in_ranges_def)
  show "\<not> is_disconnected ?self" "tick_limits quic_lib ?self"
    using demo_sending_ok(2,3) by (simp_all add: is_disconnected_def tick_limits_def)
  show "700 \<le> length (pending_acks ?self)"
    by simp
qed


text \<open>
  C33: a packet from the network can stop the program. A slice whose index is not below its count is
  accepted by the parser; when it carries a full payload for a message that is not being assembled and
  there is memory for it, handling it panics.
\<close>

theorem malformed_slice_panics:
  assumes "\<not> is_disconnected self" "client_inv self" "from_bytes lib bs = Ok (ReliableSlice s ch sl, rest)"
    and "vec_get (receive_channels self) (unat ch) = Some (RC_Reliable c)"
    and "\<not> bt_contains_key (rcr_messages c) (message_id sl)" "oldest_pending_message_id c \<le> message_id sl"
    and "bt_get (rcr_slices c) (message_id sl) = None"
    and "rcr_memory_usage_bytes c + num_slices sl * SLICE_SIZE \<le> rcr_max_memory_usage_bytes c"
    and "num_slices sl \<le> slice_index sl" "length (payload sl) = SLICE_SIZE" "0 < num_slices sl"
  shows "client_process_packet lib self bs = None"
proof -
  obtain st where st: "stats_received_packet (conn_stats self) (length bs) = Some st"
    using stats_received_packet_inv [of "conn_stats self" "length bs"] assms(2) by (auto simp: client_inv_def)
  have "sc_process_slice (sc_new (message_id sl) (num_slices sl)) (slice_index sl) (payload sl) = None"
    using assms(9-11) by (simp add: sc_process_slice_def sc_new_def index_def)
  then have "rcr_process_slice c sl = None"
    using assms(5-8) by (simp add: rcr_process_slice_def rcr_reserve_def rcr_constructor_def bt_contains_key_def Let_def)
  then show ?thesis
    using assms(1,3,4) st by (simp add: client_process_packet_def)
qed

theorem malformed_slice_panics_witness:
  "client_process_packet quic_lib (set_connected demo_client)
     (packet_bytes (\<lambda>h. be_bytes 2 (unat h)) quic_enc_varint
       (ReliableSlice 0 2 \<lparr>message_id = 0, slice_index = 1, num_slices = 1, payload = replicate 1200 9\<rparr>)) = None"
proof -
  let ?sl = "\<lparr>message_id = 0, slice_index = 1, num_slices = 1, payload = replicate 1200 9\<rparr>"
  have "from_bytes quic_lib (packet_bytes (\<lambda>h. be_bytes 2 (unat h)) quic_enc_varint (ReliableSlice 0 2 ?sl) @ []) =
      Ok (ReliableSlice 0 2 ?sl, [])"
    by (rule quic.from_bytes_packet_bytes) (simp add: SLICE_SIZE_def)
  then show ?thesis
    by (intro malformed_slice_panics [OF demo_connected_inv(2,1), where c = "rcr_new 5242880 True" and s = 0 and ch = 2 and sl = ?sl and rest = "[]"])
      (simp_all add: set_connected_def is_disconnected_def demo_client_eq(3) demo_client_channels vec_get_def rcr_new_def
        bt_contains_key_def bt_get_def SLICE_SIZE_def)
qed

text \<open>
  C26: acknowledgements chosen by the peer are harmless. Any acknowledgement packet that parses is handled
  without a panic; exactly the packets in flight with a number in one of its ranges are forgotten, all
  others stay, and numbers that were never used or were acknowledged before are ignored.
\<close>

theorem ack_forgets_exactly:
  assumes "octets_laws lib e16 ev" "client_inv self" "\<not> is_disconnected self" "from_bytes lib bs = Ok (Ack s ranges, rest)"
  shows "\<exists>self'. client_process_packet lib self bs = Some self' \<and> client_inv self' \<and>
    sent_packets self' = filter (\<lambda>e. fst e \<notin> in_ranges ranges) (sent_packets self)"
proof -
  have wf: "ack_ranges_wf ranges" "s < varint_limit"
    using octets_laws.from_bytes_packet_wf [OF assms(1,4)] by simp_all
  obtain st where st: "stats_received_packet (conn_stats self) (length bs) = Some st" "stats_inv st"
    using stats_received_packet_inv [of "conn_stats self" "length bs"] assms(2) by (auto simp: client_inv_def)
  let ?self = "self\<lparr>conn_stats := st, pending_acks := add_pending_ack (pending_acks self) s\<rparr>"
  have "client_inv ?self"
    using assms(2) st(2) wf(2) add_pending_ack_subset [of "pending_acks self" s]
    by (auto simp: client_inv_def add_pending_ack_wf)
  from handle_ack_spec [OF this wf(1), of s] show ?thesis
    using assms(3,4) st(1) by (simp add: client_process_packet_def)
qed

theorem ack_forgets_exactly_witness:
  "\<exists>self'. client_process_packet quic_lib demo_sending [4, 5, 19, 9, 0] = Some self' \<and> sent_packets self' = []"
proof -
  have "from_bytes quic_lib [4, 5, 19, 9, 0] = Ok (Ack 5 [(10, 20)], [])"
    by (simp add: from_bytes_def get_ack_def quic_lib_def quic_get_varint_def)
  from ack_forgets_exactly [OF quic.octets_laws_axioms demo_sending_ok(1,2) this] show ?thesis
    by (auto simp: demo_sending_def demo_client_channels)
qed

end
