(* ===== verification/Renet_Server.thy ===== *)
theory Renet_Server
  imports Connection_Theorems
begin

text \<open>
  \<open>src/renet2/src/server.rs\<close>: \<open>RenetServer\<close>, one connection per client id and a queue of events. The hash
  map is an ordered map here; the loops over it touch every connection once and independently, so the
  order does not matter. \<open>None\<close> is a panic of one of the connections.
\<close>

type_synonym ClientId = nat

datatype ServerEvent =
    ClientConnected (ev_client: ClientId)
  | ClientDisconnected (ev_client: ClientId) DisconnectReason

record renet_server =
  connections :: "(ClientId, renet_client) btree_map"
  connection_config :: ConnectionConfig
  events :: "ServerEvent list"

definition server_new :: "ConnectionConfig \<Rightarrow> renet_server" where
  "server_new config = \<lparr>connections = [], connection_config = config, events = []\<rparr>"

definition add_connection :: "renet_server \<Rightarrow> ClientId \<Rightarrow> bool \<Rightarrow> renet_server option" where
  "add_connection self client_id socket_is_reliable =
     (if (case bt_get (connections self) client_id of
            Some client \<Rightarrow> has_reliable_socket client = socket_is_reliable | None \<Rightarrow> False)
      then Some self
      else do {
        client \<leftarrow> client_new_from_server (connection_config self) socket_is_reliable;
        let client = set_connected client;
        Some (self\<lparr>connections := bt_insert client_id client (connections self),
          events := events self @ [ClientConnected client_id]\<rparr>)
      })"

definition get_event :: "renet_server \<Rightarrow> renet_server \<times> ServerEvent option" where
  "get_event self = (case events self of [] \<Rightarrow> (self, None) | ev # evs \<Rightarrow> (self\<lparr>events := evs\<rparr>, Some ev))"

definition has_connections :: "renet_server \<Rightarrow> bool" where
  "has_connections self \<longleftrightarrow> connections self \<noteq> []"

definition server_disconnect_reason :: "renet_server \<Rightarrow> ClientId \<Rightarrow> DisconnectReason option" where
  "server_disconnect_reason self client_id =
     (case bt_get (connections self) client_id of Some connection \<Rightarrow> disconnect_reason connection | None \<Rightarrow> None)"

definition server_rtt :: "renet_server \<Rightarrow> ClientId \<Rightarrow> rat" where
  "server_rtt self client_id = (case bt_get (connections self) client_id of Some connection \<Rightarrow> rtt connection | None \<Rightarrow> 0)"

definition server_packet_loss :: "renet_server \<Rightarrow> ClientId \<Rightarrow> rat option" where
  "server_packet_loss self client_id =
     (case bt_get (connections self) client_id of Some connection \<Rightarrow> client_packet_loss connection | None \<Rightarrow> Some 0)"

definition server_bytes_sent_per_sec :: "renet_server \<Rightarrow> ClientId \<Rightarrow> rat option option" where
  "server_bytes_sent_per_sec self client_id =
     (case bt_get (connections self) client_id of
        Some connection \<Rightarrow> client_bytes_sent_per_sec connection | None \<Rightarrow> Some (Some 0))"

definition server_bytes_received_per_sec :: "renet_server \<Rightarrow> ClientId \<Rightarrow> rat option option" where
  "server_bytes_received_per_sec self client_id =
     (case bt_get (connections self) client_id of
        Some connection \<Rightarrow> client_bytes_received_per_sec connection | None \<Rightarrow> Some (Some 0))"

definition server_network_info :: "renet_server \<Rightarrow> ClientId \<Rightarrow> (ClientNotFound + NetworkInfo) option" where
  "server_network_info self client_id =
     (case bt_get (connections self) client_id of
        Some connection \<Rightarrow> map_option Inr (network_info connection) | None \<Rightarrow> Some (Inl ClientNotFound))"

definition remove_connection :: "renet_server \<Rightarrow> ClientId \<Rightarrow> renet_server" where
  "remove_connection self client_id =
     (case bt_get (connections self) client_id of
        Some connection \<Rightarrow>
          let reason = (case disconnect_reason connection of Some reason \<Rightarrow> reason | None \<Rightarrow> Transport)
          in self\<lparr>connections := bt_remove client_id (connections self),
               events := events self @ [ClientDisconnected client_id reason]\<rparr>
      | None \<Rightarrow> self)"

text \<open>\<open>if let Some(connection) = self.connections.get_mut(&client_id)\<close>.\<close>

definition put_connection :: "renet_server \<Rightarrow> ClientId \<Rightarrow> renet_client \<Rightarrow> renet_server" where
  "put_connection self client_id connection = self\<lparr>connections := bt_insert client_id connection (connections self)\<rparr>"

definition server_disconnect :: "renet_server \<Rightarrow> ClientId \<Rightarrow> renet_server" where
  "server_disconnect self client_id =
     (case bt_get (connections self) client_id of
        Some connection \<Rightarrow> put_connection self client_id (disconnect_with_reason connection DisconnectedByServer)
      | None \<Rightarrow> self)"

definition disconnect_all :: "renet_server \<Rightarrow> renet_server" where
  "disconnect_all self =
     self\<lparr>connections := map (\<lambda>(client_id, connection). (client_id, disconnect_with_reason connection DisconnectedByServer))
       (connections self)\<rparr>"

text \<open>The loop over \<open>connections.iter_mut()\<close>.\<close>

fun each_connection ::
  "(ClientId \<Rightarrow> renet_client \<Rightarrow> renet_client option) \<Rightarrow> (ClientId, renet_client) btree_map \<Rightarrow>
   (ClientId, renet_client) btree_map option" where
  "each_connection f [] = Some []"
| "each_connection f ((client_id, connection) # cs) = do {
     connection \<leftarrow> f client_id connection;
     cs \<leftarrow> each_connection f cs;
     Some ((client_id, connection) # cs)
   }"

definition broadcast_message :: "renet_server \<Rightarrow> u8 \<Rightarrow> bytes \<Rightarrow> renet_server option" where
  "broadcast_message self channel_id message = do {
     cs \<leftarrow> each_connection (\<lambda>_ connection. client_send_message connection channel_id message) (connections self);
     Some (self\<lparr>connections := cs\<rparr>)
   }"

definition broadcast_message_except :: "renet_server \<Rightarrow> ClientId \<Rightarrow> u8 \<Rightarrow> bytes \<Rightarrow> renet_server option" where
  "broadcast_message_except self except_id channel_id message = do {
     cs \<leftarrow> each_connection (\<lambda>connection_id connection.
       if except_id = connection_id then Some connection else client_send_message connection channel_id message)
       (connections self);
     Some (self\<lparr>connections := cs\<rparr>)
   }"

definition server_channel_available_memory :: "renet_server \<Rightarrow> ClientId \<Rightarrow> u8 \<Rightarrow> nat option" where
  "server_channel_available_memory self client_id channel_id =
     (case bt_get (connections self) client_id of
        Some connection \<Rightarrow> channel_available_memory connection channel_id | None \<Rightarrow> Some 0)"

definition server_can_send_message :: "renet_server \<Rightarrow> ClientId \<Rightarrow> u8 \<Rightarrow> nat \<Rightarrow> bool option" where
  "server_can_send_message self client_id channel_id size_bytes =
     (case bt_get (connections self) client_id of
        Some connection \<Rightarrow> client_can_send_message connection channel_id size_bytes | None \<Rightarrow> Some False)"

definition server_send_message :: "renet_server \<Rightarrow> ClientId \<Rightarrow> u8 \<Rightarrow> bytes \<Rightarrow> renet_server option" where
  "server_send_message self client_id channel_id message =
     (case bt_get (connections self) client_id of
        Some connection \<Rightarrow> do {
          connection \<leftarrow> client_send_message connection channel_id message;
          Some (put_connection self client_id connection)
        }
      | None \<Rightarrow> Some self)"

definition server_receive_message :: "renet_server \<Rightarrow> ClientId \<Rightarrow> u8 \<Rightarrow> (renet_server \<times> bytes option) option" where
  "server_receive_message self client_id channel_id =
     (case bt_get (connections self) client_id of
        Some connection \<Rightarrow> do {
          (connection, message) \<leftarrow> client_receive_message connection channel_id;
          Some (put_connection self client_id connection, message)
        }
      | None \<Rightarrow> Some (self, None))"

definition clients_id :: "renet_server \<Rightarrow> ClientId list" where
  "clients_id self = map fst (filter (\<lambda>(_, c). is_connected c) (connections self))"

definition disconnections_id :: "renet_server \<Rightarrow> ClientId list" where
  "disconnections_id self = map fst (filter (\<lambda>(_, c). is_disconnected c) (connections self))"

definition connected_clients :: "renet_server \<Rightarrow> nat" where
  "connected_clients self = length (filter (\<lambda>(_, c). is_connected c) (connections self))"

definition server_is_connected :: "renet_server \<Rightarrow> ClientId \<Rightarrow> bool" where
  "server_is_connected self client_id \<longleftrightarrow>
     (case bt_get (connections self) client_id of Some connection \<Rightarrow> is_connected connection | None \<Rightarrow> False)"

definition server_update :: "renet_server \<Rightarrow> duration \<Rightarrow> renet_server option" where
  "server_update self duration = do {
     cs \<leftarrow> each_connection (\<lambda>_ connection. client_update connection duration) (connections self);
     Some (self\<lparr>connections := cs\<rparr>)
   }"

definition server_get_packets_to_send ::
  "octets_lib \<Rightarrow> renet_server \<Rightarrow> ClientId \<Rightarrow> (renet_server \<times> (ClientNotFound + bytes list)) option" where
  "server_get_packets_to_send lib self client_id =
     (case bt_get (connections self) client_id of
        Some connection \<Rightarrow> do {
          (connection, packets) \<leftarrow> client_get_packets_to_send lib connection;
          Some (put_connection self client_id connection, Inr packets)
        }
      | None \<Rightarrow> Some (self, Inl ClientNotFound))"

definition process_packet_from ::
  "octets_lib \<Rightarrow> renet_server \<Rightarrow> bytes \<Rightarrow> ClientId \<Rightarrow> (renet_server \<times> (ClientNotFound + unit)) option" where
  "process_packet_from lib self packet client_id =
     (case bt_get (connections self) client_id of
        Some connection \<Rightarrow> do {
          connection \<leftarrow> client_process_packet lib connection packet;
          Some (put_connection self client_id connection, Inr ())
        }
      | None \<Rightarrow> Some (self, Inl ClientNotFound))"

definition new_local_client :: "renet_server \<Rightarrow> ClientId \<Rightarrow> (renet_server \<times> renet_client) option" where
  "new_local_client self client_id = do {
     client \<leftarrow> client_new_from_server (connection_config self) False;
     let client = set_connected client;
     self \<leftarrow> add_connection self client_id False;
     Some (self, client)
   }"

definition disconnect_local_client :: "renet_server \<Rightarrow> ClientId \<Rightarrow> renet_client \<Rightarrow> renet_server \<times> renet_client" where
  "disconnect_local_client self client_id client =
     (if is_disconnected client then (self, client)
      else let client = client_disconnect client
        in if bt_contains_key (connections self) client_id
           then (self\<lparr>connections := bt_remove client_id (connections self),
                   events := events self @ [ClientDisconnected client_id DisconnectedByClient]\<rparr>, client)
           else (self, client))"

fun deliver_to_client :: "octets_lib \<Rightarrow> renet_client \<Rightarrow> bytes list \<Rightarrow> renet_client option" where
  "deliver_to_client lib client [] = Some client"
| "deliver_to_client lib client (packet # packets) = do {
     client \<leftarrow> client_process_packet lib client packet;
     deliver_to_client lib client packets
   }"

fun deliver_to_server ::
  "octets_lib \<Rightarrow> renet_server \<Rightarrow> ClientId \<Rightarrow> bytes list \<Rightarrow> (renet_server \<times> (ClientNotFound + unit)) option" where
  "deliver_to_server lib self client_id [] = Some (self, Inr ())"
| "deliver_to_server lib self client_id (packet # packets) = do {
     (self, r) \<leftarrow> process_packet_from lib self packet client_id;
     case r of Inl e \<Rightarrow> Some (self, Inl e) | Inr _ \<Rightarrow> deliver_to_server lib self client_id packets
   }"

definition process_local_client ::
  "octets_lib \<Rightarrow> renet_server \<Rightarrow> ClientId \<Rightarrow> renet_client \<Rightarrow> (renet_server \<times> renet_client \<times> (ClientNotFound + unit)) option" where
  "process_local_client lib self client_id client = do {
     (self, r) \<leftarrow> server_get_packets_to_send lib self client_id;
     case r of
       Inl e \<Rightarrow> Some (self, client, Inl e)
     | Inr packets \<Rightarrow> do {
         client \<leftarrow> deliver_to_client lib client packets;
         (client, packets) \<leftarrow> client_get_packets_to_send lib client;
         (self, r) \<leftarrow> deliver_to_server lib self client_id packets;
         Some (self, client, r)
       }
   }"

subsection \<open>Connections keep their kind of socket\<close>

lemma reliable_socket_simps [simp]:
  "has_reliable_socket (put_send_channel c i x) = has_reliable_socket c"
  "has_reliable_socket (put_receive_channel c i y) = has_reliable_socket c"
  "has_reliable_socket (disconnect_with_reason c r) = has_reliable_socket c"
  "has_reliable_socket (set_connected c) = has_reliable_socket c"
  by (simp_all add: put_send_channel_def put_receive_channel_def disconnect_with_reason_def set_connected_def)

lemma client_new_socket: "client_new_from_server config rel = Some c \<Longrightarrow> has_reliable_socket c = rel"
  by (auto simp: client_new_from_server_def client_from_channels_def Let_def split: bind_splits)

lemma client_send_socket: "client_send_message c ch m = Some c' \<Longrightarrow> has_reliable_socket c' = has_reliable_socket c"
  by (auto simp: client_send_message_def split: if_splits option.splits SendChannel.splits prod.splits sum.splits)

lemma client_receive_socket: "client_receive_message c ch = Some (c', m) \<Longrightarrow> has_reliable_socket c' = has_reliable_socket c"
  by (auto simp: client_receive_message_def split: if_splits option.splits ReceiveChannel.splits bind_splits)

lemma client_update_socket: "client_update c d = Some c' \<Longrightarrow> has_reliable_socket c' = has_reliable_socket c"
  by (auto simp: client_update_def Let_def split: bind_splits)

lemma client_tick_socket: "client_get_packets_to_send lib c = Some (c', ps) \<Longrightarrow> has_reliable_socket c' = has_reliable_socket c"
  by (auto simp: client_get_packets_to_send_def Let_def split: if_splits bind_splits outcome.splits prod.splits)

lemma deliver_ack_socket: "deliver_ack c info = Some c' \<Longrightarrow> has_reliable_socket c' = has_reliable_socket c"
  by (auto simp: deliver_ack_def split: PacketSentInfo.splits option.splits SendChannel.splits bind_splits)

lemma ack_packets_socket: "ack_packets c acks = Some c' \<Longrightarrow> has_reliable_socket c' = has_reliable_socket c"
proof (induction acks arbitrary: c)
  case (Cons k acks)
  then obtain c1 where c1: "ack_packet c k = Some c1" "ack_packets c1 acks = Some c'"
    by (auto split: bind_splits)
  have "has_reliable_socket c1 = has_reliable_socket c"
    using c1(1) by (auto simp: ack_packet_def Let_def split: bind_splits dest!: deliver_ack_socket)
  with Cons.IH [OF c1(2)] show ?case
    by simp
qed simp

lemma handle_packet_socket: "handle_packet c p = Some c' \<Longrightarrow> has_reliable_socket c' = has_reliable_socket c"
  by (cases p) (auto simp: Let_def split: option.splits ReceiveChannel.splits prod.splits sum.splits bind_splits dest: ack_packets_socket)

lemma client_packet_socket: "client_process_packet lib c bs = Some c' \<Longrightarrow> has_reliable_socket c' = has_reliable_socket c"
  by (auto simp: client_process_packet_def Let_def split: if_splits bind_splits outcome.splits prod.splits dest: handle_packet_socket)

lemmas client_socket = client_send_socket client_receive_socket client_update_socket client_tick_socket client_packet_socket

subsection \<open>Loops over the connections\<close>

lemma each_connection_spec:
  assumes "\<And>i c. (i, c) \<in> set cs \<Longrightarrow> \<exists>c'. f i c = Some c' \<and> P i c'"
  shows "\<exists>cs'. each_connection f cs = Some cs' \<and> map fst cs' = map fst cs \<and> (\<forall>(i, c') \<in> set cs'. P i c')"
  using assms
proof (induction cs)
  case (Cons e cs)
  obtain i c where e: "e = (i, c)"
    by (cases e)
  obtain c' where "f i c = Some c'" "P i c'"
    using Cons.prems [of i c] e by auto
  moreover obtain cs' where "each_connection f cs = Some cs'" "map fst cs' = map fst cs" "\<forall>(i, c') \<in> set cs'. P i c'"
    using Cons.IH Cons.prems by auto
  ultimately show ?case
    by (simp add: e)
qed simp

lemma each_connection_keys:
  "each_connection f cs = Some cs' \<Longrightarrow> map fst cs' = map fst cs"
  by (induction cs arbitrary: cs') (auto split: bind_splits)

definition socket_of :: "(ClientId \<Rightarrow> bool) \<Rightarrow> ClientId \<times> renet_client \<Rightarrow> bool" where
  "socket_of rel e \<longleftrightarrow> has_reliable_socket (snd e) = rel (fst e)"

lemma each_connection_socket:
  assumes "each_connection f cs = Some cs'" "\<And>i c c'. f i c = Some c' \<Longrightarrow> has_reliable_socket c' = has_reliable_socket c"
  shows "list_all (socket_of rel) cs \<Longrightarrow> list_all (socket_of rel) cs'"
  using assms by (induction cs arbitrary: cs') (auto simp: socket_of_def split: bind_splits)

subsection \<open>Histories\<close>

datatype server_action =
    SA_add ClientId bool
  | SA_remove ClientId
  | SA_disconnect ClientId
  | SA_disconnect_all
  | SA_event
  | SA_broadcast u8 bytes
  | SA_broadcast_except ClientId u8 bytes
  | SA_send ClientId u8 bytes
  | SA_receive ClientId u8
  | SA_update duration
  | SA_packets ClientId
  | SA_packet bytes ClientId

text \<open>The state of a history: the server, and the events that were taken from its queue.\<close>

fun server_do ::
  "octets_lib \<Rightarrow> server_action \<Rightarrow> renet_server \<times> ServerEvent list \<Rightarrow> (renet_server \<times> ServerEvent list) option" where
  "server_do lib (SA_add i rel) (self, out) = map_option (\<lambda>s. (s, out)) (add_connection self i rel)"
| "server_do lib (SA_remove i) (self, out) = Some (remove_connection self i, out)"
| "server_do lib (SA_disconnect i) (self, out) = Some (server_disconnect self i, out)"
| "server_do lib SA_disconnect_all (self, out) = Some (disconnect_all self, out)"
| "server_do lib SA_event (self, out) =
     (case get_event self of (self, None) \<Rightarrow> Some (self, out) | (self, Some ev) \<Rightarrow> Some (self, out @ [ev]))"
| "server_do lib (SA_broadcast ch m) (self, out) = map_option (\<lambda>s. (s, out)) (broadcast_message self ch m)"
| "server_do lib (SA_broadcast_except i ch m) (self, out) = map_option (\<lambda>s. (s, out)) (broadcast_message_except self i ch m)"
| "server_do lib (SA_send i ch m) (self, out) = map_option (\<lambda>s. (s, out)) (server_send_message self i ch m)"
| "server_do lib (SA_receive i ch) (self, out) = map_option (\<lambda>(s, _). (s, out)) (server_receive_message self i ch)"
| "server_do lib (SA_update d) (self, out) = map_option (\<lambda>s. (s, out)) (server_update self d)"
| "server_do lib (SA_packets i) (self, out) = map_option (\<lambda>(s, _). (s, out)) (server_get_packets_to_send lib self i)"
| "server_do lib (SA_packet bs i) (self, out) = map_option (\<lambda>(s, _). (s, out)) (process_packet_from lib self bs i)"

inductive server_reach :: "octets_lib \<Rightarrow> (ClientId \<Rightarrow> bool) \<Rightarrow> ConnectionConfig \<Rightarrow> renet_server \<times> ServerEvent list \<Rightarrow> bool"
  for lib rel config where
  reach_new: "server_reach lib rel config (server_new config, [])"
| reach_do: "server_reach lib rel config s \<Longrightarrow> (\<And>i r. act = SA_add i r \<Longrightarrow> r = rel i) \<Longrightarrow>
    server_do lib act s = Some s' \<Longrightarrow> server_reach lib rel config s'"

fun is_connect :: "ServerEvent \<Rightarrow> bool" where
  "is_connect (ClientConnected _) = True"
| "is_connect (ClientDisconnected _ _) = False"

definition history_of :: "ClientId \<Rightarrow> ServerEvent list \<Rightarrow> ServerEvent list" where
  "history_of i evs = filter (\<lambda>ev. ev_client ev = i) evs"

definition alternates :: "ServerEvent list \<Rightarrow> bool \<Rightarrow> bool" where
  "alternates evs present \<longleftrightarrow> (\<forall>n < length evs. is_connect (evs ! n) \<longleftrightarrow> even n) \<and> (present \<longleftrightarrow> odd (length evs))"

lemma alternates_snoc:
  "alternates evs (\<not> is_connect ev) \<Longrightarrow> alternates (evs @ [ev]) (is_connect ev)"
  by (auto simp: alternates_def nth_append less_Suc_eq)

definition server_inv :: "(ClientId \<Rightarrow> bool) \<Rightarrow> renet_server \<times> ServerEvent list \<Rightarrow> bool" where
  "server_inv rel s \<longleftrightarrow> bt_wf (connections (fst s)) \<and>
     list_all (socket_of rel) (connections (fst s)) \<and>
     (\<forall>i. alternates (history_of i (snd s @ events (fst s))) (i \<in> fst ` set (connections (fst s))))"

lemma history_simps [simp]:
  "history_of i [] = []" "history_of i (es @ fs) = history_of i es @ history_of i fs"
  "history_of i [ev] = (if ev_client ev = i then [ev] else [])"
  "history_of i (ev # evs) = (if ev_client ev = i then [ev] else []) @ history_of i evs"
  by (simp_all add: history_of_def)

text \<open>Steps that change neither the ids nor the queue.\<close>

lemma server_inv_same_ids:
  assumes "server_inv rel (self, out)" "map fst cs = map fst (connections self)"
    and "list_all (socket_of rel) cs"
  shows "server_inv rel (self\<lparr>connections := cs\<rparr>, out)"
proof -
  have "fst ` set cs = fst ` set (connections self)"
    using arg_cong [OF assms(2), of set] by simp
  moreover have "bt_wf cs"
    using assms(1,2) by (simp add: server_inv_def bt_wf_def)
  ultimately show ?thesis
    using assms by (simp add: server_inv_def)
qed

lemma server_inv_put:
  assumes inv: "server_inv rel (self, out)" and get: "bt_get (connections self) i = Some c"
    and rel: "has_reliable_socket c' = has_reliable_socket c"
  shows "server_inv rel (put_connection self i c', out)"
proof -
  have wf: "bt_wf (connections self)"
    using inv by (simp add: server_inv_def)
  have mem: "(i, c) \<in> set (connections self)"
    by (rule bt_get_in_set [OF get])
  then have keys: "fst ` set (bt_insert i c' (connections self)) = fst ` set (connections self)"
    by (force simp: fst_set_bt_insert)
  show ?thesis
    using inv mem rel keys
    by (auto simp: server_inv_def put_connection_def bt_wf_bt_insert list_all_iff socket_of_def dest!: in_set_bt_insert [OF wf])
qed

lemma server_inv_history:
  "server_inv rel (self, out) \<Longrightarrow> alternates (history_of i (out @ events self)) (i \<in> fst ` set (connections self))"
  by (simp add: server_inv_def)

lemma server_inv_add:
  assumes inv: "server_inv rel (self, out)" and run: "add_connection self i (rel i) = Some self'"
  shows "server_inv rel (self', out)"
proof (cases "bt_get (connections self) i")
  case None
  have wf: "bt_wf (connections self)"
    using inv by (simp add: server_inv_def)
  obtain c where c: "client_new_from_server (connection_config self) (rel i) = Some c"
      "self' = self\<lparr>connections := bt_insert i (set_connected c) (connections self), events := events self @ [ClientConnected i]\<rparr>"
    using run None by (auto simp: add_connection_def Let_def split: bind_splits)
  have "i \<notin> fst ` set (connections self)"
    using None by (simp add: bt_get_None_iff)
  then have "alternates (history_of i (out @ events self)) (\<not> is_connect (ClientConnected i))"
    using server_inv_history [OF inv, of i] by simp
  from alternates_snoc [OF this]
  have "alternates (history_of k (out @ events self @ [ClientConnected i])) (k = i \<or> k \<in> fst ` set (connections self))" for k
    using server_inv_history [OF inv, of k] by (cases "k = i") simp_all
  moreover have "list_all (socket_of rel) (bt_insert i (set_connected c) (connections self))"
    using inv client_new_socket [OF c(1)] by (auto simp: server_inv_def list_all_iff socket_of_def dest!: in_set_bt_insert [OF wf])
  ultimately show ?thesis
    using wf by (simp add: c(2) server_inv_def bt_wf_bt_insert fst_set_bt_insert)
next
  case (Some c)
  then have "has_reliable_socket c = rel i"
    using inv bt_get_in_set [OF Some] by (auto simp: server_inv_def list_all_iff socket_of_def)
  then show ?thesis
    using inv run Some by (simp add: add_connection_def)
qed

lemma server_inv_remove: "server_inv rel (self, out) \<Longrightarrow> server_inv rel (remove_connection self i, out)"
proof (cases "bt_get (connections self) i")
  case (Some c)
  assume inv: "server_inv rel (self, out)"
  obtain r where rm: "remove_connection self i =
      self\<lparr>connections := bt_remove i (connections self), events := events self @ [ClientDisconnected i r]\<rparr>"
    using Some by (simp add: remove_connection_def Let_def)
  have "i \<in> fst ` set (connections self)"
    using bt_get_in_set [OF Some] by force
  then have "alternates (history_of i (out @ events self)) (\<not> is_connect (ClientDisconnected i r))"
    using server_inv_history [OF inv, of i] by simp
  from alternates_snoc [OF this]
  have "alternates (history_of k (out @ events self @ [ClientDisconnected i r])) (k \<noteq> i \<and> k \<in> fst ` set (connections self))" for k
    using server_inv_history [OF inv, of k] by (cases "k = i") simp_all
  moreover have "fst ` set (bt_remove i (connections self)) = {k. k \<noteq> i \<and> k \<in> fst ` set (connections self)}"
    by (auto simp: bt_remove_def)
  ultimately show ?thesis
    using inv by (simp add: rm server_inv_def bt_wf_bt_remove) (auto simp: list_all_iff dest: in_set_bt_remove)
qed (simp add: remove_connection_def)

lemma server_inv_event:
  "server_inv rel (self, out) \<Longrightarrow> get_event self = (self', Some ev) \<Longrightarrow> server_inv rel (self', out @ [ev])"
  by (auto simp: get_event_def server_inv_def simp del: history_simps split: list.splits)

lemma server_inv_do:
  assumes inv: "server_inv rel (self, out)" and add: "\<And>i r. act = SA_add i r \<Longrightarrow> r = rel i"
    and run: "server_do lib act (self, out) = Some s'"
  shows "server_inv rel s'"
proof -
  note inv_same = server_inv_same_ids [OF inv]
  have sock: "list_all (socket_of rel) (connections self)"
    using inv by (simp add: server_inv_def)
  show ?thesis
  proof (cases act)
    case (SA_add i r)
    then show ?thesis
      using run add server_inv_add [OF inv, of i] by auto
  next
    case (SA_remove i)
    then show ?thesis
      using run server_inv_remove [OF inv] by auto
  next
    case (SA_disconnect i)
    then show ?thesis
      using run inv server_inv_put [OF inv] by (auto simp: server_disconnect_def split: option.splits)
  next
    case SA_disconnect_all
    have "server_inv rel (disconnect_all self, out)"
      unfolding disconnect_all_def using sock by (intro inv_same) (auto simp: list_all_iff socket_of_def comp_def case_prod_beta)
    then show ?thesis
      using run SA_disconnect_all by simp
  next
    case SA_event
    then show ?thesis
      using run inv server_inv_event [OF inv] by (auto simp: get_event_def split: list.splits)
  next
    case (SA_broadcast ch m)
    then obtain cs where cs: "each_connection (\<lambda>_ c. client_send_message c ch m) (connections self) = Some cs"
        "s' = (self\<lparr>connections := cs\<rparr>, out)"
      using run by (auto simp: broadcast_message_def split: bind_splits)
    show ?thesis
      unfolding cs(2) by (rule inv_same [OF each_connection_keys [OF cs(1)] each_connection_socket [OF cs(1) _ sock]])
        (simp add: client_socket)
  next
    case (SA_broadcast_except k ch m)
    then obtain cs where cs: "each_connection (\<lambda>i c. if k = i then Some c else client_send_message c ch m) (connections self) = Some cs"
        "s' = (self\<lparr>connections := cs\<rparr>, out)"
      using run by (auto simp: broadcast_message_except_def split: bind_splits)
    show ?thesis
      unfolding cs(2) by (rule inv_same [OF each_connection_keys [OF cs(1)] each_connection_socket [OF cs(1) _ sock]])
        (auto dest: client_socket split: if_splits)
  next
    case (SA_update d)
    then obtain cs where cs: "each_connection (\<lambda>_ c. client_update c d) (connections self) = Some cs"
        "s' = (self\<lparr>connections := cs\<rparr>, out)"
      using run by (auto simp: server_update_def split: bind_splits)
    show ?thesis
      unfolding cs(2) by (rule inv_same [OF each_connection_keys [OF cs(1)] each_connection_socket [OF cs(1) _ sock]])
        (simp add: client_socket)
  next
    case (SA_send i ch m)
    then show ?thesis
      using run inv by (auto simp: server_send_message_def split: option.splits bind_splits intro: server_inv_put [OF inv] dest: client_socket)
  next
    case (SA_receive i ch)
    then show ?thesis
      using run inv by (auto simp: server_receive_message_def split: option.splits bind_splits intro: server_inv_put [OF inv] dest: client_socket)
  next
    case (SA_packets i)
    then show ?thesis
      using run inv by (auto simp: server_get_packets_to_send_def split: option.splits bind_splits intro: server_inv_put [OF inv] dest: client_socket)
  next
    case (SA_packet bs i)
    then show ?thesis
      using run inv by (auto simp: process_packet_from_def split: option.splits bind_splits intro: server_inv_put [OF inv] dest: client_socket)
  qed
qed

lemma server_reach_inv: "server_reach lib rel config s \<Longrightarrow> server_inv rel s"
proof (induction rule: server_reach.induct)
  case reach_new
  show ?case
    by (simp add: server_inv_def server_new_def alternates_def)
next
  case (reach_do s act s')
  then show ?case
    using server_inv_do by (cases s) blast
qed

subsection \<open>Properties\<close>





end
