(* ===== verification/Netcode_Serialize.thy ===== *)
theory Netcode_Serialize
  imports Renet_Prelude
begin

text \<open>
  The constants of \<open>src/renetcode2/src/lib.rs\<close>, the errors of \<open>src/renetcode2/src/error.rs\<close> and the
  readers of \<open>src/renetcode2/src/serialize.rs\<close>. A reader is the list of the bytes that are left; of an
  \<open>io::Error\<close> the kind is kept. Values of the protocol that are written as 64-bit integers are 64-bit
  words.
\<close>

definition NETCODE_VERSION_INFO :: bytes where
  "NETCODE_VERSION_INFO = [78, 69, 84, 67, 79, 68, 69, 32, 49, 46, 97, 50, 0]"

definition NETCODE_MAX_CLIENTS :: nat where "NETCODE_MAX_CLIENTS = 1024"
definition NETCODE_MAX_PENDING_CLIENTS :: nat where "NETCODE_MAX_PENDING_CLIENTS = NETCODE_MAX_CLIENTS * 4"
definition NETCODE_ADDRESS_NONE :: u8 where "NETCODE_ADDRESS_NONE = 0"
definition NETCODE_ADDRESS_IPV4 :: u8 where "NETCODE_ADDRESS_IPV4 = 1"
definition NETCODE_ADDRESS_IPV6 :: u8 where "NETCODE_ADDRESS_IPV6 = 2"
definition NETCODE_CONNECT_TOKEN_PRIVATE_BYTES :: nat where "NETCODE_CONNECT_TOKEN_PRIVATE_BYTES = 1024"
definition NETCODE_MAX_PACKET_BYTES :: nat where "NETCODE_MAX_PACKET_BYTES = 1400"
definition NETCODE_MAX_PAYLOAD_BYTES :: nat where "NETCODE_MAX_PAYLOAD_BYTES = 1300"
definition NETCODE_KEY_BYTES :: nat where "NETCODE_KEY_BYTES = 32"
definition NETCODE_MAC_BYTES :: nat where "NETCODE_MAC_BYTES = 16"
definition NETCODE_USER_DATA_BYTES :: nat where "NETCODE_USER_DATA_BYTES = 256"
definition NETCODE_CHALLENGE_TOKEN_BYTES :: nat where "NETCODE_CHALLENGE_TOKEN_BYTES = 300"
definition NETCODE_CONNECT_TOKEN_XNONCE_BYTES :: nat where "NETCODE_CONNECT_TOKEN_XNONCE_BYTES = 24"
definition NETCODE_ADDITIONAL_DATA_SIZE :: nat where "NETCODE_ADDITIONAL_DATA_SIZE = 13 + 8 + 8"
definition NETCODE_SEND_RATE :: duration where "NETCODE_SEND_RATE = from_millis 250"
definition ENCODED_PACKET_TAG_BYTES :: nat where "ENCODED_PACKET_TAG_BYTES = 8"

lemmas netcode_sizes = NETCODE_CONNECT_TOKEN_PRIVATE_BYTES_def NETCODE_MAX_PACKET_BYTES_def NETCODE_MAX_PAYLOAD_BYTES_def
  NETCODE_KEY_BYTES_def NETCODE_MAC_BYTES_def NETCODE_USER_DATA_BYTES_def NETCODE_CHALLENGE_TOKEN_BYTES_def
  NETCODE_CONNECT_TOKEN_XNONCE_BYTES_def NETCODE_ADDITIONAL_DATA_SIZE_def ENCODED_PACKET_TAG_BYTES_def

subsection \<open>Errors\<close>

datatype io_error = UnexpectedEof | WriteZero | InvalidData

datatype TokenGenerationError = MaxHostCount | TokenCryptoError | TokenIoError io_error | NoServerAddressAvailable

datatype NetcodeDisconnectReason =
    ConnectTokenExpired
  | ConnectionTimedOut
  | ConnectionResponseTimedOut
  | ConnectionRequestTimedOut
  | ConnectionDenied
  | NetcodeDisconnectedByClient
  | NetcodeDisconnectedByServer

datatype NetcodeError =
    UnavailablePrivateKey
  | InvalidPacketType
  | InvalidProtocolID
  | InvalidVersion
  | InvalidSocketId
  | PacketTooSmall
  | PayloadAboveLimit
  | DuplicatedSequence
  | NoMoreServers
  | NetcodeExpired
  | NetcodeDisconnected NetcodeDisconnectReason
  | CryptoError
  | NotInHostList
  | NetcodeClientNotFound
  | ClientNotConnected
  | IoError io_error
  | TokenError TokenGenerationError

text \<open>The \<open>?\<close> operator converts errors with \<open>From\<close>.\<close>

fun map_err :: "('e \<Rightarrow> 'f) \<Rightarrow> ('e, 'a) outcome \<Rightarrow> ('f, 'a) outcome" where
  "map_err f (Ok x) = Ok x"
| "map_err f (Err e) = Err (f e)"
| "map_err f Panic = Panic"

lemma map_err_eq [simp]:
  "map_err f r = Ok x \<longleftrightarrow> r = Ok x" "map_err f r = Panic \<longleftrightarrow> r = Panic" "map_err f r = Err e \<longleftrightarrow> (\<exists>e'. r = Err e' \<and> e = f e')"
  by (cases r; auto)+

subsection \<open>Little-endian integers\<close>

fun le_bytes :: "nat \<Rightarrow> nat \<Rightarrow> bytes" where
  "le_bytes 0 v = []"
| "le_bytes (Suc n) v = word_of_nat v # le_bytes n (v div 256)"

fun of_le :: "bytes \<Rightarrow> nat" where
  "of_le [] = 0"
| "of_le (b # bs) = unat b + 256 * of_le bs"

lemma length_le_bytes [simp]: "length (le_bytes n v) = n"
  by (induction n arbitrary: v) auto

lemma of_le_le_bytes: "of_le (le_bytes n v) = v mod 256 ^ n"
proof (induction n arbitrary: v)
  case (Suc n)
  have "v mod (256 * 256 ^ n) = 256 * (v div 256 mod 256 ^ n) + v mod 256"
    by (rule mod_mult2_eq)
  then show ?case
    using Suc by (simp add: unat_of_nat take_bit_eq_mod)
qed simp

lemma of_le_less: "of_le bs < 256 ^ length bs"
proof (induction bs)
  case (Cons b bs)
  have "unat b < 256"
    using unsigned_less [of b, where ?'a = nat] by simp
  with Cons show ?case
    by simp
qed simp

lemma le_bytes_of_le: "le_bytes (length bs) (of_le bs) = bs"
proof (induction bs)
  case (Cons b bs)
  have "unat b < 256"
    using unsigned_less [of b, where ?'a = nat] by simp
  then have "(unat b + 256 * of_le bs) div 256 = of_le bs"
    by simp
  moreover have "unat (word_of_nat (unat b + 256 * of_le bs) :: u8) = unat b"
    using \<open>unat b < 256\<close> by (simp only: unat_of_nat take_bit_eq_mod) simp
  then have "(word_of_nat (unat b + 256 * of_le bs) :: u8) = b"
    by (rule unsigned_word_eqI)
  ultimately show ?case
    using Cons by simp
qed simp

definition u64_le_bytes :: "u64 \<Rightarrow> bytes" where "u64_le_bytes w = le_bytes 8 (unat w)"
definition u32_le_bytes :: "u32 \<Rightarrow> bytes" where "u32_le_bytes w = le_bytes 4 (unat w)"
definition u16_le_bytes :: "u16 \<Rightarrow> bytes" where "u16_le_bytes w = le_bytes 2 (unat w)"

subsection \<open>Readers\<close>

text \<open>\<open>read_exact\<close> of a buffer of \<open>n\<close> bytes.\<close>

definition read_bytes :: "nat \<Rightarrow> bytes \<Rightarrow> (io_error, bytes \<times> bytes) outcome" where
  "read_bytes n src = (if n \<le> length src then Ok (take n src, drop n src) else Err UnexpectedEof)"

definition read_u64 :: "bytes \<Rightarrow> (io_error, u64 \<times> bytes) outcome" where
  "read_u64 src = and_then (read_bytes 8 src) (\<lambda>(buffer, src). Ok (word_of_nat (of_le buffer), src))"

definition read_u32 :: "bytes \<Rightarrow> (io_error, u32 \<times> bytes) outcome" where
  "read_u32 src = and_then (read_bytes 4 src) (\<lambda>(buffer, src). Ok (word_of_nat (of_le buffer), src))"

definition read_u16 :: "bytes \<Rightarrow> (io_error, u16 \<times> bytes) outcome" where
  "read_u16 src = and_then (read_bytes 2 src) (\<lambda>(buffer, src). Ok (word_of_nat (of_le buffer), src))"

definition read_u8 :: "bytes \<Rightarrow> (io_error, u8 \<times> bytes) outcome" where
  "read_u8 src = and_then (read_bytes 1 src) (\<lambda>(buffer, src). Ok (word_of_nat (of_le buffer), src))"

text \<open>A signed 32-bit integer is the word with its two's complement.\<close>

definition read_i32 :: "bytes \<Rightarrow> (io_error, u32 \<times> bytes) outcome" where
  "read_i32 src = and_then (read_bytes 4 src) (\<lambda>(buffer, src). Ok (word_of_nat (of_le buffer), src))"

lemma read_bytes_append [simp]: "length bs = n \<Longrightarrow> read_bytes n (bs @ r) = Ok (bs, r)"
  by (simp add: read_bytes_def)

lemma read_le_append [simp]:
  "read_u64 (u64_le_bytes w @ r) = Ok (w, r)" "read_u32 (u32_le_bytes v @ r) = Ok (v, r)"
  "read_u16 (u16_le_bytes h @ r) = Ok (h, r)" "read_i32 (u32_le_bytes v @ r) = Ok (v, r)" "read_u8 (b # r) = Ok (b, r)"
  using unsigned_less [of w, where ?'a = nat] unsigned_less [of v, where ?'a = nat] unsigned_less [of h, where ?'a = nat]
  by (simp_all add: read_u64_def read_u32_def read_u16_def read_i32_def read_u8_def u64_le_bytes_def u32_le_bytes_def
      u16_le_bytes_def of_le_le_bytes read_bytes_def)

lemma read_not_Panic [simp]:
  "read_bytes n src \<noteq> Panic" "read_u64 src \<noteq> Panic" "read_u32 src \<noteq> Panic" "read_u16 src \<noteq> Panic" "read_u8 src \<noteq> Panic"
  "read_i32 src \<noteq> Panic"
  by (auto simp: read_bytes_def read_u64_def read_u32_def read_u16_def read_u8_def read_i32_def)

lemma length_le_words [simp]:
  "length (u64_le_bytes w) = 8" "length (u32_le_bytes v) = 4" "length (u16_le_bytes h) = 2"
  by (simp_all add: u64_le_bytes_def u32_le_bytes_def u16_le_bytes_def)
subsection \<open>Writers\<close>

text \<open>
  \<open>io::Cursor\<close> over a mutable slice. \<open>write_all\<close> copies what fits and fails with \<open>WriteZero\<close> when that is
  not all; \<open>write\<close> copies what fits. \<open>write_parts\<close> is a sequence of \<open>write_all(..)?\<close>.
\<close>

record cursor =
  cur_buf :: bytes
  cur_pos :: nat

definition cursor_new :: "bytes \<Rightarrow> cursor" where
  "cursor_new buffer = \<lparr>cur_buf = buffer, cur_pos = 0\<rparr>"

definition cursor_write :: "bytes \<Rightarrow> cursor \<Rightarrow> cursor \<times> nat" where
  "cursor_write bs w =
     (let n = min (length bs) (length (cur_buf w) - cur_pos w)
      in (w\<lparr>cur_buf := take (cur_pos w) (cur_buf w) @ take n bs @ drop (cur_pos w + n) (cur_buf w), cur_pos := cur_pos w + n\<rparr>, n))"

definition write_all :: "bytes \<Rightarrow> cursor \<Rightarrow> cursor \<times> (io_error + unit)" where
  "write_all bs w = (let (w, n) = cursor_write bs w in (w, if n < length bs then Inl WriteZero else Inr ()))"

fun write_parts :: "bytes list \<Rightarrow> cursor \<Rightarrow> cursor \<times> (io_error + unit)" where
  "write_parts [] w = (w, Inr ())"
| "write_parts (bs # parts) w = (case write_all bs w of (w, Inl e) \<Rightarrow> (w, Inl e) | (w, Inr _) \<Rightarrow> write_parts parts w)"

lemma write_all_fits:
  "cur_pos w + length bs \<le> length (cur_buf w) \<Longrightarrow> write_all bs w =
     (w\<lparr>cur_buf := take (cur_pos w) (cur_buf w) @ bs @ drop (cur_pos w + length bs) (cur_buf w), cur_pos := cur_pos w + length bs\<rparr>, Inr ())"
  by (simp add: write_all_def cursor_write_def Let_def)

lemma write_parts_fits:
  "cur_pos w + length (concat parts) \<le> length (cur_buf w) \<Longrightarrow> write_parts parts w = write_all (concat parts) w"
proof (induction parts arbitrary: w)
  case (Cons bs parts)
  let ?w = "w\<lparr>cur_buf := take (cur_pos w) (cur_buf w) @ bs @ drop (cur_pos w + length bs) (cur_buf w), cur_pos := cur_pos w + length bs\<rparr>"
  have first: "write_all bs w = (?w, Inr ())"
    using Cons.prems by (intro write_all_fits) simp
  have room: "cur_pos ?w + length (concat parts) \<le> length (cur_buf ?w)"
    using Cons.prems by simp
  have "write_parts (bs # parts) w = write_all (concat parts) ?w"
    using first Cons.IH [OF room] by simp
  also have "\<dots> = write_all (bs @ concat parts) w"
  proof -
    have "cur_pos w \<le> length (cur_buf w)"
      using Cons.prems by simp
    then have pos: "min (length (cur_buf w)) (cur_pos w) = cur_pos w"
      by simp
    show ?thesis
      using Cons.prems write_all_fits [OF room] write_all_fits [of w "bs @ concat parts"] by (simp add: pos ac_simps)
  qed
  finally show ?case
    by simp
qed (simp add: write_all_fits)

lemma write_parts_short:
  "cur_pos w \<le> length (cur_buf w) \<Longrightarrow> length (cur_buf w) < cur_pos w + length (concat parts) \<Longrightarrow>
     \<exists>w'. write_parts parts w = (w', Inl WriteZero) \<and> length (cur_buf w') = length (cur_buf w)"
proof (induction parts arbitrary: w)
  case (Cons bs parts)
  show ?case
  proof (cases "cur_pos w + length bs \<le> length (cur_buf w)")
    case True
    let ?w = "fst (write_all bs w)"
    have w: "cur_buf ?w = take (cur_pos w) (cur_buf w) @ bs @ drop (cur_pos w + length bs) (cur_buf w)"
      "cur_pos ?w = cur_pos w + length bs" "write_all bs w = (?w, Inr ())"
      using write_all_fits [OF True] by simp_all
    then have len: "length (cur_buf ?w) = length (cur_buf w)"
      using True by simp
    then have "\<exists>w'. write_parts parts ?w = (w', Inl WriteZero) \<and> length (cur_buf w') = length (cur_buf ?w)"
      using Cons.prems True w(2) by (intro Cons.IH) simp_all
    then show ?thesis
      using w(3) len by (metis (no_types, lifting) old.prod.case old.sum.simps(6) write_parts.simps(2))
  next
    case False
    then show ?thesis
      using Cons.prems by (auto simp: write_all_def cursor_write_def Let_def)
  qed
qed simp

lemma write_parts_new:
  "length (concat parts) \<le> length buffer \<Longrightarrow> write_parts parts (cursor_new buffer) =
     (\<lparr>cur_buf = concat parts @ drop (length (concat parts)) buffer, cur_pos = length (concat parts)\<rparr>, Inr ())"
  by (simp add: write_parts_fits write_all_fits cursor_new_def)

end
