(* ===== verification/Netcode_Crypto.thy ===== *)
theory Netcode_Crypto
  imports Netcode_Serialize
begin

text \<open>
  \<open>src/renetcode2/src/crypto.rs\<close>. The ciphers are those of the \<open>chacha20poly1305\<close> crate: the record
  \<open>aead_lib\<close> holds its four detached operations, and every definition that encrypts or decrypts takes it as
  an argument. Sealing gives the ciphertext and the tag, \<open>None\<close> is the crate's \<open>Error\<close>, which leaves the
  buffer as it was. The locale \<open>aead\<close> states what the crate documents of a cipher; \<open>aead_laws\<close> assumes it
  of both. The theory ends with the ciphers of RFC 8439 and of the XChaCha draft, for which the laws hold.
\<close>

record aead_lib =
  chacha_seal :: "bytes \<Rightarrow> bytes \<Rightarrow> bytes \<Rightarrow> bytes \<Rightarrow> (bytes \<times> bytes) option"
  chacha_open :: "bytes \<Rightarrow> bytes \<Rightarrow> bytes \<Rightarrow> bytes \<Rightarrow> bytes \<Rightarrow> bytes option"
  xchacha_seal :: "bytes \<Rightarrow> bytes \<Rightarrow> bytes \<Rightarrow> bytes \<Rightarrow> (bytes \<times> bytes) option"
  xchacha_open :: "bytes \<Rightarrow> bytes \<Rightarrow> bytes \<Rightarrow> bytes \<Rightarrow> bytes \<Rightarrow> bytes option"

locale aead =
  fixes seal :: "bytes \<Rightarrow> bytes \<Rightarrow> bytes \<Rightarrow> bytes \<Rightarrow> (bytes \<times> bytes) option"
    and opn :: "bytes \<Rightarrow> bytes \<Rightarrow> bytes \<Rightarrow> bytes \<Rightarrow> bytes \<Rightarrow> bytes option"
  assumes seal_total: "length pt \<le> NETCODE_MAX_PACKET_BYTES \<Longrightarrow> \<exists>ct tag. seal key nonce aad pt = Some (ct, tag)"
    and seal_length: "seal key nonce aad pt = Some (ct, tag) \<Longrightarrow> length ct = length pt \<and> length tag = NETCODE_MAC_BYTES"
    and opn_seal: "seal key nonce aad pt = Some (ct, tag) \<Longrightarrow> opn key nonce aad ct tag = Some pt"
    and opn_length: "opn key nonce aad ct tag = Some pt \<Longrightarrow> length pt = length ct"

locale aead_laws = chacha: aead "chacha_seal lib" "chacha_open lib" + xchacha: aead "xchacha_seal lib" "xchacha_open lib"
  for lib :: aead_lib

subsection \<open>The operations\<close>

text \<open>\<open>buffer.split_at(buffer.len() - n)\<close>.\<close>

definition split_tag :: "nat \<Rightarrow> bytes \<Rightarrow> ('e, bytes \<times> bytes) outcome" where
  "split_tag n buffer = and_then (sub_or_panic (length buffer) n) (\<lambda>mid. Ok (take mid buffer, drop mid buffer))"

definition sequence_nonce :: "u64 \<Rightarrow> bytes" where
  "sequence_nonce sequence = replicate 4 0 @ u64_le_bytes sequence"

definition decode_and_check_buffer :: "bytes \<Rightarrow> u64 \<Rightarrow> (unit, unit) outcome" where
  "decode_and_check_buffer buffer protocol_id =
     and_then (split_tag ENCODED_PACKET_TAG_BYTES buffer) (\<lambda>(_, buffer_tag).
       if word_of_nat (of_le buffer_tag) \<noteq> protocol_id then Err () else Ok ())"

definition dencrypted_in_place :: "aead_lib \<Rightarrow> bytes \<Rightarrow> u64 \<Rightarrow> bytes \<Rightarrow> bytes \<Rightarrow> (unit, bytes) outcome" where
  "dencrypted_in_place lib buffer sequence private_key aad =
     and_then (split_tag NETCODE_MAC_BYTES buffer) (\<lambda>(buffer, tag).
       case chacha_open lib private_key (sequence_nonce sequence) aad buffer tag of
         None \<Rightarrow> Err () | Some buffer \<Rightarrow> Ok (buffer @ tag))"

definition dencrypted_in_place_xnonce :: "aead_lib \<Rightarrow> bytes \<Rightarrow> bytes \<Rightarrow> bytes \<Rightarrow> bytes \<Rightarrow> (unit, bytes) outcome" where
  "dencrypted_in_place_xnonce lib buffer xnonce private_key aad =
     and_then (split_tag NETCODE_MAC_BYTES buffer) (\<lambda>(buffer, tag).
       case xchacha_open lib private_key xnonce aad buffer tag of
         None \<Rightarrow> Err () | Some buffer \<Rightarrow> Ok (buffer @ tag))"

definition encode_in_place :: "bytes \<Rightarrow> u64 \<Rightarrow> ('e, bytes) outcome" where
  "encode_in_place buffer protocol_id =
     and_then (split_tag ENCODED_PACKET_TAG_BYTES buffer) (\<lambda>(front, _). Ok (front @ u64_le_bytes protocol_id))"

definition encrypt_in_place :: "aead_lib \<Rightarrow> bytes \<Rightarrow> u64 \<Rightarrow> bytes \<Rightarrow> bytes \<Rightarrow> (unit, bytes) outcome" where
  "encrypt_in_place lib buffer sequence key aad =
     and_then (split_tag NETCODE_MAC_BYTES buffer) (\<lambda>(buffer, _).
       case chacha_seal lib key (sequence_nonce sequence) aad buffer of
         None \<Rightarrow> Err () | Some (buffer, tag) \<Rightarrow> Ok (buffer @ tag))"

definition encrypt_in_place_xnonce :: "aead_lib \<Rightarrow> bytes \<Rightarrow> bytes \<Rightarrow> bytes \<Rightarrow> bytes \<Rightarrow> (unit, bytes) outcome" where
  "encrypt_in_place_xnonce lib buffer xnonce key aad =
     and_then (split_tag NETCODE_MAC_BYTES buffer) (\<lambda>(buffer, _).
       case xchacha_seal lib key xnonce aad buffer of
         None \<Rightarrow> Err () | Some (buffer, tag) \<Rightarrow> Ok (buffer @ tag))"

subsection \<open>Laws\<close>

lemma split_tag_append [simp]: "length tag = n \<Longrightarrow> split_tag n (buf @ tag) = Ok (buf, tag)"
  by (simp add: split_tag_def)

lemma split_tag_cases:
  "split_tag n buffer = Ok (a, t) \<longleftrightarrow> buffer = a @ t \<and> length t = n"
  "split_tag n buffer = Panic \<longleftrightarrow> length buffer < n" "split_tag n buffer \<noteq> Err e"
  by (auto simp: split_tag_def sub_or_panic_def)

text \<open>
  The nonce determines the sequence number: two packets under one key have the same nonce exactly when they
  have the same number.
\<close>

lemma sequence_nonce_inject [simp]: "sequence_nonce a = sequence_nonce b \<longleftrightarrow> a = b"
proof
  assume "sequence_nonce a = sequence_nonce b"
  then have "read_u64 (u64_le_bytes a @ []) = read_u64 (u64_le_bytes b @ [])"
    by (simp add: sequence_nonce_def)
  then show "a = b"
    by (simp only: read_le_append) simp
qed simp

lemma encode_then_check: "length pad = NETCODE_MAC_BYTES \<Longrightarrow>
  \<exists>tag. encode_in_place (body @ pad) protocol_id = Ok (body @ take 8 pad @ tag) \<and> tag = u64_le_bytes protocol_id \<and>
    decode_and_check_buffer (body @ take 8 pad @ tag) protocol_id = Ok ()"
proof -
  assume pad: "length pad = NETCODE_MAC_BYTES"
  then have split: "body @ pad = (body @ take 8 pad) @ drop 8 pad" "length (drop 8 pad) = ENCODED_PACKET_TAG_BYTES"
    by (simp_all add: netcode_sizes)
  have "encode_in_place (body @ pad) protocol_id = Ok ((body @ take 8 pad) @ u64_le_bytes protocol_id)"
    unfolding encode_in_place_def split(1) split_tag_append [OF split(2)] by simp
  moreover have "decode_and_check_buffer ((body @ take 8 pad) @ u64_le_bytes protocol_id) protocol_id = Ok ()"
    unfolding decode_and_check_buffer_def
    using read_le_append(1) [of protocol_id "[]"]
    by (subst split_tag_append) (simp_all add: netcode_sizes read_u64_def read_bytes_def)
  ultimately show ?thesis
    by simp
qed

context aead_laws
begin

text \<open>Encrypting a buffer whose last 16 bytes are room for the tag succeeds, keeps its length and is undone by decryption.\<close>

lemma encrypt_roundtrip:
  assumes "length room = NETCODE_MAC_BYTES" "length body \<le> NETCODE_MAX_PACKET_BYTES"
  obtains ct tag where "encrypt_in_place lib (body @ room) n key aad = Ok (ct @ tag)" "length ct = length body"
    "length tag = NETCODE_MAC_BYTES" "dencrypted_in_place lib (ct @ tag) n key aad = Ok (body @ tag)"
proof -
  obtain ct tag where seal: "chacha_seal lib key (sequence_nonce n) aad body = Some (ct, tag)"
    using chacha.seal_total [OF assms(2)] by blast
  have len: "length ct = length body" "length tag = NETCODE_MAC_BYTES"
    using chacha.seal_length [OF seal] by simp_all
  show thesis
    using that [of ct tag] assms(1) len chacha.opn_seal [OF seal] seal
    by (simp add: encrypt_in_place_def dencrypted_in_place_def)
qed

lemma encrypt_xnonce_roundtrip:
  assumes "length room = NETCODE_MAC_BYTES" "length body \<le> NETCODE_MAX_PACKET_BYTES"
  obtains ct tag where "encrypt_in_place_xnonce lib (body @ room) n key aad = Ok (ct @ tag)" "length ct = length body"
    "length tag = NETCODE_MAC_BYTES" "dencrypted_in_place_xnonce lib (ct @ tag) n key aad = Ok (body @ tag)"
proof -
  obtain ct tag where seal: "xchacha_seal lib key n aad body = Some (ct, tag)"
    using xchacha.seal_total [OF assms(2)] by blast
  have len: "length ct = length body" "length tag = NETCODE_MAC_BYTES"
    using xchacha.seal_length [OF seal] by simp_all
  show thesis
    using that [of ct tag] assms(1) len xchacha.opn_seal [OF seal] seal
    by (simp add: encrypt_in_place_xnonce_def dencrypted_in_place_xnonce_def)
qed

lemma dencrypted_length: "dencrypted_in_place lib buffer n key aad = Ok buffer' \<Longrightarrow> length buffer' = length buffer"
  by (auto simp: dencrypted_in_place_def split_tag_cases chacha.opn_length split: option.splits)

lemma dencrypted_xnonce_length:
  "dencrypted_in_place_xnonce lib buffer n key aad = Ok buffer' \<Longrightarrow> length buffer' = length buffer"
  by (auto simp: dencrypted_in_place_xnonce_def split_tag_cases xchacha.opn_length split: option.splits)

end

lemma dencrypted_Panic: "dencrypted_in_place lib buffer n key aad = Panic \<longleftrightarrow> length buffer < NETCODE_MAC_BYTES"
  by (auto simp: dencrypted_in_place_def and_then_eq_Panic split_tag_cases split: option.splits)

lemma dencrypted_xnonce_Panic:
  "dencrypted_in_place_xnonce lib buffer n key aad = Panic \<longleftrightarrow> length buffer < NETCODE_MAC_BYTES"
  by (auto simp: dencrypted_in_place_xnonce_def and_then_eq_Panic split_tag_cases split: option.splits)
subsection \<open>The ciphers\<close>

text \<open>
  ChaCha20 and Poly1305 as RFC 8439 states them, and the XChaCha20 variant with its 24-byte nonce
  (draft-irtf-cfrg-xchacha). They instantiate the interface above.
\<close>

definition quarter_round :: "nat \<Rightarrow> nat \<Rightarrow> nat \<Rightarrow> nat \<Rightarrow> u32 list \<Rightarrow> u32 list" where
  "quarter_round i j k l s =
     (let a = s ! i; b = s ! j; c = s ! k; d = s ! l;
          a = a + b; d = word_rotl 16 (xor d a);
          c = c + d; b = word_rotl 12 (xor b c);
          a = a + b; d = word_rotl 8 (xor d a);
          c = c + d; b = word_rotl 7 (xor b c)
      in s[i := a, j := b, k := c, l := d])"

definition double_round :: "u32 list \<Rightarrow> u32 list" where
  "double_round s = quarter_round 3 4 9 14 (quarter_round 2 7 8 13 (quarter_round 1 6 11 12 (quarter_round 0 5 10 15
     (quarter_round 3 7 11 15 (quarter_round 2 6 10 14 (quarter_round 1 5 9 13 (quarter_round 0 4 8 12 s)))))))"

fun le_words :: "nat \<Rightarrow> bytes \<Rightarrow> u32 list" where
  "le_words 0 bs = []"
| "le_words (Suc n) bs = word_of_nat (of_le (take 4 bs)) # le_words n (drop 4 bs)"

definition chacha_constants :: "u32 list" where
  "chacha_constants = [0x61707865, 0x3320646e, 0x79622d32, 0x6b206574]"

definition chacha_block :: "bytes \<Rightarrow> nat \<Rightarrow> bytes \<Rightarrow> bytes" where
  "chacha_block key counter nonce =
     (let s = chacha_constants @ le_words 8 key @ word_of_nat counter # le_words 3 nonce
      in concat (map2 (\<lambda>a b. u32_le_bytes (a + b)) ((double_round ^^ 10) s) s))"

definition chacha_stream :: "bytes \<Rightarrow> nat \<Rightarrow> bytes \<Rightarrow> nat \<Rightarrow> bytes" where
  "chacha_stream key counter nonce n = concat (map (\<lambda>i. chacha_block key (counter + i) nonce) [0..<n])"

definition chacha_xor :: "bytes \<Rightarrow> bytes \<Rightarrow> bytes \<Rightarrow> bytes" where
  "chacha_xor key nonce data = map2 xor data (chacha_stream key 1 nonce ((length data + 63) div 64))"

function chunks :: "nat \<Rightarrow> 'a list \<Rightarrow> 'a list list" where
  "chunks n xs = (if xs = [] \<or> n = 0 then [] else take n xs # chunks n (drop n xs))"
  by auto
termination
  by (relation "measure (\<lambda>(n, xs). length xs)") auto

definition poly1305 :: "bytes \<Rightarrow> bytes \<Rightarrow> bytes" where
  "poly1305 key msg =
     (let r = and (of_le (take 16 key)) 0x0ffffffc0ffffffc0ffffffc0fffffff; s = of_le (take 16 (drop 16 key));
          acc = fold (\<lambda>block acc. (acc + of_le (block @ [1])) * r mod (2 ^ 130 - 5)) (chunks 16 msg) 0
      in le_bytes 16 (acc + s))"

definition pad16 :: "bytes \<Rightarrow> bytes" where
  "pad16 xs = xs @ replicate ((16 - length xs mod 16) mod 16) 0"

definition chacha_tag :: "bytes \<Rightarrow> bytes \<Rightarrow> bytes \<Rightarrow> bytes \<Rightarrow> bytes" where
  "chacha_tag key nonce aad ct = poly1305 (take 32 (chacha_block key 0 nonce))
     (pad16 aad @ pad16 ct @ le_bytes 8 (length aad) @ le_bytes 8 (length ct))"

definition hchacha :: "bytes \<Rightarrow> bytes \<Rightarrow> bytes" where
  "hchacha key nonce =
     (let s = (double_round ^^ 10) (chacha_constants @ le_words 8 key @ le_words 4 nonce)
      in concat (map u32_le_bytes (take 4 s @ drop 12 s)))"

definition rfc8439_seal :: "bytes \<Rightarrow> bytes \<Rightarrow> bytes \<Rightarrow> bytes \<Rightarrow> (bytes \<times> bytes) option" where
  "rfc8439_seal key nonce aad pt = (let ct = chacha_xor key nonce pt in Some (ct, chacha_tag key nonce aad ct))"

definition rfc8439_open :: "bytes \<Rightarrow> bytes \<Rightarrow> bytes \<Rightarrow> bytes \<Rightarrow> bytes \<Rightarrow> bytes option" where
  "rfc8439_open key nonce aad ct tag = (if chacha_tag key nonce aad ct = tag then Some (chacha_xor key nonce ct) else None)"

definition xchacha_subnonce :: "bytes \<Rightarrow> bytes" where
  "xchacha_subnonce nonce = replicate 4 0 @ drop 16 nonce"

definition rfc_aead :: aead_lib where
  "rfc_aead = \<lparr>chacha_seal = rfc8439_seal, chacha_open = rfc8439_open,
     xchacha_seal = (\<lambda>key nonce. rfc8439_seal (hchacha key (take 16 nonce)) (xchacha_subnonce nonce)),
     xchacha_open = (\<lambda>key nonce. rfc8439_open (hchacha key (take 16 nonce)) (xchacha_subnonce nonce))\<rparr>"

lemma length_quarter_round [simp]: "length (quarter_round i j k l s) = length s"
  by (simp add: quarter_round_def Let_def)

lemma length_rounds [simp]: "length ((double_round ^^ n) s) = length s"
  by (induction n) (simp_all add: double_round_def)

lemma length_le_words_list [simp]: "length (le_words n bs) = n"
  by (induction n arbitrary: bs) auto

lemma length_concat_const: "(\<And>x. x \<in> set xs \<Longrightarrow> length x = n) \<Longrightarrow> length (concat xs) = n * length xs"
  by (induction xs) auto

lemma length_chacha_block [simp]: "length (chacha_block key counter nonce) = 64"
  unfolding chacha_block_def Let_def
  by (subst length_concat_const [where n = 4]) (auto simp: chacha_constants_def)

lemma length_chacha_stream [simp]: "length (chacha_stream key counter nonce n) = 64 * n"
  unfolding chacha_stream_def by (subst length_concat_const [where n = 64]) auto

lemma map2_xor_involution: "length xs \<le> length ks \<Longrightarrow> map2 xor (map2 xor xs ks) ks = (xs :: bytes)"
proof (induction xs arbitrary: ks)
  case (Cons x xs)
  moreover have "xor (xor x k) k = x" for k
    by (simp add: xor.assoc)
  ultimately show ?case by (cases ks) auto
qed simp

lemma stream_long: "(n::nat) \<le> 64 * ((n + 63) div 64)"
  by arith

lemma length_chacha_xor [simp]: "length (chacha_xor key nonce data) = length data"
  using stream_long [of "length data"] by (simp add: chacha_xor_def)

lemma chacha_xor_involution [simp]: "chacha_xor key nonce (chacha_xor key nonce data) = data"
proof -
  have "length data \<le> length (chacha_stream key 1 nonce ((length data + 63) div 64))"
    using stream_long [of "length data"] by simp
  then show ?thesis
    using map2_xor_involution length_chacha_xor unfolding chacha_xor_def by metis
qed

lemma rfc8439_aead: "aead (\<lambda>key nonce. rfc8439_seal (f key nonce) (g nonce)) (\<lambda>key nonce. rfc8439_open (f key nonce) (g nonce))"
  by unfold_locales (auto simp: rfc8439_seal_def rfc8439_open_def chacha_tag_def poly1305_def Let_def netcode_sizes split: if_splits)

interpretation rfc: aead_laws rfc_aead
  unfolding aead_laws_def rfc_aead_def
  using rfc8439_aead [of "\<lambda>k n. k" "\<lambda>n. n"] rfc8439_aead [of "\<lambda>k n. hchacha k (take 16 n)" xchacha_subnonce] by simp

end
