(* ===== verification/Netcode_Token.thy ===== *)
theory Netcode_Token
  imports Netcode_Crypto
begin

text \<open>
  \<open>src/renetcode2/src/token.rs\<close>: the connect token a client is given, its private part that only the
  servers can read, and their encodings. A signed 32-bit integer is the word of its two's complement. The
  random bytes that \<open>generate\<close> draws are arguments of the model.
\<close>

datatype SocketAddr = V4 bytes u16 | V6 bytes u16 u32 u32

record ConnectToken =
  ct_client_id :: u64
  ct_version_info :: bytes
  ct_protocol_id :: u64
  create_timestamp :: u64
  ct_expire_timestamp :: u64
  ct_xnonce :: bytes
  ct_socket_id :: u8
  ct_server_addresses :: "SocketAddr option list"
  ct_client_to_server_key :: bytes
  ct_server_to_client_key :: bytes
  private_data :: bytes
  ct_timeout_seconds :: u32

record PrivateConnectToken =
  pt_client_id :: u64
  pt_timeout_seconds :: u32
  pt_socket_id :: u8
  pt_server_addresses :: "SocketAddr option list"
  pt_client_to_server_key :: bytes
  pt_server_to_client_key :: bytes
  pt_user_data :: bytes

subsection \<open>Server addresses\<close>

fun port :: "SocketAddr \<Rightarrow> u16" where
  "port (V4 ip p) = p"
| "port (V6 ip p flowinfo scope_id) = p"

text \<open>One \<open>write_all\<close> for the kind, one for each octet and one for the port.\<close>

fun host_parts :: "SocketAddr \<Rightarrow> bytes list" where
  "host_parts (V4 ip p) = [NETCODE_ADDRESS_IPV4] # map (\<lambda>i. [i]) ip @ [u16_le_bytes p]"
| "host_parts (V6 ip p flowinfo scope_id) = [NETCODE_ADDRESS_IPV6] # map (\<lambda>i. [i]) ip @ [u16_le_bytes p]"

definition hosts_of :: "SocketAddr option list \<Rightarrow> SocketAddr list" where
  "hosts_of addrs = map the (filter (\<lambda>a. a \<noteq> None) addrs)"

definition server_addresses_parts :: "SocketAddr option list \<Rightarrow> bytes list" where
  "server_addresses_parts addrs =
     u32_le_bytes (word_of_nat (length (filter (\<lambda>a. a \<noteq> None) addrs))) # concat (map host_parts (hosts_of addrs))"

definition write_server_addresses :: "SocketAddr option list \<Rightarrow> cursor \<Rightarrow> cursor \<times> (io_error + unit)" where
  "write_server_addresses addrs writer = write_parts (server_addresses_parts addrs) writer"

definition read_host :: "bytes \<Rightarrow> (io_error, SocketAddr option \<times> bytes) outcome" where
  "read_host src = and_then (read_u8 src) (\<lambda>(host_type, src).
     if host_type = NETCODE_ADDRESS_IPV4 then
       and_then (read_bytes 4 src) (\<lambda>(ip, src). and_then (read_u16 src) (\<lambda>(p, src). Ok (Some (V4 ip p), src)))
     else if host_type = NETCODE_ADDRESS_IPV6 then
       and_then (read_bytes 16 src) (\<lambda>(ip, src). and_then (read_u16 src) (\<lambda>(p, src). Ok (Some (V6 ip p 0 0), src)))
     else if host_type = NETCODE_ADDRESS_NONE then Ok (None, src)
     else Err InvalidData)"

fun read_hosts :: "nat \<Rightarrow> bytes \<Rightarrow> (io_error, SocketAddr option list \<times> bytes) outcome" where
  "read_hosts 0 src = Ok ([], src)"
| "read_hosts (Suc n) src =
     and_then (read_host src) (\<lambda>(a, src). and_then (read_hosts n src) (\<lambda>(as, src). Ok (a # as, src)))"

text \<open>The last check of the source tests an array of length 32 for emptiness.\<close>

definition read_server_addresses :: "bytes \<Rightarrow> (io_error, SocketAddr option list \<times> bytes) outcome" where
  "read_server_addresses src = and_then (read_u32 src) (\<lambda>(num_server_addresses, src).
     and_then (read_hosts (min 32 (unat num_server_addresses)) src) (\<lambda>(hosts, src).
       let server_addresses = hosts @ replicate (32 - length hosts) None
       in if server_addresses = [] then Err InvalidData else Ok (server_addresses, src)))"

definition token_additional_data :: "u64 \<Rightarrow> u64 \<Rightarrow> bytes" where
  "token_additional_data protocol_id expire_timestamp =
     NETCODE_VERSION_INFO @ u64_le_bytes protocol_id @ u64_le_bytes expire_timestamp"

subsection \<open>The private part\<close>

definition private_generate ::
  "bytes \<Rightarrow> bytes \<Rightarrow> bytes \<Rightarrow> u64 \<Rightarrow> u32 \<Rightarrow> u8 \<Rightarrow> SocketAddr list \<Rightarrow> bytes option \<Rightarrow> (TokenGenerationError, PrivateConnectToken) outcome" where
  "private_generate random_c2s random_s2c random_user client_id timeout_seconds socket_id server_addresses user_data =
     (if length server_addresses > 32 then Err MaxHostCount
      else if server_addresses = [] then Err NoServerAddressAvailable
      else Ok \<lparr>pt_client_id = client_id, pt_timeout_seconds = timeout_seconds, pt_socket_id = socket_id,
        pt_server_addresses = map Some server_addresses @ replicate (32 - length server_addresses) None,
        pt_client_to_server_key = random_c2s, pt_server_to_client_key = random_s2c,
        pt_user_data = (case user_data of Some user_bytes \<Rightarrow> user_bytes | None \<Rightarrow> random_user)\<rparr>)"

definition private_parts :: "PrivateConnectToken \<Rightarrow> bytes list" where
  "private_parts self = [u64_le_bytes (pt_client_id self), u32_le_bytes (pt_timeout_seconds self), [pt_socket_id self]]
     @ server_addresses_parts (pt_server_addresses self)
     @ [pt_client_to_server_key self, pt_server_to_client_key self, pt_user_data self]"

definition private_write :: "PrivateConnectToken \<Rightarrow> cursor \<Rightarrow> cursor \<times> (io_error + unit)" where
  "private_write self writer = write_parts (private_parts self) writer"

definition private_read :: "bytes \<Rightarrow> (io_error, PrivateConnectToken \<times> bytes) outcome" where
  "private_read src =
     and_then (read_u64 src) (\<lambda>(client_id, src).
     and_then (read_i32 src) (\<lambda>(timeout_seconds, src).
     and_then (read_u8 src) (\<lambda>(socket_id, src).
     and_then (read_server_addresses src) (\<lambda>(server_addresses, src).
     and_then (read_bytes 32 src) (\<lambda>(client_to_server_key, src).
     and_then (read_bytes 32 src) (\<lambda>(server_to_client_key, src).
     and_then (read_bytes 256 src) (\<lambda>(user_data, src).
       Ok (\<lparr>pt_client_id = client_id, pt_timeout_seconds = timeout_seconds, pt_socket_id = socket_id,
         pt_server_addresses = server_addresses, pt_client_to_server_key = client_to_server_key,
         pt_server_to_client_key = server_to_client_key, pt_user_data = user_data\<rparr>, src))))))))"

definition private_encode ::
  "aead_lib \<Rightarrow> PrivateConnectToken \<Rightarrow> bytes \<Rightarrow> u64 \<Rightarrow> u64 \<Rightarrow> bytes \<Rightarrow> bytes \<Rightarrow> (TokenGenerationError, bytes) outcome" where
  "private_encode lib self buffer protocol_id expire_timestamp xnonce private_key =
     (let aad = token_additional_data protocol_id expire_timestamp
      in case private_write self (cursor_new buffer) of
           (w, Inl e) \<Rightarrow> Err (TokenIoError e)
         | (w, Inr _) \<Rightarrow> map_err (\<lambda>_. TokenCryptoError) (encrypt_in_place_xnonce lib (cur_buf w) xnonce private_key aad))"

definition private_decode ::
  "aead_lib \<Rightarrow> bytes \<Rightarrow> u64 \<Rightarrow> u64 \<Rightarrow> bytes \<Rightarrow> bytes \<Rightarrow> (TokenGenerationError, PrivateConnectToken) outcome" where
  "private_decode lib buffer protocol_id expire_timestamp xnonce private_key =
     (let aad = token_additional_data protocol_id expire_timestamp
      in and_then (map_err (\<lambda>_. TokenCryptoError) (dencrypted_in_place_xnonce lib buffer xnonce private_key aad)) (\<lambda>temp_buffer.
           and_then (map_err TokenIoError (private_read temp_buffer)) (\<lambda>(token, _). Ok token)))"

subsection \<open>The public token\<close>

definition connect_token_generate ::
  "aead_lib \<Rightarrow> bytes \<Rightarrow> bytes \<Rightarrow> bytes \<Rightarrow> bytes \<Rightarrow> duration \<Rightarrow> u64 \<Rightarrow> u64 \<Rightarrow> u64 \<Rightarrow> u32 \<Rightarrow> u8 \<Rightarrow> SocketAddr list \<Rightarrow> bytes option \<Rightarrow> bytes
     \<Rightarrow> (TokenGenerationError, ConnectToken) outcome" where
  "connect_token_generate lib random_c2s random_s2c random_user random_xnonce
       current_time protocol_id expire_seconds client_id timeout_seconds socket_id server_addresses user_data private_key =
     (if as_secs current_time + unat expire_seconds \<ge> 2 ^ 64 then Panic
      else let expire_timestamp = word_of_nat (as_secs current_time) + expire_seconds
      in and_then (private_generate random_c2s random_s2c random_user client_id timeout_seconds socket_id server_addresses user_data)
           (\<lambda>private_connect_token.
         and_then (private_encode lib private_connect_token (replicate NETCODE_CONNECT_TOKEN_PRIVATE_BYTES 0)
             protocol_id expire_timestamp random_xnonce private_key) (\<lambda>private_bytes.
           Ok \<lparr>ct_client_id = client_id, ct_version_info = NETCODE_VERSION_INFO, ct_protocol_id = protocol_id,
             create_timestamp = word_of_nat (as_secs current_time), ct_expire_timestamp = expire_timestamp,
             ct_xnonce = random_xnonce, ct_socket_id = socket_id,
             ct_server_addresses = pt_server_addresses private_connect_token,
             ct_client_to_server_key = pt_client_to_server_key private_connect_token,
             ct_server_to_client_key = pt_server_to_client_key private_connect_token,
             private_data = private_bytes, ct_timeout_seconds = timeout_seconds\<rparr>)))"

definition connect_token_parts :: "ConnectToken \<Rightarrow> bytes list" where
  "connect_token_parts self = [u64_le_bytes (ct_client_id self), ct_version_info self, u64_le_bytes (ct_protocol_id self),
     u64_le_bytes (create_timestamp self), u64_le_bytes (ct_expire_timestamp self), ct_xnonce self, private_data self,
     u32_le_bytes (ct_timeout_seconds self), [ct_socket_id self]]
     @ server_addresses_parts (ct_server_addresses self)
     @ [ct_client_to_server_key self, ct_server_to_client_key self]"

definition connect_token_write :: "ConnectToken \<Rightarrow> cursor \<Rightarrow> cursor \<times> (io_error + unit)" where
  "connect_token_write self writer = write_parts (connect_token_parts self) writer"

definition connect_token_read :: "bytes \<Rightarrow> (NetcodeError, ConnectToken \<times> bytes) outcome" where
  "connect_token_read src =
     and_then (map_err IoError (read_u64 src)) (\<lambda>(client_id, src).
     and_then (map_err IoError (read_bytes 13 src)) (\<lambda>(version_info, src).
     if version_info \<noteq> NETCODE_VERSION_INFO then Err InvalidVersion else
     and_then (map_err IoError (read_u64 src)) (\<lambda>(protocol_id, src).
     and_then (map_err IoError (read_u64 src)) (\<lambda>(created, src).
     and_then (map_err IoError (read_u64 src)) (\<lambda>(expire_timestamp, src).
     and_then (map_err IoError (read_bytes NETCODE_CONNECT_TOKEN_XNONCE_BYTES src)) (\<lambda>(xnonce, src).
     and_then (map_err IoError (read_bytes NETCODE_CONNECT_TOKEN_PRIVATE_BYTES src)) (\<lambda>(private_bytes, src).
     and_then (map_err IoError (read_i32 src)) (\<lambda>(timeout_seconds, src).
     and_then (map_err IoError (read_u8 src)) (\<lambda>(socket_id, src).
     and_then (map_err IoError (read_server_addresses src)) (\<lambda>(server_addresses, src).
     and_then (map_err IoError (read_bytes NETCODE_KEY_BYTES src)) (\<lambda>(client_to_server_key, src).
     and_then (map_err IoError (read_bytes NETCODE_KEY_BYTES src)) (\<lambda>(server_to_client_key, src).
       Ok (\<lparr>ct_client_id = client_id, ct_version_info = version_info, ct_protocol_id = protocol_id,
         create_timestamp = created, ct_expire_timestamp = expire_timestamp, ct_xnonce = xnonce, ct_socket_id = socket_id,
         ct_server_addresses = server_addresses, ct_client_to_server_key = client_to_server_key,
         ct_server_to_client_key = server_to_client_key, private_data = private_bytes,
         ct_timeout_seconds = timeout_seconds\<rparr>, src)))))))))))))"
subsection \<open>Round trips\<close>

fun addr_wf :: "SocketAddr \<Rightarrow> bool" where
  "addr_wf (V4 ip p) = (length ip = 4)"
| "addr_wf (V6 ip p flowinfo scope_id) = (length ip = 16)"

text \<open>What the encoding keeps of an address, and of the array of addresses: the flow information and the
  scope of an IPv6 address are dropped, and the addresses move to the front.\<close>

fun wire_addr :: "SocketAddr \<Rightarrow> SocketAddr" where
  "wire_addr (V4 ip p) = V4 ip p"
| "wire_addr (V6 ip p flowinfo scope_id) = V6 ip p 0 0"

definition wire_addresses :: "SocketAddr option list \<Rightarrow> SocketAddr option list" where
  "wire_addresses addrs = map (Some \<circ> wire_addr) (hosts_of addrs) @ replicate (32 - length (hosts_of addrs)) None"

definition addrs_wf :: "SocketAddr option list \<Rightarrow> bool" where
  "addrs_wf addrs \<longleftrightarrow> length addrs = 32 \<and> list_all (\<lambda>a. case a of None \<Rightarrow> True | Some a \<Rightarrow> addr_wf a) addrs"

definition private_wf :: "PrivateConnectToken \<Rightarrow> bool" where
  "private_wf t \<longleftrightarrow> addrs_wf (pt_server_addresses t) \<and> length (pt_client_to_server_key t) = 32 \<and>
     length (pt_server_to_client_key t) = 32 \<and> length (pt_user_data t) = 256"

definition connect_token_wf :: "ConnectToken \<Rightarrow> bool" where
  "connect_token_wf t \<longleftrightarrow> addrs_wf (ct_server_addresses t) \<and> length (ct_client_to_server_key t) = 32 \<and>
     length (ct_server_to_client_key t) = 32 \<and> length (ct_xnonce t) = 24 \<and> length (private_data t) = 1024 \<and>
     ct_version_info t = NETCODE_VERSION_INFO"

lemma concat_singletons [simp]: "concat (map (\<lambda>i. [i]) xs) = xs"
  by (induction xs) auto

lemma read_host_parts: "addr_wf a \<Longrightarrow> read_host (concat (host_parts a) @ r) = Ok (Some (wire_addr a), r)"
  by (cases a) (simp_all add: read_host_def NETCODE_ADDRESS_IPV4_def NETCODE_ADDRESS_IPV6_def)

lemma length_host_parts: "addr_wf a \<Longrightarrow> length (concat (host_parts a)) \<le> 19"
  by (cases a) simp_all

lemma read_hosts_parts:
  "list_all addr_wf hs \<Longrightarrow> read_hosts (length hs) (concat (concat (map host_parts hs)) @ r) = Ok (map (Some \<circ> wire_addr) hs, r)"
  by (induction hs) (simp_all add: read_host_parts)

lemma length_hosts_parts: "list_all addr_wf hs \<Longrightarrow> length (concat (concat (map host_parts hs))) \<le> 19 * length hs"
proof (induction hs)
  case (Cons a hs)
  then show ?case
    using length_host_parts [of a] by simp
qed simp

lemma hosts_of_wf:
  assumes "addrs_wf addrs"
  shows "list_all addr_wf (hosts_of addrs)" "length (hosts_of addrs) \<le> 32"
proof -
  show "list_all addr_wf (hosts_of addrs)"
    using assms by (auto simp: addrs_wf_def hosts_of_def list_all_iff split: option.splits)
  have "length (filter (\<lambda>a. a \<noteq> None) addrs) \<le> length addrs"
    by (rule length_filter_le)
  then show "length (hosts_of addrs) \<le> 32"
    using assms unfolding addrs_wf_def hosts_of_def length_map by linarith
qed

lemma read_server_addresses_parts:
  assumes "addrs_wf addrs"
  shows "read_server_addresses (concat (server_addresses_parts addrs) @ r) = Ok (wire_addresses addrs, r)"
proof -
  let ?n = "length (hosts_of addrs)"
  have n: "length (filter (\<lambda>a. a \<noteq> None) addrs) = ?n" "?n \<le> 32"
    using hosts_of_wf(2) [OF assms] by (simp_all add: hosts_of_def)
  then have "unat (word_of_nat ?n :: u32) = ?n"
    by (simp add: unat_of_nat take_bit_eq_mod)
  moreover have "wire_addresses addrs \<noteq> []"
    using n(2) by (auto simp: wire_addresses_def)
  ultimately show ?thesis
    using n read_hosts_parts [OF hosts_of_wf(1) [OF assms], of r]
    by (simp add: read_server_addresses_def server_addresses_parts_def wire_addresses_def Let_def)
qed

lemma length_server_addresses_parts: "addrs_wf addrs \<Longrightarrow> length (concat (server_addresses_parts addrs)) \<le> 612"
  using length_hosts_parts [OF hosts_of_wf(1)] hosts_of_wf(2)
  by (fastforce simp: server_addresses_parts_def)

lemma private_read_parts:
  "private_wf t \<Longrightarrow> private_read (concat (private_parts t) @ r) =
     Ok (t\<lparr>pt_server_addresses := wire_addresses (pt_server_addresses t)\<rparr>, r)"
  by (simp add: private_read_def private_parts_def read_server_addresses_parts private_wf_def)

lemma length_private_parts: "private_wf t \<Longrightarrow> length (concat (private_parts t)) \<le> 945"
  using length_server_addresses_parts [of "pt_server_addresses t"] by (simp add: private_parts_def private_wf_def)

lemma length_version_info [simp]: "length NETCODE_VERSION_INFO = 13"
  by (simp add: NETCODE_VERSION_INFO_def)

lemma connect_token_read_parts:
  "connect_token_wf t \<Longrightarrow> connect_token_read (concat (connect_token_parts t) @ r) =
     Ok (t\<lparr>ct_server_addresses := wire_addresses (ct_server_addresses t)\<rparr>, r)"
  by (simp add: connect_token_read_def connect_token_parts_def read_server_addresses_parts connect_token_wf_def netcode_sizes)

lemma length_connect_token_parts: "connect_token_wf t \<Longrightarrow> length (concat (connect_token_parts t)) \<le> 1774"
  using length_server_addresses_parts [of "ct_server_addresses t"]
  by (simp add: connect_token_parts_def connect_token_wf_def)

context aead_laws
begin

lemma private_encode_decode:
  assumes wf: "private_wf t" and buffer: "length buffer = 1024"
  obtains out where "private_encode lib t buffer protocol expire xnonce key = Ok out" "length out = 1024"
    "private_decode lib out protocol expire xnonce key =
       Ok (t\<lparr>pt_server_addresses := wire_addresses (pt_server_addresses t)\<rparr>)"
proof -
  let ?parts = "concat (private_parts t)" and ?aad = "token_additional_data protocol expire"
  let ?full = "?parts @ drop (length ?parts) buffer"
  have len: "length ?parts \<le> 945"
    by (rule length_private_parts [OF wf])
  have written: "private_write t (cursor_new buffer) = (\<lparr>cur_buf = ?full, cur_pos = length ?parts\<rparr>, Inr ())"
    unfolding private_write_def using len buffer by (intro write_parts_new) simp
  let ?body = "take 1008 ?full" and ?room = "drop 1008 ?full"
  have split: "?full = ?body @ ?room"
    by (rule append_take_drop_id [symmetric])
  have room: "length ?room = NETCODE_MAC_BYTES" "length ?body = 1008" "length ?body \<le> NETCODE_MAX_PACKET_BYTES"
    using len buffer by (simp_all add: netcode_sizes)
  obtain ct tag where enc: "encrypt_in_place_xnonce lib (?body @ ?room) xnonce key ?aad = Ok (ct @ tag)"
    "length ct = length ?body" "length tag = NETCODE_MAC_BYTES"
    "dencrypted_in_place_xnonce lib (ct @ tag) xnonce key ?aad = Ok (?body @ tag)"
    by (rule encrypt_xnonce_roundtrip [OF room(1,3)])
  have body: "?body @ tag = ?parts @ drop (length ?parts) (take 1008 buffer) @ tag"
    using len by (simp add: take_drop)
  show thesis
  proof (rule that)
    show "private_encode lib t buffer protocol expire xnonce key = Ok (ct @ tag)"
      using written enc(1) split by (simp add: private_encode_def)
    show "length (ct @ tag) = 1024"
      using enc(2,3) room(2) by (simp add: netcode_sizes)
    show "private_decode lib (ct @ tag) protocol expire xnonce key =
        Ok (t\<lparr>pt_server_addresses := wire_addresses (pt_server_addresses t)\<rparr>)"
      unfolding private_decode_def Let_def enc(4) body using private_read_parts [OF wf] by simp
  qed
qed

end
lemma hosts_of_Somes: "hosts_of (map Some as @ replicate n None) = as"
  by (induction as) (simp_all add: hosts_of_def)

lemma generated_token:
  assumes lib: "aead_laws lib" and addrs: "0 < length addrs" "length addrs \<le> 32" "list_all addr_wf addrs"
    and rnd: "length c2s = 32" "length s2c = 32" "length xnonce = 24"
    and user: "length user_bytes = 256" and time: "as_secs now + unat expire_seconds < 2 ^ 64"
  shows "\<exists>token. connect_token_generate lib c2s s2c random_user xnonce now protocol expire_seconds client timeout socket addrs
      (Some user_bytes) key = Ok token \<and> connect_token_wf token \<and>
    unat (ct_expire_timestamp token) = as_secs now + unat expire_seconds \<and>
    private_decode lib (private_data token) (ct_protocol_id token) (ct_expire_timestamp token) (ct_xnonce token) key =
      Ok \<lparr>pt_client_id = ct_client_id token, pt_timeout_seconds = ct_timeout_seconds token, pt_socket_id = ct_socket_id token,
        pt_server_addresses = wire_addresses (ct_server_addresses token),
        pt_client_to_server_key = ct_client_to_server_key token, pt_server_to_client_key = ct_server_to_client_key token,
        pt_user_data = user_bytes\<rparr> \<and>
    ct_client_id token = client \<and> hosts_of (ct_server_addresses token) = addrs \<and> ct_server_addresses token ! 0 = Some (hd addrs) \<and>
    ct_protocol_id token = protocol \<and> ct_socket_id token = socket \<and> unat (create_timestamp token) = as_secs now"
proof -
  let ?p = "\<lparr>pt_client_id = client, pt_timeout_seconds = timeout, pt_socket_id = socket,
    pt_server_addresses = map Some addrs @ replicate (32 - length addrs) None, pt_client_to_server_key = c2s,
    pt_server_to_client_key = s2c, pt_user_data = user_bytes\<rparr>"
  let ?expire = "word_of_nat (as_secs now) + expire_seconds :: u64"
  have gen: "private_generate c2s s2c random_user client timeout socket addrs (Some user_bytes) = Ok ?p"
    using addrs by (auto simp: private_generate_def)
  have awf: "addrs_wf (pt_server_addresses ?p)"
    using addrs by (auto simp: addrs_wf_def list_all_iff)
  then have wf: "private_wf ?p"
    using rnd user by (simp add: private_wf_def)
  have zeros: "length (replicate NETCODE_CONNECT_TOKEN_PRIVATE_BYTES (0::u8)) = 1024"
    by (simp add: netcode_sizes)
  obtain out where out: "private_encode lib ?p (replicate NETCODE_CONNECT_TOKEN_PRIVATE_BYTES 0) protocol ?expire xnonce key = Ok out"
    "length out = 1024" "private_decode lib out protocol ?expire xnonce key =
       Ok (?p\<lparr>pt_server_addresses := wire_addresses (pt_server_addresses ?p)\<rparr>)"
    by (rule aead_laws.private_encode_decode [OF lib wf zeros])
  have "unat ?expire = as_secs now + unat expire_seconds"
    using time by (simp add: unat_word_ariths unat_of_nat take_bit_eq_mod)
  moreover have "unat (word_of_nat (as_secs now) :: u64) = as_secs now"
    using time by (simp add: unat_of_nat take_bit_eq_mod)
  moreover have "(map Some addrs @ replicate (32 - length addrs) None) ! 0 = Some (hd addrs)"
    using addrs(1) by (cases addrs) simp_all
  ultimately show ?thesis
    using gen out time rnd awf
    by (simp add: connect_token_generate_def Let_def connect_token_wf_def hosts_of_Somes)
qed

text \<open>
  C22: A generated connect token is one the servers accept: with one to 32 addresses and no overflow of the
  expiry time, generation succeeds, the token is well formed, and decrypting its private part with the same key,
  protocol and expiry gives the client id, the timeout, the two session keys, the user data and the addresses
  of the public part.
\<close>

theorem connect_token_sound:
  assumes lib: "aead_laws lib" and addrs: "0 < length addrs" "length addrs \<le> 32" "list_all addr_wf addrs"
    and rnd: "length c2s = 32" "length s2c = 32" "length xnonce = 24"
    and user: "length user_bytes = 256" and time: "as_secs now + unat expire_seconds < 2 ^ 64"
  shows "\<exists>token. connect_token_generate lib c2s s2c random_user xnonce now protocol expire_seconds client timeout socket addrs
      (Some user_bytes) key = Ok token \<and> connect_token_wf token \<and>
    unat (ct_expire_timestamp token) = as_secs now + unat expire_seconds \<and>
    private_decode lib (private_data token) (ct_protocol_id token) (ct_expire_timestamp token) (ct_xnonce token) key =
      Ok \<lparr>pt_client_id = ct_client_id token, pt_timeout_seconds = ct_timeout_seconds token, pt_socket_id = ct_socket_id token,
        pt_server_addresses = wire_addresses (ct_server_addresses token),
        pt_client_to_server_key = ct_client_to_server_key token, pt_server_to_client_key = ct_server_to_client_key token,
        pt_user_data = user_bytes\<rparr> \<and>
    ct_client_id token = client \<and> hosts_of (ct_server_addresses token) = addrs"
  using generated_token [OF assms] by blast

definition demo_token :: "(TokenGenerationError, ConnectToken) outcome" where
  "demo_token = connect_token_generate rfc_aead (replicate 32 1) (replicate 32 2) [] (replicate 24 3) (from_secs 7) 42 300 9 15 0
     [V4 [127, 0, 0, 1] 5000] (Some (replicate 256 4)) (replicate 32 5)"

theorem connect_token_sound_witness:
  "\<exists>token. demo_token = Ok token \<and> ct_client_id token = 9 \<and> unat (ct_expire_timestamp token) = 307 \<and>
     private_decode rfc_aead (private_data token) (ct_protocol_id token) (ct_expire_timestamp token) (ct_xnonce token) (replicate 32 5) =
       Ok \<lparr>pt_client_id = ct_client_id token, pt_timeout_seconds = ct_timeout_seconds token, pt_socket_id = ct_socket_id token,
        pt_server_addresses = wire_addresses (ct_server_addresses token),
        pt_client_to_server_key = ct_client_to_server_key token, pt_server_to_client_key = ct_server_to_client_key token,
        pt_user_data = replicate 256 4\<rparr>"
proof -
  have time: "as_secs (from_secs 7) + unat (300 :: u64) = 307"
    by (simp add: as_secs_def from_secs_def)
  show ?thesis
    using connect_token_sound [OF rfc.aead_laws_axioms, of "[V4 [127, 0, 0, 1] 5000]" "replicate 32 1" "replicate 32 2"
        "replicate 24 3" "replicate 256 4" "from_secs 7" 300 "[]" 42 9 15 0 "replicate 32 5"]
    unfolding time demo_token_def by auto
qed

text \<open>
  C31: Writing a well-formed connect token and reading it back gives the token, with the addresses moved to the
  front of the array and without the flow information and scope of IPv6 addresses; 1774 bytes are always enough.
\<close>

theorem connect_token_roundtrip:
  assumes "connect_token_wf t" "1774 \<le> length buffer"
  shows "\<exists>w. connect_token_write t (cursor_new buffer) = (w, Inr ()) \<and>
    connect_token_read (take (cur_pos w) (cur_buf w)) = Ok (t\<lparr>ct_server_addresses := wire_addresses (ct_server_addresses t)\<rparr>, [])"
proof -
  let ?bs = "concat (connect_token_parts t)"
  have "length ?bs \<le> length buffer"
    using length_connect_token_parts [OF assms(1)] assms(2) by linarith
  then have "connect_token_write t (cursor_new buffer) = (\<lparr>cur_buf = ?bs @ drop (length ?bs) buffer, cur_pos = length ?bs\<rparr>, Inr ())"
    unfolding connect_token_write_def by (rule write_parts_new)
  then show ?thesis
    using connect_token_read_parts [OF assms(1), of "[]"] by simp
qed

definition sample_token :: ConnectToken where
  "sample_token = \<lparr>ct_client_id = 1, ct_version_info = NETCODE_VERSION_INFO, ct_protocol_id = 2, create_timestamp = 3,
     ct_expire_timestamp = 4, ct_xnonce = replicate 24 0, ct_socket_id = 0,
     ct_server_addresses = None # Some (V6 (replicate 16 1) 5000 7 9) # replicate 30 None,
     ct_client_to_server_key = replicate 32 1, ct_server_to_client_key = replicate 32 2,
     private_data = replicate 1024 0, ct_timeout_seconds = 15\<rparr>"

theorem connect_token_roundtrip_witness:
  "\<exists>w. connect_token_write sample_token (cursor_new (replicate 1774 0)) = (w, Inr ()) \<and>
    connect_token_read (take (cur_pos w) (cur_buf w)) =
      Ok (sample_token\<lparr>ct_server_addresses := Some (V6 (replicate 16 1) 5000 0 0) # replicate 31 None\<rparr>, [])"
proof -
  have "wire_addresses (ct_server_addresses sample_token) = Some (V6 (replicate 16 1) 5000 0 0) # replicate 31 None"
    by (simp add: wire_addresses_def sample_token_def hosts_of_def)
  moreover have "connect_token_wf sample_token"
    by (simp add: connect_token_wf_def sample_token_def addrs_wf_def list_all_iff)
  ultimately show ?thesis
    using connect_token_roundtrip [of sample_token "replicate 1774 0"] by simp
qed

end
