(* ===== verification/Netcode_Replay.thy ===== *)
theory Netcode_Replay
  imports Netcode_Serialize
begin

text \<open>
  \<open>src/renetcode2/src/replay_protection.rs\<close>: which sequence numbers have been received, in a ring of 256
  entries. The reference keeps every number that was accepted; the lemmas show that the ring gives the
  same answers.
\<close>

definition NETCODE_REPLAY_BUFFER_SIZE :: nat where "NETCODE_REPLAY_BUFFER_SIZE = 256"

definition EMPTY :: u64 where "EMPTY = 0xFFFFFFFFFFFFFFFF"

record ReplayProtection =
  most_recent_sequence :: u64
  received_packet :: "u64 list"

definition replay_new :: ReplayProtection where
  "replay_new = \<lparr>most_recent_sequence = 0, received_packet = replicate NETCODE_REPLAY_BUFFER_SIZE EMPTY\<rparr>"

text \<open>\<open>None\<close> is the overflow of \<open>sequence + 256\<close>.\<close>

definition checked_add_u64 :: "u64 \<Rightarrow> u64 \<Rightarrow> u64 option" where
  "checked_add_u64 a b = (if unat a + unat b < 2 ^ 64 then Some (a + b) else None)"

definition already_received :: "ReplayProtection \<Rightarrow> u64 \<Rightarrow> bool option" where
  "already_received self sequence = do {
     bound \<leftarrow> checked_add_u64 sequence (word_of_nat NETCODE_REPLAY_BUFFER_SIZE);
     if bound \<le> most_recent_sequence self then Some True
     else do {
       entry \<leftarrow> index (received_packet self) (unat sequence mod NETCODE_REPLAY_BUFFER_SIZE);
       if entry = EMPTY then Some False
       else if entry \<ge> sequence then Some True
       else Some False
     }
   }"

definition advance_sequence :: "ReplayProtection \<Rightarrow> u64 \<Rightarrow> ReplayProtection" where
  "advance_sequence self sequence =
     (let self = (if sequence > most_recent_sequence self then self\<lparr>most_recent_sequence := sequence\<rparr> else self)
      in self\<lparr>received_packet := (received_packet self)[unat sequence mod NETCODE_REPLAY_BUFFER_SIZE := sequence]\<rparr>)"

subsection \<open>The reference\<close>

text \<open>A number is rejected when it was accepted before or lies 256 or more below an accepted one.\<close>

definition too_late :: "u64 list \<Rightarrow> u64 \<Rightarrow> bool" where
  "too_late acc s \<longleftrightarrow> s \<in> set acc \<or> (\<exists>t \<in> set acc. unat s + 256 \<le> unat t)"

definition replay_inv :: "u64 list \<Rightarrow> ReplayProtection \<Rightarrow> bool" where
  "replay_inv acc self \<longleftrightarrow> length (received_packet self) = 256 \<and> (\<forall>t \<in> set acc. t \<le> most_recent_sequence self) \<and>
     (most_recent_sequence self = 0 \<or> most_recent_sequence self \<in> set acc) \<and> EMPTY \<notin> set acc \<and>
     (\<forall>j < 256. if received_packet self ! j = EMPTY then \<forall>t \<in> set acc. unat t mod 256 \<noteq> j
       else received_packet self ! j \<in> set acc \<and> unat (received_packet self ! j) mod 256 = j \<and>
         (\<forall>t \<in> set acc. unat t mod 256 = j \<longrightarrow> t \<le> received_packet self ! j))"

lemma replay_inv_new: "replay_inv [] replay_new"
  by (simp add: replay_inv_def replay_new_def NETCODE_REPLAY_BUFFER_SIZE_def)

lemma same_residue:
  assumes "(a::nat) < b" "a mod 256 = b mod 256"
  shows "a + 256 \<le> b"
proof -
  have "256 dvd b - a"
    using assms mod_eq_dvd_iff_nat [of a b 256] by simp
  then show ?thesis
    using assms(1) by (auto dest: dvd_imp_le)
qed

lemma already_received_iff:
  assumes inv: "replay_inv acc self" and s: "unat s + 256 < 2 ^ 64"
  shows "already_received self s = Some (too_late acc s)"
proof -
  let ?v = "received_packet self ! (unat s mod 256)"
  have add: "checked_add_u64 s (word_of_nat NETCODE_REPLAY_BUFFER_SIZE) = Some (s + 256)" and bound: "unat (s + 256) = unat s + 256"
    using s by (simp_all add: checked_add_u64_def NETCODE_REPLAY_BUFFER_SIZE_def unat_word_ariths)
  have slot: "if ?v = EMPTY then \<forall>t \<in> set acc. unat t mod 256 \<noteq> unat s mod 256
       else ?v \<in> set acc \<and> unat ?v mod 256 = unat s mod 256 \<and> (\<forall>t \<in> set acc. unat t mod 256 = unat s mod 256 \<longrightarrow> t \<le> ?v)"
    using inv by (simp add: replay_inv_def)
  have old: "s + 256 \<le> most_recent_sequence self \<longleftrightarrow> (\<exists>t \<in> set acc. unat s + 256 \<le> unat t)"
  proof
    assume le: "s + 256 \<le> most_recent_sequence self"
    then have "unat s + 256 \<le> unat (most_recent_sequence self)"
      using bound by (simp add: word_le_nat_alt)
    moreover from this have "most_recent_sequence self \<noteq> 0"
      by auto
    ultimately show "\<exists>t \<in> set acc. unat s + 256 \<le> unat t"
      using inv by (auto simp: replay_inv_def)
  next
    assume "\<exists>t \<in> set acc. unat s + 256 \<le> unat t"
    then obtain t where "t \<in> set acc" "unat s + 256 \<le> unat t"
      by blast
    moreover from this have "unat t \<le> unat (most_recent_sequence self)"
      using inv by (auto simp: replay_inv_def word_le_nat_alt)
    ultimately show "s + 256 \<le> most_recent_sequence self"
      using bound by (simp add: word_le_nat_alt)
  qed
  have run: "already_received self s = Some (s + 256 \<le> most_recent_sequence self \<or> ?v \<noteq> EMPTY \<and> s \<le> ?v)"
    using inv add by (simp add: already_received_def NETCODE_REPLAY_BUFFER_SIZE_def replay_inv_def)
  show ?thesis
  proof (cases "?v = EMPTY")
    case True
    then have "s \<notin> set acc"
      using slot by auto
    then show ?thesis
      using run old True by (simp add: too_late_def)
  next
    case False
    then have v: "?v \<in> set acc" "unat ?v mod 256 = unat s mod 256" "s \<in> set acc \<longrightarrow> s \<le> ?v"
      using slot by auto
    have "s < ?v \<Longrightarrow> unat s + 256 \<le> unat ?v"
      using same_residue v(2) by (simp add: word_less_nat_alt)
    then have "s \<le> ?v \<longrightarrow> s \<in> set acc \<or> (\<exists>t \<in> set acc. unat s + 256 \<le> unat t)"
      using v(1) by (metis order_le_less)
    then show ?thesis
      using run old False v(3) by (auto simp: too_late_def)
  qed
qed

lemma replay_inv_advance:
  assumes inv: "replay_inv acc self" and new: "\<not> too_late acc s" and s: "unat s + 256 < 2 ^ 64"
  shows "replay_inv (acc @ [s]) (advance_sequence self s)"
proof -
  let ?i = "unat s mod 256"
  have ne: "s \<noteq> EMPTY"
    using s by (auto simp: EMPTY_def)
  have len: "length (received_packet self) = 256"
    using inv by (simp add: replay_inv_def)
  have above: "t \<le> s" if t: "t \<in> set acc" "unat t mod 256 = ?i" for t
  proof (rule ccontr)
    assume "\<not> t \<le> s"
    then have "unat s < unat t"
      by (simp add: word_le_nat_alt)
    then have "unat s + 256 \<le> unat t"
      using t(2) by (intro same_residue) simp_all
    then show False
      using new t(1) by (auto simp: too_late_def)
  qed
  let ?r = "(received_packet self)[?i := s]"
  have "if ?r ! j = EMPTY then \<forall>t \<in> set (acc @ [s]). unat t mod 256 \<noteq> j
       else ?r ! j \<in> set (acc @ [s]) \<and> unat (?r ! j) mod 256 = j \<and> (\<forall>t \<in> set (acc @ [s]). unat t mod 256 = j \<longrightarrow> t \<le> ?r ! j)"
    if j: "j < 256" for j
  proof (cases "j = ?i")
    case True
    then show ?thesis
      using ne above len j by simp
  next
    case False
    then have "?r ! j = received_packet self ! j"
      by simp
    then show ?thesis
      using inv j False by (auto simp: replay_inv_def)
  qed
  then have slots: "\<forall>j < 256. if ?r ! j = EMPTY then \<forall>t \<in> set (acc @ [s]). unat t mod 256 \<noteq> j
       else ?r ! j \<in> set (acc @ [s]) \<and> unat (?r ! j) mod 256 = j \<and> (\<forall>t \<in> set (acc @ [s]). unat t mod 256 = j \<longrightarrow> t \<le> ?r ! j)"
    by blast
  have ring: "received_packet (advance_sequence self s) = ?r"
    by (simp add: advance_sequence_def NETCODE_REPLAY_BUFFER_SIZE_def Let_def)
  have top: "most_recent_sequence (advance_sequence self s) = max (most_recent_sequence self) s"
    by (auto simp: advance_sequence_def Let_def max_def)
  have "\<forall>t \<in> set (acc @ [s]). t \<le> max (most_recent_sequence self) s"
    "max (most_recent_sequence self) s = 0 \<or> max (most_recent_sequence self) s \<in> set (acc @ [s])" "EMPTY \<notin> set (acc @ [s])"
    using inv ne by (auto simp: replay_inv_def max_def)
  then show ?thesis
    unfolding replay_inv_def ring top length_list_update len using slots by blast
qed
subsection \<open>A stream of sequence numbers\<close>

text \<open>Each authenticated packet is dropped when its number was received and advances the ring otherwise.\<close>

fun replay_run :: "u64 list \<Rightarrow> ReplayProtection \<Rightarrow> u64 list option" where
  "replay_run [] self = Some []"
| "replay_run (s # ss) self = do {
     dup \<leftarrow> already_received self s;
     if dup then replay_run ss self else map_option (Cons s) (replay_run ss (advance_sequence self s))
   }"

fun window_run :: "u64 list \<Rightarrow> u64 list \<Rightarrow> u64 list" where
  "window_run [] acc = []"
| "window_run (s # ss) acc = (if too_late acc s then window_run ss acc else s # window_run ss (acc @ [s]))"

lemma replay_run_window:
  "replay_inv acc self \<Longrightarrow> list_all (\<lambda>s. unat s + 256 < 2 ^ 64) ss \<Longrightarrow> replay_run ss self = Some (window_run ss acc)"
proof (induction ss arbitrary: acc self)
  case (Cons s ss)
  have s: "unat s + 256 < 2 ^ 64" and ss: "list_all (\<lambda>s. unat s + 256 < 2 ^ 64) ss"
    using Cons.prems(2) by simp_all
  show ?case
  proof (cases "too_late acc s")
    case True
    then show ?thesis
      using already_received_iff [OF Cons.prems(1) s] Cons.IH [OF Cons.prems(1) ss] by simp
  next
    case False
    then show ?thesis
      using already_received_iff [OF Cons.prems(1) s] Cons.IH [OF replay_inv_advance [OF Cons.prems(1) False s] ss] by simp
  qed
qed simp

lemma window_run_fresh: "set (window_run ss acc) \<inter> set acc = {} \<and> distinct (window_run ss acc)"
proof (induction ss arbitrary: acc)
  case (Cons s ss)
  then show ?case
    using Cons [of acc] Cons [of "acc @ [s]"] by (auto simp: too_late_def)
qed simp

lemma already_received_overflow:
  "already_received self s = None \<longleftrightarrow> 2 ^ 64 \<le> unat s + 256" if "length (received_packet self) = 256"
  using that by (auto simp: already_received_def checked_add_u64_def NETCODE_REPLAY_BUFFER_SIZE_def)

lemma length_advance_sequence [simp]:
  "length (received_packet (advance_sequence self s)) = length (received_packet self)"
  by (simp add: advance_sequence_def Let_def)

text \<open>
  C23: The ring of 256 entries is equivalent to remembering every accepted number: on any stream of
  sequence numbers below \<open>2 ^ 64 - 256\<close> the numbers that pass are those the reference lets pass, which
  rejects a number exactly when it was accepted before or is 256 or more behind an accepted one; no
  number passes twice.
\<close>

theorem replay_window_exact:
  assumes "\<forall>s \<in> set ss. unat s + 256 < 2 ^ 64"
  shows "replay_run ss replay_new = Some (window_run ss []) \<and> distinct (window_run ss [])"
  using replay_run_window [OF replay_inv_new, of ss] window_run_fresh [of ss "[]"] assms
  by (auto simp: list_all_iff)

theorem replay_window_exact_witness:
  "replay_run [5, 5, 300, 40, 45, 300] replay_new = Some [5, 300, 45]"
  using replay_window_exact [of "[5, 5, 300, 40, 45, 300]"] by (simp add: too_late_def)

end
