(* ===== verification/Netcode_Packet.thy ===== *)
theory Netcode_Packet
  imports Netcode_Token Netcode_Replay
begin

text \<open>
  \<open>src/renetcode2/src/packet.rs\<close>: the packets of the handshake and of a connection and how they are written,
  encrypted, decrypted and read. \<open>packet_encode\<close> returns the caller's buffer beside the length or the error;
  \<open>packet_decode\<close> returns the replay protection, which it may have advanced even when reading the body fails.
\<close>

datatype PacketType =
    TConnectionRequest
  | TConnectionDenied
  | TChallenge
  | TResponse
  | TKeepAlive
  | TPayload
  | TDisconnect

datatype NetcodePacket =
    ConnectionRequest bytes u64 u64 bytes bytes
  | ConnectionDeniedPacket
  | Challenge u64 bytes
  | Response u64 bytes
  | KeepAlive u32 u32
  | Payload bytes
  | Disconnect

record ChallengeToken =
  ch_client_id :: u64
  ch_user_data :: bytes

subsection \<open>Types and prefix\<close>

definition packet_type_from_u8 :: "u8 \<Rightarrow> NetcodeError + PacketType" where
  "packet_type_from_u8 value =
     (if value = 0 then Inr TConnectionRequest else if value = 1 then Inr TConnectionDenied else if value = 2 then Inr TChallenge
      else if value = 3 then Inr TResponse else if value = 4 then Inr TKeepAlive else if value = 5 then Inr TPayload
      else if value = 6 then Inr TDisconnect else Inl InvalidPacketType)"

fun type_code :: "PacketType \<Rightarrow> u8" where
  "type_code TConnectionRequest = 0"
| "type_code TConnectionDenied = 1"
| "type_code TChallenge = 2"
| "type_code TResponse = 3"
| "type_code TKeepAlive = 4"
| "type_code TPayload = 5"
| "type_code TDisconnect = 6"

fun apply_replay_protection :: "PacketType \<Rightarrow> bool" where
  "apply_replay_protection TKeepAlive = True"
| "apply_replay_protection TPayload = True"
| "apply_replay_protection TDisconnect = True"
| "apply_replay_protection _ = False"

fun packet_type :: "NetcodePacket \<Rightarrow> PacketType" where
  "packet_type (ConnectionRequest _ _ _ _ _) = TConnectionRequest"
| "packet_type ConnectionDeniedPacket = TConnectionDenied"
| "packet_type (Challenge _ _) = TChallenge"
| "packet_type (Response _ _) = TResponse"
| "packet_type (KeepAlive _ _) = TKeepAlive"
| "packet_type (Payload _) = TPayload"
| "packet_type Disconnect = TDisconnect"

definition packet_id :: "NetcodePacket \<Rightarrow> u8" where
  "packet_id self = type_code (packet_type self)"

definition packet_additional_data :: "u8 \<Rightarrow> u64 \<Rightarrow> bytes" where
  "packet_additional_data prefix protocol_id = NETCODE_VERSION_INFO @ u64_le_bytes protocol_id @ [prefix]"

definition decode_prefix :: "u8 \<Rightarrow> u8 \<times> nat" where
  "decode_prefix value = (and value 0xF, unat (drop_bit 4 value))"

text \<open>The loop over the eight masks, with \<open>i\<close> rounds to go.\<close>

fun sequence_bytes_loop :: "nat \<Rightarrow> u64 \<Rightarrow> u64 \<Rightarrow> nat" where
  "sequence_bytes_loop 0 msk sequence = 0"
| "sequence_bytes_loop (Suc i) msk sequence =
     (if and sequence msk \<noteq> 0 then Suc i else sequence_bytes_loop i (drop_bit 8 msk) sequence)"

definition sequence_bytes_required :: "u64 \<Rightarrow> nat" where
  "sequence_bytes_required sequence = sequence_bytes_loop 8 0xFF00000000000000 sequence"

definition encode_prefix :: "u8 \<Rightarrow> u64 \<Rightarrow> u8" where
  "encode_prefix value sequence = or value (push_bit 4 (word_of_nat (sequence_bytes_required sequence)))"

definition write_sequence :: "u64 \<Rightarrow> cursor \<Rightarrow> cursor \<times> nat" where
  "write_sequence seq out =
     (let len = sequence_bytes_required seq; sequence_scratch = u64_le_bytes seq
      in cursor_write (take len sequence_scratch) out)"

text \<open>\<open>&mut seq_scratch[0..len]\<close> panics for \<open>len\<close> above eight.\<close>

definition read_sequence :: "nat \<Rightarrow> bytes \<Rightarrow> (io_error, u64 \<times> bytes) outcome" where
  "read_sequence len source =
     (if len > 8 then Panic
      else and_then (read_bytes len source) (\<lambda>(bs, source).
        Ok (word_of_nat (of_le (bs @ replicate (8 - len) 0)), source)))"

subsection \<open>Bodies\<close>

fun packet_parts :: "NetcodePacket \<Rightarrow> bytes list" where
  "packet_parts (ConnectionRequest version_info protocol_id expire_timestamp xnonce data) =
     [version_info, u64_le_bytes protocol_id, u64_le_bytes expire_timestamp, xnonce, data]"
| "packet_parts (Challenge token_sequence token_data) = [u64_le_bytes token_sequence, token_data]"
| "packet_parts (Response token_sequence token_data) = [u64_le_bytes token_sequence, token_data]"
| "packet_parts (KeepAlive client_index max_clients) = [u32_le_bytes client_index, u32_le_bytes max_clients]"
| "packet_parts (Payload p) = [p]"
| "packet_parts ConnectionDeniedPacket = []"
| "packet_parts Disconnect = []"

definition packet_write :: "NetcodePacket \<Rightarrow> cursor \<Rightarrow> cursor \<times> (io_error + unit)" where
  "packet_write self writer = write_parts (packet_parts self) writer"

fun packet_read :: "PacketType \<Rightarrow> bytes \<Rightarrow> (io_error, NetcodePacket) outcome" where
  "packet_read TPayload src = Ok (Payload src)"
| "packet_read TConnectionRequest src =
     and_then (read_bytes 13 src) (\<lambda>(version_info, src).
     and_then (read_u64 src) (\<lambda>(protocol_id, src).
     and_then (read_u64 src) (\<lambda>(expire_timestamp, src).
     and_then (read_bytes NETCODE_CONNECT_TOKEN_XNONCE_BYTES src) (\<lambda>(xnonce, src).
     and_then (read_bytes NETCODE_CONNECT_TOKEN_PRIVATE_BYTES src) (\<lambda>(token_data, src).
       Ok (ConnectionRequest version_info protocol_id expire_timestamp xnonce token_data))))))"
| "packet_read TChallenge src =
     and_then (read_u64 src) (\<lambda>(token_sequence, src).
     and_then (read_bytes NETCODE_CHALLENGE_TOKEN_BYTES src) (\<lambda>(token_data, src). Ok (Challenge token_sequence token_data)))"
| "packet_read TResponse src =
     and_then (read_u64 src) (\<lambda>(token_sequence, src).
     and_then (read_bytes NETCODE_CHALLENGE_TOKEN_BYTES src) (\<lambda>(token_data, src). Ok (Response token_sequence token_data)))"
| "packet_read TKeepAlive src =
     and_then (read_u32 src) (\<lambda>(client_index, src). and_then (read_u32 src) (\<lambda>(max_clients, src). Ok (KeepAlive client_index max_clients)))"
| "packet_read TConnectionDenied src = Ok ConnectionDeniedPacket"
| "packet_read TDisconnect src = Ok Disconnect"

definition connection_request_from_token :: "ConnectToken \<Rightarrow> NetcodePacket" where
  "connection_request_from_token connect_token = ConnectionRequest NETCODE_VERSION_INFO (ct_protocol_id connect_token)
     (ct_expire_timestamp connect_token) (ct_xnonce connect_token) (private_data connect_token)"

subsection \<open>The challenge token\<close>

definition challenge_token_new :: "u64 \<Rightarrow> bytes \<Rightarrow> ChallengeToken" where
  "challenge_token_new client_id user_data = \<lparr>ch_client_id = client_id, ch_user_data = user_data\<rparr>"

definition challenge_token_read :: "bytes \<Rightarrow> (io_error, ChallengeToken \<times> bytes) outcome" where
  "challenge_token_read src =
     and_then (read_u64 src) (\<lambda>(client_id, src).
     and_then (read_bytes NETCODE_USER_DATA_BYTES src) (\<lambda>(user_data, src).
       Ok (\<lparr>ch_client_id = client_id, ch_user_data = user_data\<rparr>, src)))"

definition challenge_token_write :: "ChallengeToken \<Rightarrow> cursor \<Rightarrow> cursor \<times> (io_error + unit)" where
  "challenge_token_write self out = write_parts [u64_le_bytes (ch_client_id self), ch_user_data self] out"

definition challenge_token_decode :: "aead_lib \<Rightarrow> bytes \<Rightarrow> u64 \<Rightarrow> bytes \<Rightarrow> (NetcodeError, ChallengeToken) outcome" where
  "challenge_token_decode lib token_data token_sequence challenge_key =
     and_then (map_err (\<lambda>_. CryptoError) (dencrypted_in_place lib token_data token_sequence challenge_key [])) (\<lambda>decoded.
       and_then (map_err IoError (challenge_token_read decoded)) (\<lambda>(token, _). Ok token))"

definition generate_challenge :: "aead_lib \<Rightarrow> u64 \<Rightarrow> bytes \<Rightarrow> u64 \<Rightarrow> bytes \<Rightarrow> (NetcodeError, NetcodePacket) outcome" where
  "generate_challenge lib client_id user_data challenge_sequence challenge_key =
     (let token = challenge_token_new client_id user_data; buffer = replicate NETCODE_CHALLENGE_TOKEN_BYTES 0
      in case challenge_token_write token (cursor_new buffer) of
           (w, Inl e) \<Rightarrow> Err (IoError e)
         | (w, Inr _) \<Rightarrow> and_then (map_err (\<lambda>_. CryptoError) (encrypt_in_place lib (cur_buf w) challenge_sequence challenge_key []))
             (\<lambda>buffer. Ok (Challenge challenge_sequence buffer)))"

subsection \<open>Encoding and decoding\<close>

text \<open>\<open>buffer[start..end]\<close> is changed in place by \<open>f\<close>; an error leaves it as it was.\<close>

definition in_place :: "bytes \<Rightarrow> nat \<Rightarrow> nat \<Rightarrow> (bytes \<Rightarrow> (unit, bytes) outcome) \<Rightarrow> (bytes \<times> (unit + unit)) option" where
  "in_place buffer start fin f = do {
     part \<leftarrow> slice_range buffer start fin;
     case f part of Ok part' \<Rightarrow> map_option (\<lambda>b. (b, Inr ())) (copy_range buffer start fin part')
       | Err _ \<Rightarrow> Some (buffer, Inl ()) | Panic \<Rightarrow> None
   }"

definition packet_encode ::
  "aead_lib \<Rightarrow> NetcodePacket \<Rightarrow> bytes \<Rightarrow> u64 \<Rightarrow> (u64 \<times> bytes) option \<Rightarrow> bool \<Rightarrow> (bytes \<times> (NetcodeError + nat)) option" where
  "packet_encode lib self buffer protocol_id crypto_info encrypted =
     (if packet_type self = TConnectionRequest then
        let prefix_byte = encode_prefix (packet_id self) 0
        in case write_all [prefix_byte] (cursor_new buffer) of
             (w, Inl e) \<Rightarrow> Some (cur_buf w, Inl (IoError e))
           | (w, Inr _) \<Rightarrow> (case packet_write self w of
               (w, Inl e) \<Rightarrow> Some (cur_buf w, Inl (IoError e))
             | (w, Inr _) \<Rightarrow> Some (cur_buf w, Inr (cur_pos w)))
      else case crypto_info of None \<Rightarrow> Some (buffer, Inl UnavailablePrivateKey)
      | Some (sequence, private_key) \<Rightarrow>
        let prefix_byte = encode_prefix (packet_id self) sequence
        in case write_all [prefix_byte] (cursor_new buffer) of
             (w, Inl e) \<Rightarrow> Some (cur_buf w, Inl (IoError e))
           | (w, Inr _) \<Rightarrow>
               let (w, _) = write_sequence sequence w; start = cur_pos w
               in case packet_write self w of
                    (w, Inl e) \<Rightarrow> Some (cur_buf w, Inl (IoError e))
                  | (w, Inr _) \<Rightarrow>
                      let aad = packet_additional_data prefix_byte protocol_id; fin = cur_pos w; buffer = cur_buf w
                      in if length buffer < fin + NETCODE_MAC_BYTES then Some (buffer, Inl (IoError WriteZero))
                         else do {
                           (buffer, r) \<leftarrow> in_place buffer start (fin + NETCODE_MAC_BYTES) (\<lambda>part.
                             if encrypted then encrypt_in_place lib part sequence private_key aad
                             else encode_in_place part protocol_id);
                           case r of Inl _ \<Rightarrow> Some (buffer, Inl CryptoError)
                             | Inr _ \<Rightarrow> Some (buffer, Inr (fin + NETCODE_MAC_BYTES))
                         })"

definition packet_decode ::
  "aead_lib \<Rightarrow> bytes \<Rightarrow> u64 \<Rightarrow> bytes option \<Rightarrow> ReplayProtection option \<Rightarrow> bool
     \<Rightarrow> (ReplayProtection option \<times> (NetcodeError + u64 \<times> NetcodePacket)) option" where
  "packet_decode lib buffer protocol_id private_key replay_protection encrypted =
     (if length buffer < 2 + NETCODE_MAC_BYTES then Some (replay_protection, Inl PacketTooSmall)
      else let prefix_byte = buffer ! 0; (code, sequence_len) = decode_prefix prefix_byte
      in case packet_type_from_u8 code of
           Inl e \<Rightarrow> Some (replay_protection, Inl e)
         | Inr ptype \<Rightarrow>
        if ptype = TConnectionRequest then
          case packet_read TConnectionRequest (drop 1 buffer) of
            Ok p \<Rightarrow> Some (replay_protection, Inr (0, p)) | Err e \<Rightarrow> Some (replay_protection, Inl (IoError e)) | Panic \<Rightarrow> None
        else case private_key of None \<Rightarrow> Some (replay_protection, Inl UnavailablePrivateKey)
        | Some private_key \<Rightarrow>
          (case read_sequence sequence_len (drop 1 buffer) of
             Panic \<Rightarrow> None | Err e \<Rightarrow> Some (replay_protection, Inl (IoError e))
           | Ok (sequence, rest) \<Rightarrow> do {
               let aad = packet_additional_data prefix_byte protocol_id;
               let read_pos = length buffer - length rest;
               duplicate \<leftarrow> (case replay_protection of None \<Rightarrow> Some False
                 | Some rp \<Rightarrow> if apply_replay_protection ptype then already_received rp sequence else Some False);
               if duplicate then Some (replay_protection, Inl DuplicatedSequence)
               else case (if encrypted then dencrypted_in_place lib rest sequence private_key aad
                          else and_then (decode_and_check_buffer rest protocol_id) (\<lambda>_. Ok rest)) of
                 Panic \<Rightarrow> None | Err _ \<Rightarrow> Some (replay_protection, Inl CryptoError)
               | Ok rest \<Rightarrow> do {
                   let replay_protection = (case replay_protection of None \<Rightarrow> None
                     | Some rp \<Rightarrow> Some (if apply_replay_protection ptype then advance_sequence rp sequence else rp));
                   let buffer = take read_pos buffer @ rest;
                   fin \<leftarrow> checked_sub (length buffer) NETCODE_MAC_BYTES;
                   body \<leftarrow> slice_range buffer read_pos fin;
                   case packet_read ptype body of
                     Panic \<Rightarrow> None | Err e \<Rightarrow> Some (replay_protection, Inl (IoError e))
                   | Ok p \<Rightarrow> Some (replay_protection, Inr (sequence, p))
                 }
             }))"

definition packet_type_from_buffer :: "bytes \<Rightarrow> NetcodeError + PacketType" where
  "packet_type_from_buffer buffer =
     (if length buffer < 2 + NETCODE_MAC_BYTES then Inl PacketTooSmall
      else packet_type_from_u8 (fst (decode_prefix (buffer ! 0))))"
subsection \<open>Sequence numbers and prefix\<close>

lemma and_byte_mask:
  "and (a::nat) (push_bit n (mask 8)) = 0 \<longleftrightarrow> a div 2 ^ n mod 256 = 0"
proof -
  have "and a (push_bit n (mask 8)) = push_bit n (take_bit 8 (drop_bit n a))"
    by (auto simp: bit_eq_iff bit_simps)
  also have "\<dots> = (a div 2 ^ n mod 256) * 2 ^ n"
    by (simp add: push_bit_eq_mult take_bit_eq_mod drop_bit_eq_div)
  finally show ?thesis by simp
qed

lemma and_word_mask:
  assumes "unat m = 255 * 2 ^ n"
  shows "and (s::u64) m = 0 \<longleftrightarrow> unat s div 2 ^ n mod 256 = 0"
proof -
  have "unat m = push_bit n (mask 8 :: nat)"
    using assms by (simp add: push_bit_eq_mult mask_eq_exp_minus_1)
  moreover have "and s m = 0 \<longleftrightarrow> and (unat s) (unat m) = 0"
    by (metis unsigned_and_eq unsigned_0 unsigned_word_eqI)
  ultimately show ?thesis
    using and_byte_mask by simp
qed

lemma sequence_bytes_loop_spec:
  assumes "i \<le> 8" "i \<noteq> 0 \<Longrightarrow> unat m = 255 * 2 ^ (8 * (i - 1))" "unat s < 256 ^ i"
  shows "sequence_bytes_loop i m s \<le> i \<and> unat s < 256 ^ sequence_bytes_loop i m s \<and>
    (sequence_bytes_loop i m s \<noteq> 0 \<longrightarrow> 256 ^ (sequence_bytes_loop i m s - 1) \<le> unat s)"
  using assms
proof (induction i arbitrary: m)
  case (Suc i)
  have m: "unat m = 255 * 2 ^ (8 * i)"
    using Suc.prems(2) by simp
  have pow: "(256::nat) ^ i = 2 ^ (8 * i)"
    by (simp add: power_mult)
  have "unat s div 2 ^ (8 * i) < 256"
    using Suc.prems(3) by (simp add: pow [symmetric] less_mult_imp_div_less)
  then have zero: "and s m = 0 \<longleftrightarrow> unat s < 256 ^ i"
    using and_word_mask [OF m, of s] by (auto simp: pow div_eq_0_iff)
  show ?case
  proof (cases "and s m = 0")
    case True
    have next_mask: "unat (drop_bit 8 m) = 255 * 2 ^ (8 * (i - 1))" if "i \<noteq> 0"
    proof -
      have "(2::nat) ^ (8 * i) = 256 * 2 ^ (8 * (i - 1))"
        using that by (cases i) (simp_all add: power_add)
      then show ?thesis
        using m by (simp add: drop_bit_eq_div unat_div)
    qed
    have "sequence_bytes_loop i (drop_bit 8 m) s \<le> i \<and> unat s < 256 ^ sequence_bytes_loop i (drop_bit 8 m) s \<and>
        (sequence_bytes_loop i (drop_bit 8 m) s \<noteq> 0 \<longrightarrow> 256 ^ (sequence_bytes_loop i (drop_bit 8 m) s - 1) \<le> unat s)"
      using Suc.prems(1) next_mask True zero by (intro Suc.IH) auto
    then show ?thesis
      using True by simp
  next
    case False
    then show ?thesis
      using Suc.prems(3) zero by simp
  qed
qed simp

text \<open>The number of bytes is the least one that holds the number.\<close>

lemma sequence_bytes_required:
  "sequence_bytes_required s \<le> 8" "unat s < 256 ^ sequence_bytes_required s"
  "sequence_bytes_required s \<noteq> 0 \<Longrightarrow> 256 ^ (sequence_bytes_required s - 1) \<le> unat s"
proof -
  have "unat s < 256 ^ 8"
    using unsigned_less [of s, where ?'a = nat] by simp
  then show "sequence_bytes_required s \<le> 8" "unat s < 256 ^ sequence_bytes_required s"
    "sequence_bytes_required s \<noteq> 0 \<Longrightarrow> 256 ^ (sequence_bytes_required s - 1) \<le> unat s"
    using sequence_bytes_loop_spec [of 8 "0xFF00000000000000" s] by (simp_all add: sequence_bytes_required_def)
qed

lemma take_le_bytes: "n \<le> m \<Longrightarrow> take n (le_bytes m v) = le_bytes n v"
proof (induction n arbitrary: m v)
  case (Suc n)
  then show ?case by (cases m) simp_all
qed simp

lemma of_le_zeros: "of_le (bs @ replicate k 0) = of_le bs"
proof -
  have "of_le (replicate k 0) = 0"
    by (induction k) simp_all
  then show ?thesis
    by (induction bs) simp_all
qed

lemma read_write_sequence:
  "read_sequence (sequence_bytes_required s) (take (sequence_bytes_required s) (u64_le_bytes s) @ r) = Ok (s, r)"
  using sequence_bytes_required(1,2) [of s]
  by (simp add: read_sequence_def u64_le_bytes_def take_le_bytes of_le_zeros of_le_le_bytes)

lemma decode_encode_prefix:
  "decode_prefix (encode_prefix (type_code t) s) = (type_code t, sequence_bytes_required s)"
proof -
  have "sequence_bytes_required s \<in> set [0, 1, 2, 3, 4, 5, 6, 7, 8]"
    using sequence_bytes_required(1) [of s] by (simp; presburger)
  then show ?thesis
    by (cases t) (auto simp: decode_prefix_def encode_prefix_def)
qed

lemma packet_type_code [simp]: "packet_type_from_u8 (type_code t) = Inr t"
  by (cases t) (simp_all add: packet_type_from_u8_def)

subsection \<open>Bodies and the challenge token\<close>

text \<open>The arrays of a packet have the lengths of their types.\<close>

fun packet_wf :: "NetcodePacket \<Rightarrow> bool" where
  "packet_wf (ConnectionRequest version_info protocol_id expire_timestamp xnonce data) =
     (length version_info = 13 \<and> length xnonce = 24 \<and> length data = 1024)"
| "packet_wf (Challenge token_sequence token_data) = (length token_data = 300)"
| "packet_wf (Response token_sequence token_data) = (length token_data = 300)"
| "packet_wf _ = True"

lemma packet_read_parts: "packet_wf p \<Longrightarrow> packet_read (packet_type p) (concat (packet_parts p)) = Ok p"
proof (cases p)
  case (ConnectionRequest version_info protocol_id expire_timestamp xnonce data)
  then show "packet_wf p \<Longrightarrow> ?thesis"
    using read_bytes_append [of data 1024 "[]"] by (simp add: netcode_sizes)
next
  case (Challenge token_sequence token_data)
  then show "packet_wf p \<Longrightarrow> ?thesis"
    using read_bytes_append [of token_data 300 "[]"] by (simp add: netcode_sizes)
next
  case (Response token_sequence token_data)
  then show "packet_wf p \<Longrightarrow> ?thesis"
    using read_bytes_append [of token_data 300 "[]"] by (simp add: netcode_sizes)
next
  case (KeepAlive client_index max_clients)
  then show ?thesis
    using read_le_append(2) [of max_clients "[]"] by simp
qed simp_all

lemma packet_read_wf: "packet_read t src = Ok p \<Longrightarrow> packet_wf p \<and> packet_type p = t"
  by (cases t) (auto simp: netcode_sizes read_bytes_def split: if_splits)

lemma packet_read_not_Panic [simp]: "packet_read t src \<noteq> Panic"
  by (cases t) (auto simp: and_then_eq_Panic)

context aead_laws
begin

lemma challenge_roundtrip:
  assumes "length user_data = 256"
  obtains data where "generate_challenge lib client user_data n key = Ok (Challenge n data)" "length data = 300"
    "challenge_token_decode lib data n key = Ok \<lparr>ch_client_id = client, ch_user_data = user_data\<rparr>"
proof -
  let ?body = "u64_le_bytes client @ user_data @ replicate 20 0" and ?room = "replicate 16 0 :: bytes"
  have w: "challenge_token_write (challenge_token_new client user_data) (cursor_new (replicate NETCODE_CHALLENGE_TOKEN_BYTES 0)) =
      (\<lparr>cur_buf = ?body @ ?room, cur_pos = 264\<rparr>, Inr ())"
    using assms unfolding challenge_token_write_def
    by (subst write_parts_new) (simp_all add: challenge_token_new_def netcode_sizes replicate_add [symmetric])
  have fits: "length ?room = NETCODE_MAC_BYTES" "length ?body \<le> NETCODE_MAX_PACKET_BYTES"
    using assms by (simp_all add: netcode_sizes)
  obtain ct tag where enc: "encrypt_in_place lib (?body @ ?room) n key [] = Ok (ct @ tag)" "length ct = length ?body"
    "length tag = NETCODE_MAC_BYTES" "dencrypted_in_place lib (ct @ tag) n key [] = Ok (?body @ tag)"
    by (rule encrypt_roundtrip [OF fits])
  show thesis
  proof (rule that)
    show "generate_challenge lib client user_data n key = Ok (Challenge n (ct @ tag))"
      using w enc(1) by (simp add: generate_challenge_def Let_def)
    show "length (ct @ tag) = 300"
      using enc(2,3) assms by (simp add: netcode_sizes)
    show "challenge_token_decode lib (ct @ tag) n key = Ok \<lparr>ch_client_id = client, ch_user_data = user_data\<rparr>"
      unfolding challenge_token_decode_def enc(4) using assms by (simp add: challenge_token_read_def netcode_sizes)
  qed
qed

end
subsection \<open>Encoded packets\<close>

lemma cursor_write_at:
  "length bs \<le> length rest \<Longrightarrow> cursor_write bs \<lparr>cur_buf = pre @ rest, cur_pos = length pre\<rparr> =
     (\<lparr>cur_buf = pre @ bs @ drop (length bs) rest, cur_pos = length pre + length bs\<rparr>, length bs)"
  by (simp add: cursor_write_def Let_def)

lemma write_parts_at:
  "length (concat parts) \<le> length rest \<Longrightarrow> write_parts parts \<lparr>cur_buf = pre @ rest, cur_pos = length pre\<rparr> =
     (\<lparr>cur_buf = pre @ concat parts @ drop (length (concat parts)) rest, cur_pos = length pre + length (concat parts)\<rparr>, Inr ())"
  by (subst write_parts_fits) (simp_all add: write_all_fits)

text \<open>How a receiver opens the part after the sequence number.\<close>

definition open_body :: "aead_lib \<Rightarrow> bytes \<Rightarrow> u64 \<Rightarrow> bytes \<Rightarrow> bytes \<Rightarrow> u64 \<Rightarrow> bool \<Rightarrow> (unit, bytes) outcome" where
  "open_body lib rest s key aad protocol_id encrypted =
     (if encrypted then dencrypted_in_place lib rest s key aad
      else and_then (decode_and_check_buffer rest protocol_id) (\<lambda>_. Ok rest))"

definition close_body :: "aead_lib \<Rightarrow> bytes \<Rightarrow> u64 \<Rightarrow> bytes \<Rightarrow> bytes \<Rightarrow> u64 \<Rightarrow> bool \<Rightarrow> (unit, bytes) outcome" where
  "close_body lib rest s key aad protocol_id encrypted =
     (if encrypted then encrypt_in_place lib rest s key aad else encode_in_place rest protocol_id)"

definition header :: "NetcodePacket \<Rightarrow> u64 \<Rightarrow> bytes" where
  "header p s = encode_prefix (packet_id p) s # take (sequence_bytes_required s) (u64_le_bytes s)"

definition encoded_length :: "NetcodePacket \<Rightarrow> u64 \<Rightarrow> nat" where
  "encoded_length p s = length (header p s) + length (concat (packet_parts p)) + NETCODE_MAC_BYTES"

lemma length_header: "length (header p s) = 1 + sequence_bytes_required s" "1 \<le> length (header p s)" "length (header p s) \<le> 9"
  using sequence_bytes_required(1) [of s] by (simp_all add: header_def)

lemma packet_encode_written:
  assumes type: "packet_type p \<noteq> TConnectionRequest" and room: "encoded_length p s \<le> length buffer"
  shows "packet_encode lib p buffer protocol_id (Some (s, key)) encrypted =
    (let body = concat (packet_parts p); h = header p s; rest = take (length body + 16) (body @ drop (length h + length body) buffer);
         tail = drop (encoded_length p s) buffer
     in case close_body lib rest s key (packet_additional_data (encode_prefix (packet_id p) s) protocol_id) protocol_id encrypted of
       Ok rest' \<Rightarrow> if length rest' = length rest then Some (h @ rest' @ tail, Inr (encoded_length p s)) else None
     | Err _ \<Rightarrow> Some (h @ rest @ tail, Inl CryptoError) | Panic \<Rightarrow> None)"
proof -
  let ?prefix = "encode_prefix (packet_id p) s" and ?sb = "take (sequence_bytes_required s) (u64_le_bytes s)"
  let ?body = "concat (packet_parts p)"
  let ?n = "length (header p s)"
  have n: "?n = Suc (sequence_bytes_required s)" "length ?sb = sequence_bytes_required s"
    using length_header(1) [of p s] sequence_bytes_required(1) [of s] by simp_all
  have room: "?n + length ?body + 16 \<le> length buffer"
    using room by (simp add: encoded_length_def netcode_sizes)
  have w1: "write_all [?prefix] (cursor_new buffer) = (\<lparr>cur_buf = [?prefix] @ drop 1 buffer, cur_pos = length [?prefix]\<rparr>, Inr ())"
    using room n(1) by (subst write_all_fits) (simp_all add: cursor_new_def)
  have w2: "write_sequence s \<lparr>cur_buf = [?prefix] @ drop 1 buffer, cur_pos = length [?prefix]\<rparr> =
      (\<lparr>cur_buf = header p s @ drop ?n buffer, cur_pos = ?n\<rparr>, length ?sb)"
    unfolding write_sequence_def Let_def using room n
    by (subst cursor_write_at) (simp_all add: header_def)
  have w3: "packet_write p \<lparr>cur_buf = header p s @ drop ?n buffer, cur_pos = ?n\<rparr> =
      (\<lparr>cur_buf = header p s @ ?body @ drop (?n + length ?body) buffer, cur_pos = ?n + length ?body\<rparr>, Inr ())"
    unfolding packet_write_def using room by (subst write_parts_at) (simp_all add: add.commute)
  have slice: "slice_range (header p s @ ?body @ drop (?n + length ?body) buffer) ?n (?n + length ?body + 16) =
      Some (take (length ?body + 16) (?body @ drop (?n + length ?body) buffer))"
    using room by (subst slice_range_Some) simp_all
  have copy: "copy_range (header p s @ ?body @ drop (?n + length ?body) buffer) ?n (?n + length ?body + 16) r =
      (if length r = length ?body + 16 then Some (header p s @ r @ drop (?n + length ?body + 16) buffer) else None)" for r
    using room by (auto simp: copy_range_def add.commute)
  define R where "R = take (length ?body + 16) (?body @ drop (?n + length ?body) buffer)"
  define T where "T = drop (?n + length ?body + 16) buffer"
  define B where "B = header p s @ ?body @ drop (?n + length ?body) buffer"
  have split: "B = header p s @ R @ T"
  proof -
    have "R = ?body @ take 16 (drop (?n + length ?body) buffer)" "T = drop 16 (drop (?n + length ?body) buffer)"
      by (simp_all add: R_def T_def add.commute)
    then show ?thesis
      by (simp only: B_def append_assoc append_take_drop_id)
  qed
  have len: "length R = length ?body + 16" "\<not> length B < ?n + length ?body + NETCODE_MAC_BYTES"
    using room by (simp_all add: R_def B_def netcode_sizes)
  have "packet_encode lib p buffer protocol_id (Some (s, key)) encrypted =
      in_place B ?n (?n + length ?body + NETCODE_MAC_BYTES) (\<lambda>part. close_body lib part s key (packet_additional_data ?prefix protocol_id) protocol_id encrypted)
      \<bind> (\<lambda>(buffer, r). case r of Inl _ \<Rightarrow> Some (buffer, Inl CryptoError) | Inr _ \<Rightarrow> Some (buffer, Inr (?n + length ?body + NETCODE_MAC_BYTES)))"
    using type len(2) unfolding packet_encode_def Let_def w1 close_body_def option.case prod.case sum.case w2 w3 cursor.select_convs B_def [symmetric]
    by (simp only: if_False simp_thms)
  moreover have "in_place B ?n (?n + length ?body + NETCODE_MAC_BYTES) f =
      (case f R of Ok r \<Rightarrow> if length r = length R then Some (header p s @ r @ T, Inr ()) else None
       | Err _ \<Rightarrow> Some (header p s @ R @ T, Inl ()) | Panic \<Rightarrow> None)" for f
    using slice copy len(1) unfolding in_place_def NETCODE_MAC_BYTES_def B_def [symmetric] R_def [symmetric] T_def [symmetric]
    by (cases "f R") (simp_all add: split)
  ultimately show ?thesis
    unfolding Let_def encoded_length_def NETCODE_MAC_BYTES_def R_def [symmetric] T_def [symmetric]
    by (cases "close_body lib R s key (packet_additional_data ?prefix protocol_id) protocol_id encrypted") simp_all
qed
subsection \<open>Decoding\<close>

definition check_replay :: "ReplayProtection option \<Rightarrow> PacketType \<Rightarrow> u64 \<Rightarrow> bool option" where
  "check_replay rp t s = (case rp of None \<Rightarrow> Some False
     | Some rp \<Rightarrow> if apply_replay_protection t then already_received rp s else Some False)"

definition advance_replay :: "ReplayProtection option \<Rightarrow> PacketType \<Rightarrow> u64 \<Rightarrow> ReplayProtection option" where
  "advance_replay rp t s = (case rp of None \<Rightarrow> None
     | Some rp \<Rightarrow> Some (if apply_replay_protection t then advance_sequence rp s else rp))"

text \<open>What follows when the type, the number and the sealed rest of a packet are known.\<close>

definition finish_decode ::
  "aead_lib \<Rightarrow> u8 \<Rightarrow> PacketType \<Rightarrow> u64 \<Rightarrow> bytes \<Rightarrow> u64 \<Rightarrow> bytes \<Rightarrow> ReplayProtection option \<Rightarrow> bool
     \<Rightarrow> (ReplayProtection option \<times> (NetcodeError + u64 \<times> NetcodePacket)) option" where
  "finish_decode lib b t s rest protocol_id key rp encrypted =
     (case check_replay rp t s of None \<Rightarrow> None | Some True \<Rightarrow> Some (rp, Inl DuplicatedSequence)
      | Some False \<Rightarrow> (case open_body lib rest s key (packet_additional_data b protocol_id) protocol_id encrypted of
          Panic \<Rightarrow> None | Err _ \<Rightarrow> Some (rp, Inl CryptoError)
        | Ok rest' \<Rightarrow> if length rest' < 16 then None
            else (case packet_read t (take (length rest' - 16) rest') of Panic \<Rightarrow> None
              | Err e \<Rightarrow> Some (advance_replay rp t s, Inl (IoError e))
              | Ok p \<Rightarrow> Some (advance_replay rp t s, Inr (s, p)))))"

lemma packet_decode_cut:
  assumes prefix: "decode_prefix b = (code, length sb)" "packet_type_from_u8 code = Inr t" "t \<noteq> TConnectionRequest"
    and sb: "length sb \<le> 8" and long: "18 \<le> length (b # sb @ rest)"
    and s: "s = word_of_nat (of_le (sb @ replicate (8 - length sb) 0))"
  shows "packet_decode lib (b # sb @ rest) protocol_id (Some key) rp encrypted = finish_decode lib b t s rest protocol_id key rp encrypted"
proof -
  have "read_sequence (length sb) (drop 1 (b # sb @ rest)) = Ok (s, rest)"
    using sb s by (simp add: read_sequence_def)
  moreover have "length (b # sb @ rest) - length rest = Suc (length sb)" "take (Suc (length sb)) (b # sb @ rest) = b # sb"
    by simp_all
  moreover have "\<not> length (b # sb @ rest) < 2 + NETCODE_MAC_BYTES"
    using long by (simp add: netcode_sizes)
  moreover have "(checked_sub (length ((b # sb) @ rest')) NETCODE_MAC_BYTES \<bind> (\<lambda>fin. slice_range ((b # sb) @ rest') (Suc (length sb)) fin \<bind> f)) =
      (if length rest' < 16 then None else f (take (length rest' - 16) rest'))"
    for rest' :: bytes and f :: "bytes \<Rightarrow> (ReplayProtection option \<times> (NetcodeError + u64 \<times> NetcodePacket)) option"
    by (auto simp: checked_sub_def slice_range_def netcode_sizes Suc_diff_le)
  ultimately show ?thesis
    using prefix
    unfolding packet_decode_def Let_def check_replay_def [symmetric] open_body_def [symmetric] advance_replay_def [symmetric] finish_decode_def
    by (cases "check_replay rp t s"; cases "open_body lib rest s key (packet_additional_data b protocol_id) protocol_id encrypted")
      simp_all
qed

lemma read_sequence_header: "s = word_of_nat (of_le (take (sequence_bytes_required s) (u64_le_bytes s) @
    replicate (8 - length (take (sequence_bytes_required s) (u64_le_bytes s))) 0))"
  using read_write_sequence [of s "[]"] sequence_bytes_required(1) [of s]
  by (simp add: read_sequence_def read_bytes_def split: if_splits)

lemma packet_decode_header:
  assumes "packet_type p \<noteq> TConnectionRequest" "18 \<le> length (header p s @ rest)"
  shows "packet_decode lib (header p s @ rest) protocol_id (Some key) rp encrypted =
    finish_decode lib (encode_prefix (packet_id p) s) (packet_type p) s rest protocol_id key rp encrypted"
proof -
  let ?sb = "take (sequence_bytes_required s) (u64_le_bytes s)"
  have n: "length ?sb = sequence_bytes_required s"
    using sequence_bytes_required(1) [of s] by simp
  have "decode_prefix (encode_prefix (packet_id p) s) = (type_code (packet_type p), length ?sb)"
    unfolding packet_id_def decode_encode_prefix n ..
  then show ?thesis
    unfolding header_def append_Cons using assms sequence_bytes_required(1) [of s]
    by (intro packet_decode_cut [OF _ packet_type_code _ _ _ read_sequence_header]) (simp_all add: header_def n)
qed

context aead_laws
begin

lemma close_open_body:
  assumes "length room = 16" "length body \<le> NETCODE_MAX_PACKET_BYTES"
  obtains r tag where "close_body lib (body @ room) s key aad protocol_id encrypted = Ok r" "length r = length body + 16"
    "open_body lib r s key aad protocol_id encrypted = Ok (body @ tag)" "length tag = 16"
proof (cases encrypted)
  case True
  have room: "length room = NETCODE_MAC_BYTES"
    using assms(1) by (simp add: netcode_sizes)
  obtain ct tag where "encrypt_in_place lib (body @ room) s key aad = Ok (ct @ tag)" "length ct = length body"
    "length tag = NETCODE_MAC_BYTES" "dencrypted_in_place lib (ct @ tag) s key aad = Ok (body @ tag)"
    by (rule encrypt_roundtrip [OF room assms(2)])
  then show thesis
    using True that [of "ct @ tag" tag] by (simp add: close_body_def open_body_def netcode_sizes)
next
  case False
  have room: "length room = NETCODE_MAC_BYTES"
    using assms(1) by (simp add: netcode_sizes)
  obtain tag where "encode_in_place (body @ room) protocol_id = (Ok (body @ take 8 room @ tag) :: (unit, bytes) outcome)" "tag = u64_le_bytes protocol_id"
    "decode_and_check_buffer (body @ take 8 room @ tag) protocol_id = Ok ()"
    using encode_then_check [OF room, of body protocol_id] by auto
  then show thesis
    using False assms(1) that [of "body @ take 8 room @ tag" "take 8 room @ tag"]
    by (simp add: close_body_def open_body_def)
qed

text \<open>Encoding into a buffer that is large enough.\<close>

lemma packet_encode_ok:
  assumes type: "packet_type p \<noteq> TConnectionRequest" and room: "encoded_length p s \<le> length buffer"
    and small: "length buffer \<le> NETCODE_MAX_PACKET_BYTES"
  obtains r tag where
    "packet_encode lib p buffer protocol_id (Some (s, key)) encrypted = Some (header p s @ r @ drop (encoded_length p s) buffer, Inr (encoded_length p s))"
    "length (header p s @ r) = encoded_length p s" "length tag = 16"
    "open_body lib r s key (packet_additional_data (encode_prefix (packet_id p) s) protocol_id) protocol_id encrypted =
       Ok (concat (packet_parts p) @ tag)"
proof -
  let ?body = "concat (packet_parts p)" and ?aad = "packet_additional_data (encode_prefix (packet_id p) s) protocol_id"
  let ?room = "take 16 (drop (length (header p s) + length ?body) buffer)"
  have len: "length ?room = 16" "length ?body \<le> NETCODE_MAX_PACKET_BYTES"
    using room small by (simp_all add: encoded_length_def netcode_sizes)
  obtain r tag where r: "close_body lib (?body @ ?room) s key ?aad protocol_id encrypted = Ok r" "length r = length ?body + 16"
    "open_body lib r s key ?aad protocol_id encrypted = Ok (?body @ tag)" "length tag = 16"
    by (rule close_open_body [OF len])
  have "take (length ?body + 16) (?body @ drop (length (header p s) + length ?body) buffer) = ?body @ ?room"
    by simp
  moreover have "length (?body @ ?room) = length ?body + 16"
    using len(1) by simp
  ultimately show thesis
    using that [of r tag] packet_encode_written [OF type room, of lib protocol_id key encrypted] r
    by (simp add: Let_def encoded_length_def netcode_sizes)
qed

end

text \<open>The bytes of an encoded packet; the replay protection of the receiver is arbitrary.\<close>

lemma encode_then_decode:
  assumes lib: "aead_laws lib" and p: "packet_wf p" "packet_type p \<noteq> TConnectionRequest"
    and room: "length (concat (packet_parts p)) + 25 \<le> length buffer" "length buffer \<le> NETCODE_MAX_PACKET_BYTES"
  obtains out n where "packet_encode lib p buffer protocol_id (Some (s, key)) encrypted = Some (out, Inr n)"
    "length out = length buffer" "n \<le> length buffer" "n = 17 + sequence_bytes_required s + length (concat (packet_parts p))"
    "\<And>rp. check_replay rp (packet_type p) s = Some False \<Longrightarrow> packet_decode lib (take n out) protocol_id (Some key) rp encrypted =
      (if s = 0 \<and> concat (packet_parts p) = [] then Some (rp, Inl PacketTooSmall)
       else Some (advance_replay rp (packet_type p) s, Inr (s, p)))"
proof -
  let ?body = "concat (packet_parts p)"
  have fits: "encoded_length p s \<le> length buffer"
    using room(1) length_header(3) [of p s] by (simp add: encoded_length_def netcode_sizes)
  obtain r tag where r: "packet_encode lib p buffer protocol_id (Some (s, key)) encrypted =
      Some (header p s @ r @ drop (encoded_length p s) buffer, Inr (encoded_length p s))"
    "length (header p s @ r) = encoded_length p s" "length tag = 16"
    "open_body lib r s key (packet_additional_data (encode_prefix (packet_id p) s) protocol_id) protocol_id encrypted = Ok (?body @ tag)"
    by (rule aead_laws.packet_encode_ok [OF lib p(2) fits room(2)])
  have bytes: "take (encoded_length p s) (header p s @ r @ drop (encoded_length p s) buffer) = header p s @ r"
    using r(2) by (metis append_assoc append_eq_conv_conj)
  have zero: "sequence_bytes_required s = 0 \<longleftrightarrow> s = 0"
    using sequence_bytes_required(2,3) [of s] by (cases "sequence_bytes_required s = 0") (auto simp: unat_eq_zero)
  have len: "length (header p s @ r) = 17 + sequence_bytes_required s + length ?body"
    using r(2) length_header(1) [of p s] by (simp add: encoded_length_def netcode_sizes)
  have decode: "packet_decode lib (header p s @ r) protocol_id (Some key) rp encrypted =
      (if s = 0 \<and> ?body = [] then Some (rp, Inl PacketTooSmall) else Some (advance_replay rp (packet_type p) s, Inr (s, p)))"
    if fresh: "check_replay rp (packet_type p) s = Some False" for rp
  proof (cases "s = 0 \<and> ?body = []")
    case True
    then show ?thesis
      using len zero by (simp add: packet_decode_def netcode_sizes)
  next
    case False
    then have "18 \<le> length (header p s @ r)"
      using len zero by (cases "?body = []") (auto simp: Suc_le_eq)
    then show ?thesis
      using False packet_decode_header [OF p(2), where s = s and rest = r and lib = lib and protocol_id = protocol_id and key = key and rp = rp and encrypted = encrypted]
        fresh r(3,4) packet_read_parts [OF p(1)] by (auto simp: finish_decode_def)
  qed
  have room': "length (header p s @ r @ drop (encoded_length p s) buffer) = length buffer"
    using r(2) fits by (simp add: encoded_length_def netcode_sizes)
  show thesis
  proof (rule that [OF r(1) room' fits])
    show "encoded_length p s = 17 + sequence_bytes_required s + length ?body"
      using r(2) len by simp
    show "packet_decode lib (take (encoded_length p s) (header p s @ r @ drop (encoded_length p s) buffer)) protocol_id (Some key) rp encrypted =
        (if s = 0 \<and> ?body = [] then Some (rp, Inl PacketTooSmall) else Some (advance_replay rp (packet_type p) s, Inr (s, p)))"
      if "check_replay rp (packet_type p) s = Some False" for rp
      unfolding bytes by (rule decode [OF that])
  qed
qed
text \<open>
  C8: Encoding a packet of a connection and decoding the bytes gives back its sequence number and the packet,
  encrypted or not, when the replay protection has not seen the number; the encoding needs at most nine bytes of
  header and 16 of tag. The one exception is a packet without a body under the number 0, whose sequence takes no
  byte: its 17 bytes are rejected as too small.
\<close>

theorem netcode_packet_roundtrip:
  assumes lib: "aead_laws lib" and p: "packet_wf p" "packet_type p \<noteq> TConnectionRequest"
    and room: "length (concat (packet_parts p)) + 25 \<le> length buffer" "length buffer \<le> NETCODE_MAX_PACKET_BYTES"
    and fresh: "check_replay rp (packet_type p) s = Some False"
  shows "\<exists>out n. packet_encode lib p buffer protocol_id (Some (s, key)) encrypted = Some (out, Inr n) \<and>
    packet_decode lib (take n out) protocol_id (Some key) rp encrypted =
      (if s = 0 \<and> concat (packet_parts p) = [] then Some (rp, Inl PacketTooSmall)
       else Some (advance_replay rp (packet_type p) s, Inr (s, p)))"
  by (rule encode_then_decode [OF lib p room]) (use fresh in blast)

theorem netcode_packet_roundtrip_witness:
  "\<exists>out n. packet_encode rfc_aead (Payload [1, 2, 3]) (replicate 100 0) 42 (Some (7, replicate 32 5)) True = Some (out, Inr n) \<and>
    packet_decode rfc_aead (take n out) 42 (Some (replicate 32 5)) (Some replay_new) True =
      Some (Some (advance_sequence replay_new 7), Inr (7, Payload [1, 2, 3]))"
proof -
  have "already_received replay_new 7 = Some False"
    using already_received_iff [OF replay_inv_new, of 7] by (simp add: too_late_def)
  then have fresh: "check_replay (Some replay_new) (packet_type (Payload [1, 2, 3])) 7 = Some False"
    by (simp add: check_replay_def)
  show ?thesis
    using netcode_packet_roundtrip [OF rfc.aead_laws_axioms _ _ _ _ fresh, of "replicate 100 0" 42 "replicate 32 5" True]
    by (simp add: netcode_sizes advance_replay_def)
qed

subsection \<open>Arbitrary bytes\<close>

definition packet_code :: "bytes \<Rightarrow> NetcodeError + PacketType" where
  "packet_code buffer = packet_type_from_u8 (fst (decode_prefix (buffer ! 0)))"

definition sequence_len :: "bytes \<Rightarrow> nat" where
  "sequence_len buffer = snd (decode_prefix (buffer ! 0))"

definition packet_number :: "bytes \<Rightarrow> u64" where
  "packet_number buffer = word_of_nat (of_le (take (sequence_len buffer) (tl buffer) @ replicate (8 - sequence_len buffer) 0))"

definition sealed_part :: "bytes \<Rightarrow> bytes" where
  "sealed_part buffer = drop (1 + sequence_len buffer) buffer"

lemma packet_decode_shape:
  "packet_decode lib buffer protocol_id (Some key) rp encrypted =
    (if length buffer < 18 then Some (rp, Inl PacketTooSmall) else case packet_code buffer of Inl e \<Rightarrow> Some (rp, Inl e)
     | Inr t \<Rightarrow> if t = TConnectionRequest then
          (case packet_read TConnectionRequest (drop 1 buffer) of Ok p \<Rightarrow> Some (rp, Inr (0, p)) | Err e \<Rightarrow> Some (rp, Inl (IoError e)) | Panic \<Rightarrow> None)
        else if 8 < sequence_len buffer then None
        else finish_decode lib (buffer ! 0) t (packet_number buffer) (sealed_part buffer) protocol_id key rp encrypted)"
proof (cases "length buffer < 18")
  case False
  then obtain b tl where buffer: "buffer = b # tl"
    by (cases buffer) auto
  obtain code n where prefix: "decode_prefix b = (code, n)"
    by (cases "decode_prefix b")
  show ?thesis
  proof (cases "packet_type_from_u8 code")
    case (Inr t)
    show ?thesis
    proof (cases "t = TConnectionRequest \<or> 8 < n")
      case True
      then show ?thesis
        using buffer prefix Inr False by (auto simp: packet_decode_def packet_code_def sequence_len_def read_sequence_def netcode_sizes)
    next
      case other: False
      then have cut: "buffer = b # take n tl @ drop n tl" "length (take n tl) = n"
        using False buffer by simp_all
      have number: "packet_number buffer = word_of_nat (of_le (take n tl @ replicate (8 - length (take n tl)) 0))"
        using buffer prefix cut(2) by (simp add: packet_number_def sequence_len_def)
      have prefix': "decode_prefix b = (code, length (take n tl))"
        using prefix cut(2) by simp
      have "packet_decode lib (b # take n tl @ drop n tl) protocol_id (Some key) rp encrypted =
          finish_decode lib b t (packet_number buffer) (drop n tl) protocol_id key rp encrypted"
        using False other cut(2) buffer by (intro packet_decode_cut [OF prefix' Inr _ _ _ number]) simp_all
      then show ?thesis
        using False buffer other prefix Inr cut(1) by (simp add: packet_code_def sequence_len_def sealed_part_def)
    qed
  qed (use False buffer prefix in \<open>simp add: packet_decode_def packet_code_def netcode_sizes\<close>)
qed (simp add: packet_decode_def netcode_sizes)

lemma finish_decode_None:
  assumes "aead_laws lib"
  shows "finish_decode lib b t s rest protocol_id key rp True = None \<longleftrightarrow>
    check_replay rp t s = None \<or> check_replay rp t s = Some False \<and> length rest < 16"
proof -
  have open_panic: "open_body lib rest s key aad protocol_id True = Panic \<longleftrightarrow> length rest < 16" for aad
    by (simp add: open_body_def dencrypted_Panic netcode_sizes)
  show ?thesis
  proof (cases "open_body lib rest s key (packet_additional_data b protocol_id) protocol_id True")
    case (Ok r)
    then have "length r = length rest" "\<not> length rest < 16"
      using aead_laws.dencrypted_length [OF assms] open_panic [of "packet_additional_data b protocol_id"] by (auto simp: open_body_def)
    then show ?thesis
      using Ok by (auto simp: finish_decode_def split: option.splits bool.splits outcome.splits)
  qed (use open_panic [of "packet_additional_data b protocol_id"] in \<open>auto simp: finish_decode_def split: option.splits bool.splits\<close>)
qed

text \<open>
  C25: Exactly which datagrams make decoding panic in an encrypted connection: one of at least 18 bytes whose
  prefix names a type other than a connection request and either announces more than eight bytes of sequence
  number, or carries a replay-protected number within 256 of \<open>2 ^ 64\<close>, or has fewer than 16 bytes after the
  sequence number when the number is not yet known. None of these conditions depends on the key.
\<close>

theorem netcode_decode_panic_iff:
  assumes "length (received_packet rp) = 256" "aead_laws lib"
  shows "packet_decode lib buffer protocol_id (Some key) (Some rp) True = None \<longleftrightarrow>
    18 \<le> length buffer \<and> (\<exists>t. packet_code buffer = Inr t \<and> t \<noteq> TConnectionRequest \<and>
      (8 < sequence_len buffer \<or> apply_replay_protection t \<and> 2 ^ 64 \<le> unat (packet_number buffer) + 256 \<or>
       check_replay (Some rp) t (packet_number buffer) = Some False \<and> length (sealed_part buffer) < 16))"
proof -
  have over: "check_replay (Some rp) t s = None \<longleftrightarrow> apply_replay_protection t \<and> 2 ^ 64 \<le> unat s + 256" for t s
    using already_received_overflow [OF assms(1), of s] by (auto simp: check_replay_def)
  show ?thesis
  proof (cases "packet_code buffer")
    case (Inr t)
    have "packet_read TConnectionRequest (drop 1 buffer) \<noteq> Panic"
      by (rule packet_read_not_Panic)
    then show ?thesis
      unfolding packet_decode_shape Inr sum.case
      using finish_decode_None [OF assms(2)] over by (auto split: outcome.splits)
  qed (simp add: packet_decode_shape)
qed

theorem netcode_decode_panic_iff_witness:
  "packet_decode rfc_aead (0x95 # replicate 17 0) 42 (Some (replicate 32 5)) (Some replay_new) True = None \<and>
   packet_decode rfc_aead (0x85 # replicate 17 0) 42 (Some (replicate 32 5)) (Some replay_new) True = None"
proof -
  have ring: "length (received_packet replay_new) = 256"
    by (simp add: replay_new_def NETCODE_REPLAY_BUFFER_SIZE_def)
  have fresh: "check_replay (Some replay_new) TPayload 0 = Some False"
    using already_received_iff [OF replay_inv_new, of 0] by (simp add: check_replay_def too_late_def)
  have zeros: "of_le (replicate n 0) = 0" for n
    using of_le_zeros [of "[]" n] by simp
  have number: "packet_number (0x85 # replicate 17 0) = 0"
    by (simp add: packet_number_def sequence_len_def decode_prefix_def of_le_zeros zeros)
  have parts: "packet_code (0x95 # replicate 17 0) = Inr TPayload" "sequence_len (0x95 # replicate 17 0) = 9"
    "packet_code (0x85 # replicate 17 0) = Inr TPayload" "length (sealed_part (0x85 # replicate 17 0)) = 9"
    by (simp_all add: packet_code_def sequence_len_def sealed_part_def decode_prefix_def packet_type_from_u8_def)
  have len: "length (b # replicate 17 (0::u8)) = 18" for b
    by simp
  show ?thesis
    unfolding netcode_decode_panic_iff [OF ring rfc.aead_laws_axioms] len parts number using fresh by auto
qed
subsection \<open>Connection requests\<close>

text \<open>A connection request is not encrypted; it decodes to itself without a key and leaves the replay protection alone.\<close>

lemma connection_request_roundtrip:
  assumes "packet_wf p" "packet_type p = TConnectionRequest" "1078 \<le> length buffer"
  shows "\<exists>out. packet_encode lib p buffer protocol_id crypto encrypted = Some (out, Inr 1078) \<and>
    length (take 1078 out) = 1078 \<and> length out = length buffer \<and>
    packet_decode lib (take 1078 out) protocol_id' key rp encrypted' = Some (rp, Inr (0, p))"
proof -
  let ?body = "concat (packet_parts p)" and ?b = "encode_prefix (packet_id p) 0"
  have len: "length ?body = 1077"
    using assms(1,2) by (cases p) simp_all
  have w1: "write_all [?b] (cursor_new buffer) = (\<lparr>cur_buf = [?b] @ drop 1 buffer, cur_pos = length [?b]\<rparr>, Inr ())"
    using assms(3) by (subst write_all_fits) (simp_all add: cursor_new_def)
  have w2: "packet_write p \<lparr>cur_buf = [?b] @ drop 1 buffer, cur_pos = length [?b]\<rparr> =
      (\<lparr>cur_buf = [?b] @ ?body @ drop 1077 (drop 1 buffer), cur_pos = 1078\<rparr>, Inr ())"
    unfolding packet_write_def using assms(3) len by (subst write_parts_at) simp_all
  let ?out = "[?b] @ ?body @ drop 1077 (drop 1 buffer)"
  have "packet_encode lib p buffer protocol_id crypto encrypted = Some (?out, Inr 1078)"
    unfolding packet_encode_def Let_def w1 prod.case sum.case w2 using assms(2) by simp
  moreover have "take 1078 ?out = ?b # ?body"
    using len by simp
  moreover have "decode_prefix ?b = (type_code TConnectionRequest, sequence_bytes_required 0)"
    using decode_encode_prefix [of "packet_type p" 0] assms(2) by (simp add: packet_id_def)
  then have "packet_decode lib (?b # ?body) protocol_id' key rp encrypted' = Some (rp, Inr (0, p))"
    using packet_read_parts [OF assms(1)] assms(2) len packet_type_code [of TConnectionRequest]
    by (simp add: packet_decode_def netcode_sizes del: type_code.simps packet_read.simps)
  ultimately show ?thesis
    using len assms(3) by (intro exI [of _ ?out]) simp
qed

subsection \<open>Replays\<close>

lemma finish_decode_replay:
  assumes inv: "replay_inv acc rp" and run: "finish_decode lib b t s rest protocol_id key (Some rp) encrypted = Some (rp', r)"
  shows "\<exists>rp2 acc'. rp' = Some rp2 \<and> replay_inv acc' rp2 \<and> set acc \<subseteq> set acc' \<and>
    (case r of Inl _ \<Rightarrow> True | Inr (n, p) \<Rightarrow> packet_type p = t \<and> (apply_replay_protection t \<longrightarrow> n \<notin> set acc \<and> n \<in> set acc'))"
proof (cases "apply_replay_protection t")
  case True
  obtain dup where dup: "already_received rp s = Some dup"
    using run True by (auto simp: finish_decode_def check_replay_def split: option.splits)
  have ring: "length (received_packet rp) = 256"
    using inv by (simp add: replay_inv_def)
  then have s: "unat s + 256 < 2 ^ 64"
    using already_received_overflow [OF ring, of s] dup by auto
  have late: "dup = too_late acc s"
    using already_received_iff [OF inv s] dup by simp
  show ?thesis
  proof (cases dup)
    case True
    then show ?thesis
      using run dup \<open>apply_replay_protection t\<close> inv by (auto simp: finish_decode_def check_replay_def)
  next
    case False
    then have new: "replay_inv (acc @ [s]) (advance_sequence rp s)" "s \<notin> set acc"
      using replay_inv_advance [OF inv _ s] late by (auto simp: too_late_def)
    show ?thesis
    proof (cases "rp' = Some rp")
      case unchanged: True
      show ?thesis
      proof (cases r)
        case (Inl e)
        then show ?thesis using unchanged inv by auto
      next
        case (Inr np)
        then show ?thesis
          using run dup False \<open>apply_replay_protection t\<close> new
          by (auto simp: finish_decode_def check_replay_def advance_replay_def split: outcome.splits if_splits dest!: packet_read_wf
              intro!: exI [of _ "acc @ [s]"])
      qed
    next
      case False
      then show ?thesis
        using run dup \<open>\<not> dup\<close> \<open>apply_replay_protection t\<close> new
        by (auto simp: finish_decode_def check_replay_def advance_replay_def split: outcome.splits if_splits dest!: packet_read_wf
            intro!: exI [of _ "acc @ [s]"])
    qed
  qed
next
  case False
  then show ?thesis
    using run inv by (auto simp: finish_decode_def check_replay_def advance_replay_def split: outcome.splits if_splits dest!: packet_read_wf)
qed

lemma packet_decode_replay:
  assumes inv: "replay_inv acc rp" and run: "packet_decode lib buffer protocol_id (Some key) (Some rp) encrypted = Some (rp', r)"
  shows "\<exists>rp2 acc'. rp' = Some rp2 \<and> replay_inv acc' rp2 \<and> set acc \<subseteq> set acc' \<and>
    (case r of Inl _ \<Rightarrow> True | Inr (n, p) \<Rightarrow> apply_replay_protection (packet_type p) \<longrightarrow> n \<notin> set acc \<and> n \<in> set acc')"
proof (cases "\<exists>t. packet_code buffer = Inr t \<and> t \<noteq> TConnectionRequest \<and> 18 \<le> length buffer")
  case True
  then obtain t where "finish_decode lib (buffer ! 0) t (packet_number buffer) (sealed_part buffer) protocol_id key (Some rp) encrypted = Some (rp', r)"
    using run by (auto simp: packet_decode_shape split: if_splits)
  from finish_decode_replay [OF inv this] show ?thesis
    by (auto split: sum.splits)
next
  case False
  then have "rp' = Some rp" "case r of Inl _ \<Rightarrow> True | Inr (n, p) \<Rightarrow> packet_type p = TConnectionRequest"
    using run by (auto simp: packet_decode_shape split: if_splits sum.splits outcome.splits dest!: packet_read_wf simp del: packet_read.simps)
  then show ?thesis
    using inv by (auto split: sum.splits)
qed

text \<open>The packets that a stream of datagrams gives, in the order of arrival.\<close>

fun decode_stream :: "aead_lib \<Rightarrow> u64 \<Rightarrow> bytes \<Rightarrow> bool \<Rightarrow> bytes list \<Rightarrow> ReplayProtection option \<Rightarrow> (u64 \<times> NetcodePacket) list option" where
  "decode_stream lib protocol_id key encrypted [] rp = Some []"
| "decode_stream lib protocol_id key encrypted (buffer # bs) rp = do {
     (rp, r) \<leftarrow> packet_decode lib buffer protocol_id (Some key) rp encrypted;
     ps \<leftarrow> decode_stream lib protocol_id key encrypted bs rp;
     Some (case r of Inl _ \<Rightarrow> ps | Inr p \<Rightarrow> p # ps)
   }"

definition protected_numbers :: "(u64 \<times> NetcodePacket) list \<Rightarrow> u64 list" where
  "protected_numbers ps = map fst (filter (\<lambda>(n, p). apply_replay_protection (packet_type p)) ps)"

lemma decode_stream_fresh:
  "replay_inv acc rp \<Longrightarrow> decode_stream lib protocol_id key encrypted bs (Some rp) = Some ps \<Longrightarrow>
     distinct (protected_numbers ps) \<and> set (protected_numbers ps) \<inter> set acc = {}"
proof (induction bs arbitrary: acc rp ps)
  case (Cons buffer bs)
  obtain rp' r ps' where run: "packet_decode lib buffer protocol_id (Some key) (Some rp) encrypted = Some (rp', r)"
    "decode_stream lib protocol_id key encrypted bs rp' = Some ps'" "ps = (case r of Inl _ \<Rightarrow> ps' | Inr p \<Rightarrow> p # ps')"
    using Cons.prems(2) by (auto simp: bind_eq_Some_conv)
  obtain rp2 acc' where step: "rp' = Some rp2" "replay_inv acc' rp2" "set acc \<subseteq> set acc'"
    "case r of Inl _ \<Rightarrow> True | Inr (n, p) \<Rightarrow> apply_replay_protection (packet_type p) \<longrightarrow> n \<notin> set acc \<and> n \<in> set acc'"
    using packet_decode_replay [OF Cons.prems(1) run(1)] by blast
  have "distinct (protected_numbers ps') \<and> set (protected_numbers ps') \<inter> set acc' = {}"
    using Cons.IH [OF step(2)] run(2) step(1) by simp
  then show ?case
    using run(3) step(3,4) by (cases r) (auto simp: protected_numbers_def)
qed (simp add: protected_numbers_def)
text \<open>
  C6: However the network repeats or reorders datagrams, and whatever it forges, no keep-alive, payload or
  disconnect packet passes twice: the numbers of the protected packets that a fresh connection accepts from a
  stream of datagrams are distinct.
\<close>

theorem netcode_no_replay:
  assumes "decode_stream lib protocol_id key encrypted bs (Some replay_new) = Some ps"
  shows "distinct (protected_numbers ps)"
  using decode_stream_fresh [OF replay_inv_new assms] by simp

definition demo_datagram :: bytes where
  "demo_datagram = [0x15, 7, 9, 9] @ replicate 8 0 @ [42, 0, 0, 0, 0, 0, 0, 0]"

theorem netcode_no_replay_witness:
  "decode_stream rfc_aead 42 [] False [demo_datagram, demo_datagram] (Some replay_new) = Some [(7, Payload [9, 9])] \<and>
   distinct (protected_numbers [(7, Payload [9, 9])])"
proof -
  have inv: "replay_inv [7] (advance_sequence replay_new 7)"
    using replay_inv_advance [OF replay_inv_new, of 7] by (simp add: too_late_def)
  have fresh: "check_replay (Some replay_new) TPayload 7 = Some False"
    using already_received_iff [OF replay_inv_new, of 7] by (simp add: check_replay_def too_late_def)
  have stale: "check_replay (Some (advance_sequence replay_new 7)) TPayload 7 = Some True"
    using already_received_iff [OF inv, of 7] by (simp add: check_replay_def too_late_def)
  have parts: "length demo_datagram = 20" "packet_code demo_datagram = Inr TPayload" "sequence_len demo_datagram = 1"
    "packet_number demo_datagram = 7" "sealed_part demo_datagram = [9, 9] @ replicate 8 0 @ [42, 0, 0, 0, 0, 0, 0, 0]"
    by (simp_all add: demo_datagram_def packet_code_def sequence_len_def sealed_part_def decode_prefix_def packet_type_from_u8_def
        packet_number_def of_le_zeros [of "[]", simplified])
  have tag: "split_tag 8 (sealed_part demo_datagram) = (Ok ([9, 9] @ replicate 8 0, [42, 0, 0, 0, 0, 0, 0, 0]) :: (unit, bytes \<times> bytes) outcome)"
    using split_tag_append [of "[42, 0, 0, 0, 0, 0, 0, 0]" 8 "[9, 9] @ replicate 8 0"] by (simp add: parts(5))
  have opened: "open_body rfc_aead (sealed_part demo_datagram) 7 [] aad 42 False = Ok (sealed_part demo_datagram)" for aad
    by (simp add: open_body_def decode_and_check_buffer_def tag netcode_sizes)
  have first: "packet_decode rfc_aead demo_datagram 42 (Some []) (Some replay_new) False =
      Some (Some (advance_sequence replay_new 7), Inr (7, Payload [9, 9]))"
    unfolding packet_decode_shape finish_decode_def parts(1,2,3,4) opened using fresh
    by (simp add: parts(5) advance_replay_def)
  have second: "packet_decode rfc_aead demo_datagram 42 (Some []) (Some (advance_sequence replay_new 7)) False =
      Some (Some (advance_sequence replay_new 7), Inl DuplicatedSequence)"
    unfolding packet_decode_shape finish_decode_def parts(1,2,3,4) using stale by simp
  have "decode_stream rfc_aead 42 [] False [demo_datagram, demo_datagram] (Some replay_new) = Some [(7, Payload [9, 9])]"
    using first second by simp
  then show ?thesis
    using netcode_no_replay by blast
qed
text \<open>Encoding succeeds when the buffer has room for the largest header and the tag.\<close>

lemma packet_encode_total:
  assumes lib: "aead_laws lib" and p: "packet_wf p" and room: "length (concat (packet_parts p)) + 25 \<le> length buffer"
    and size: "1078 \<le> length buffer" "length buffer \<le> NETCODE_MAX_PACKET_BYTES"
  obtains out n where "packet_encode lib p buffer protocol_id (Some (s, key)) encrypted = Some (out, Inr n)"
    "length out = length buffer" "n \<le> length buffer"
proof (cases "packet_type p = TConnectionRequest")
  case True
  then show thesis
    using connection_request_roundtrip [OF p True size(1), of lib protocol_id "Some (s, key)" encrypted 0 None None True] that size(1) by auto
next
  case False
  have fits: "encoded_length p s \<le> length buffer"
    using room length_header(3) [of p s] by (simp add: encoded_length_def netcode_sizes)
  obtain r tag where "packet_encode lib p buffer protocol_id (Some (s, key)) encrypted =
      Some (header p s @ r @ drop (encoded_length p s) buffer, Inr (encoded_length p s))" "length (header p s @ r) = encoded_length p s"
    by (rule aead_laws.packet_encode_ok [OF lib False fits size(2)]) blast
  then show thesis
    using that [of "header p s @ r @ drop (encoded_length p s) buffer" "encoded_length p s"] fits
    by (simp add: encoded_length_def netcode_sizes)
qed

end
