(* ===== verification/Netcode_Client.thy ===== *)
theory Netcode_Client
  imports Netcode_Packet
begin

text \<open>
  \<open>src/renetcode2/src/client.rs\<close>: the client of the netcode protocol. Reasons and errors are those of
  \<open>Netcode_Serialize\<close>. A method that returns a slice of \<open>self.out\<close> returns the bytes; the address beside
  them is where the transport is to send them. The random bytes that an unsecure client draws for its token
  are an argument.
\<close>

datatype ClientState =
    ClientDisconnected NetcodeDisconnectReason
  | SendingConnectionRequest
  | SendingConnectionResponse
  | ClientConnected

datatype ClientAuthentication =
    SecureClient ConnectToken
  | UnsecureClient u64 u64 u8 SocketAddr "bytes option"

record NetcodeClient =
  nc_state :: ClientState
  nc_client_id :: u64
  connect_start_time :: duration
  nc_last_packet_send_time :: "duration option"
  nc_last_packet_received_time :: duration
  nc_current_time :: duration
  nc_sequence :: u64
  nc_server_addr :: SocketAddr
  server_addr_index :: nat
  nc_connect_token :: ConnectToken
  challenge_token_sequence :: u64
  challenge_token_data :: bytes
  nc_max_clients :: u32
  nc_client_index :: u32
  send_rate :: duration
  nc_replay_protection :: ReplayProtection
  nc_out :: bytes
  nc_encryption_policy :: bool

text \<open>The random bytes of \<open>ConnectToken::generate\<close>.\<close>

record token_randomness =
  rnd_client_to_server_key :: bytes
  rnd_server_to_client_key :: bytes
  rnd_user_data :: bytes
  rnd_xnonce :: bytes

definition client_token :: "aead_lib \<Rightarrow> token_randomness \<Rightarrow> duration \<Rightarrow> ClientAuthentication \<Rightarrow> (NetcodeError, ConnectToken) outcome" where
  "client_token lib rnd current_time authentication = (case authentication of
     UnsecureClient protocol_id client_id socket_id server_addr user_data \<Rightarrow>
       map_err TokenError (connect_token_generate lib (rnd_client_to_server_key rnd) (rnd_server_to_client_key rnd) (rnd_user_data rnd)
         (rnd_xnonce rnd) current_time protocol_id 300 client_id 15 socket_id [server_addr] user_data (replicate NETCODE_KEY_BYTES 0))
   | SecureClient connect_token \<Rightarrow> Ok connect_token)"

definition netcode_client_new :: "aead_lib \<Rightarrow> token_randomness \<Rightarrow> duration \<Rightarrow> ClientAuthentication \<Rightarrow> (NetcodeError, NetcodeClient) outcome" where
  "netcode_client_new lib rnd current_time authentication =
     and_then (client_token lib rnd current_time authentication) (\<lambda>connect_token.
       case index (ct_server_addresses connect_token) 0 of None \<Rightarrow> Panic | Some None \<Rightarrow> Panic
       | Some (Some server_addr) \<Rightarrow>
         Ok \<lparr>nc_state = SendingConnectionRequest, nc_client_id = ct_client_id connect_token, connect_start_time = current_time,
           nc_last_packet_send_time = None, nc_last_packet_received_time = current_time, nc_current_time = current_time,
           nc_sequence = 0, nc_server_addr = server_addr, server_addr_index = 0, nc_connect_token = connect_token,
           challenge_token_sequence = 0, challenge_token_data = replicate NETCODE_CHALLENGE_TOKEN_BYTES 0,
           nc_max_clients = 0, nc_client_index = 0, send_rate = NETCODE_SEND_RATE, nc_replay_protection = replay_new,
           nc_out = replicate NETCODE_MAX_PACKET_BYTES 0, nc_encryption_policy = True\<rparr>)"

definition client_set_encryption_policy :: "NetcodeClient \<Rightarrow> bool \<Rightarrow> NetcodeClient" where
  "client_set_encryption_policy self policy = self\<lparr>nc_encryption_policy := policy\<rparr>"

definition nc_is_connecting :: "NetcodeClient \<Rightarrow> bool" where
  "nc_is_connecting self \<longleftrightarrow> nc_state self = SendingConnectionRequest \<or> nc_state self = SendingConnectionResponse"

definition nc_is_connected :: "NetcodeClient \<Rightarrow> bool" where
  "nc_is_connected self \<longleftrightarrow> nc_state self = ClientConnected"

definition nc_is_disconnected :: "NetcodeClient \<Rightarrow> bool" where
  "nc_is_disconnected self \<longleftrightarrow> (case nc_state self of ClientDisconnected _ \<Rightarrow> True | _ \<Rightarrow> False)"

definition time_since_last_received_packet :: "NetcodeClient \<Rightarrow> duration option" where
  "time_since_last_received_packet self = checked_sub (nc_current_time self) (nc_last_packet_received_time self)"

definition nc_disconnect_reason :: "NetcodeClient \<Rightarrow> NetcodeDisconnectReason option" where
  "nc_disconnect_reason self = (case nc_state self of ClientDisconnected reason \<Rightarrow> Some reason | _ \<Rightarrow> None)"

text \<open>Encoding with the keys of the token, and the sequence number after a packet, whose overflow panics.\<close>

definition client_encode :: "aead_lib \<Rightarrow> NetcodeClient \<Rightarrow> NetcodePacket \<Rightarrow> (NetcodeClient \<times> (NetcodeError + nat)) option" where
  "client_encode lib self packet = do {
     (buffer, r) \<leftarrow> packet_encode lib packet (nc_out self) (ct_protocol_id (nc_connect_token self))
       (Some (nc_sequence self, ct_client_to_server_key (nc_connect_token self))) (nc_encryption_policy self);
     Some (self\<lparr>nc_out := buffer\<rparr>, r)
   }"

definition nc_disconnect :: "aead_lib \<Rightarrow> NetcodeClient \<Rightarrow> (NetcodeClient \<times> (NetcodeError + SocketAddr \<times> bytes)) option" where
  "nc_disconnect lib self = do {
     let self = self\<lparr>nc_state := ClientDisconnected NetcodeDisconnectedByClient\<rparr>;
     (self, r) \<leftarrow> client_encode lib self Disconnect;
     case r of Inl e \<Rightarrow> Some (self, Inl e)
     | Inr len \<Rightarrow> do { bs \<leftarrow> slice_range (nc_out self) 0 len; Some (self, Inr (nc_server_addr self, bs)) }
   }"

fun client_handle :: "NetcodeClient \<Rightarrow> NetcodePacket \<Rightarrow> ClientState \<Rightarrow> NetcodeClient \<times> bytes option" where
  "client_handle self ConnectionDeniedPacket SendingConnectionRequest =
     (self\<lparr>nc_state := ClientDisconnected ConnectionDenied, nc_last_packet_received_time := nc_current_time self\<rparr>, None)"
| "client_handle self ConnectionDeniedPacket SendingConnectionResponse =
     (self\<lparr>nc_state := ClientDisconnected ConnectionDenied, nc_last_packet_received_time := nc_current_time self\<rparr>, None)"
| "client_handle self (Challenge token_sequence token_data) SendingConnectionRequest =
     (self\<lparr>challenge_token_sequence := token_sequence, nc_last_packet_received_time := nc_current_time self,
        nc_last_packet_send_time := None, challenge_token_data := token_data, nc_state := SendingConnectionResponse\<rparr>, None)"
| "client_handle self (KeepAlive _ _) ClientConnected =
     (self\<lparr>nc_last_packet_received_time := nc_current_time self\<rparr>, None)"
| "client_handle self (KeepAlive client_index max_clients) SendingConnectionResponse =
     (self\<lparr>nc_last_packet_received_time := nc_current_time self, nc_max_clients := max_clients,
        nc_client_index := client_index, nc_state := ClientConnected\<rparr>, None)"
| "client_handle self (Payload p) ClientConnected =
     (self\<lparr>nc_last_packet_received_time := nc_current_time self\<rparr>, Some p)"
| "client_handle self Disconnect ClientConnected =
     (self\<lparr>nc_state := ClientDisconnected NetcodeDisconnectedByServer, nc_last_packet_received_time := nc_current_time self\<rparr>, None)"
| "client_handle self _ _ = (self, None)"

definition nc_process_packet :: "aead_lib \<Rightarrow> NetcodeClient \<Rightarrow> bytes \<Rightarrow> (NetcodeClient \<times> bytes option) option" where
  "nc_process_packet lib self buffer = do {
     (rp, r) \<leftarrow> packet_decode lib buffer (ct_protocol_id (nc_connect_token self)) (Some (ct_server_to_client_key (nc_connect_token self)))
       (Some (nc_replay_protection self)) (nc_encryption_policy self);
     let self = (case rp of None \<Rightarrow> self | Some rp \<Rightarrow> self\<lparr>nc_replay_protection := rp\<rparr>);
     case r of Inl _ \<Rightarrow> Some (self, None)
     | Inr (_, packet) \<Rightarrow> Some (client_handle self packet (nc_state self))
   }"

definition nc_generate_payload_packet ::
  "aead_lib \<Rightarrow> NetcodeClient \<Rightarrow> bytes \<Rightarrow> (NetcodeClient \<times> (NetcodeError + SocketAddr \<times> bytes)) option" where
  "nc_generate_payload_packet lib self payload =
     (if length payload > NETCODE_MAX_PAYLOAD_BYTES then Some (self, Inl PayloadAboveLimit)
      else if nc_state self \<noteq> ClientConnected then Some (self, Inl ClientNotConnected)
      else do {
        (self, r) \<leftarrow> client_encode lib self (Payload payload);
        case r of Inl e \<Rightarrow> Some (self, Inl e)
        | Inr len \<Rightarrow> do {
            sequence \<leftarrow> checked_add_u64 (nc_sequence self) 1;
            let self = self\<lparr>nc_sequence := sequence, nc_last_packet_send_time := Some (nc_current_time self)\<rparr>;
            bs \<leftarrow> slice_range (nc_out self) 0 len;
            Some (self, Inr (nc_server_addr self, bs))
          }
      })"

definition connection_timed_out :: "NetcodeClient \<Rightarrow> bool" where
  "connection_timed_out self \<longleftrightarrow> sint (ct_timeout_seconds (nc_connect_token self)) > 0 \<and>
     nc_last_packet_received_time self + from_secs (unat (ct_timeout_seconds (nc_connect_token self))) < nc_current_time self"

definition checked_sub_u64 :: "u64 \<Rightarrow> u64 \<Rightarrow> u64 option" where
  "checked_sub_u64 a b = (if b \<le> a then Some (a - b) else None)"

definition try_next_server :: "NetcodeClient \<Rightarrow> (NetcodeClient \<times> (NetcodeError + unit)) option" where
  "try_next_server self = do {
     let reason = (if nc_state self = SendingConnectionResponse then ConnectionResponseTimedOut else ConnectionRequestTimedOut);
     let self = self\<lparr>nc_state := ClientDisconnected reason, server_addr_index := server_addr_index self + 1\<rparr>;
     if server_addr_index self \<ge> 32 then Some (self, Inl NoMoreServers)
     else do {
       entry \<leftarrow> index (ct_server_addresses (nc_connect_token self)) (server_addr_index self);
       case entry of None \<Rightarrow> Some (self, Inl NoMoreServers)
       | Some server_address \<Rightarrow>
           Some (self\<lparr>nc_state := SendingConnectionRequest, nc_server_addr := server_address, connect_start_time := nc_current_time self,
             nc_last_packet_send_time := None, nc_last_packet_received_time := nc_current_time self, challenge_token_sequence := 0\<rparr>, Inr ())
     }
   }"

definition update_internal_state :: "NetcodeClient \<Rightarrow> duration \<Rightarrow> (NetcodeClient \<times> (NetcodeError + unit)) option" where
  "update_internal_state self elapsed = do {
     let self = self\<lparr>nc_current_time := nc_current_time self + elapsed\<rparr>;
     let timed_out = connection_timed_out self;
     if nc_is_connecting self then do {
       expire_seconds \<leftarrow> checked_sub_u64 (ct_expire_timestamp (nc_connect_token self)) (create_timestamp (nc_connect_token self));
       connecting \<leftarrow> checked_sub (nc_current_time self) (connect_start_time self);
       if as_secs connecting \<ge> unat expire_seconds then
         Some (self\<lparr>nc_state := ClientDisconnected ConnectTokenExpired\<rparr>, Inl NetcodeExpired)
       else if timed_out then try_next_server self
       else Some (self, Inr ())
     }
     else case nc_state self of ClientDisconnected reason \<Rightarrow> Some (self, Inl (NetcodeDisconnected reason))
     | _ \<Rightarrow>
       if timed_out then Some (self\<lparr>nc_state := ClientDisconnected ConnectionTimedOut\<rparr>, Inl (NetcodeDisconnected ConnectionTimedOut))
       else Some (self, Inr ())
   }"

definition packet_for_state :: "NetcodeClient \<Rightarrow> NetcodePacket option" where
  "packet_for_state self = (case nc_state self of
     SendingConnectionRequest \<Rightarrow> Some (connection_request_from_token (nc_connect_token self))
   | SendingConnectionResponse \<Rightarrow> Some (Response (challenge_token_sequence self) (challenge_token_data self))
   | ClientConnected \<Rightarrow> Some (KeepAlive 0 0)
   | ClientDisconnected _ \<Rightarrow> None)"

definition send_packet :: "aead_lib \<Rightarrow> NetcodeClient \<Rightarrow> (NetcodeClient \<times> (bytes \<times> SocketAddr) option) option" where
  "send_packet lib self = do {
     let self = (if nc_is_connected self \<or> nc_is_connecting self then self\<lparr>nc_last_packet_send_time := Some (nc_current_time self)\<rparr> else self);
     case packet_for_state self of None \<Rightarrow> Some (self, None)
     | Some packet \<Rightarrow> do {
         (self, r) \<leftarrow> client_encode lib self packet;
         case r of Inl _ \<Rightarrow> Some (self, None)
         | Inr encoded \<Rightarrow> do {
             sequence \<leftarrow> checked_add_u64 (nc_sequence self) 1;
             let self = self\<lparr>nc_sequence := sequence\<rparr>;
             bs \<leftarrow> slice_range (nc_out self) 0 encoded;
             Some (self, Some (bs, nc_server_addr self))
           }
       }
   }"

definition generate_packet :: "aead_lib \<Rightarrow> NetcodeClient \<Rightarrow> (NetcodeClient \<times> (bytes \<times> SocketAddr) option) option" where
  "generate_packet lib self = (case nc_last_packet_send_time self of
     Some last_packet_send_time \<Rightarrow> do {
       since \<leftarrow> checked_sub (nc_current_time self) last_packet_send_time;
       if since < send_rate self then Some (self, None) else send_packet lib self
     }
   | None \<Rightarrow> send_packet lib self)"

definition nc_update :: "aead_lib \<Rightarrow> NetcodeClient \<Rightarrow> duration \<Rightarrow> (NetcodeClient \<times> (bytes \<times> SocketAddr) option) option" where
  "nc_update lib self elapsed = do {
     (self, r) \<leftarrow> update_internal_state self elapsed;
     case r of Inl _ \<Rightarrow> Some (self, None) | Inr _ \<Rightarrow> generate_packet lib self
   }"
subsection \<open>Invariant\<close>

text \<open>
  Buffers have the size of their arrays, no time lies in the future, the token is well formed, and a client
  that is not disconnected has not waited longer than the timeout.
\<close>

definition nc_inv :: "NetcodeClient \<Rightarrow> bool" where
  "nc_inv self \<longleftrightarrow> length (nc_out self) = 1400 \<and> connect_token_wf (nc_connect_token self) \<and>
     create_timestamp (nc_connect_token self) \<le> ct_expire_timestamp (nc_connect_token self) \<and>
     nc_last_packet_received_time self \<le> nc_current_time self \<and> connect_start_time self \<le> nc_current_time self \<and>
     (\<forall>t. nc_last_packet_send_time self = Some t \<longrightarrow> t \<le> nc_current_time self) \<and>
     server_addr_index self < 33 \<and> (\<not> nc_is_disconnected self \<longrightarrow> server_addr_index self < 32 \<and> \<not> connection_timed_out self) \<and>
     length (challenge_token_data self) = 300 \<and> (\<exists>acc. replay_inv acc (nc_replay_protection self))"

lemma nc_states: "nc_is_disconnected self \<longleftrightarrow> \<not> nc_is_connecting self \<and> \<not> nc_is_connected self"
  by (cases "nc_state self") (auto simp: nc_is_disconnected_def nc_is_connecting_def nc_is_connected_def)

lemma netcode_client_new_inv:
  assumes "connect_token_wf token" "ct_server_addresses token ! 0 = Some addr" "create_timestamp token \<le> ct_expire_timestamp token"
  obtains self where "netcode_client_new lib rnd now (SecureClient token) = Ok self" "nc_inv self" "nc_connect_token self = token"
    "nc_state self = SendingConnectionRequest" "nc_server_addr self = addr" "nc_current_time self = now" "nc_sequence self = 0"
    "nc_replay_protection self = replay_new" "nc_encryption_policy self" "nc_last_packet_send_time self = None"
    "connect_start_time self = now" "server_addr_index self = 0" "nc_last_packet_received_time self = now"
proof -
  have "length (ct_server_addresses token) = 32"
    using assms(1) by (simp add: connect_token_wf_def addrs_wf_def)
  then have "index (ct_server_addresses token) 0 = Some (Some addr)"
    using assms(2) by simp
  then show thesis
    using that assms replay_inv_new
    by (simp add: netcode_client_new_def client_token_def nc_inv_def netcode_sizes nc_is_disconnected_def connection_timed_out_def) blast
qed

lemma request_wf: "connect_token_wf t \<Longrightarrow> packet_wf (connection_request_from_token t)"
  by (simp add: connection_request_from_token_def connect_token_wf_def)

text \<open>Every packet of a client fits its buffer.\<close>

lemma client_encode_ok:
  assumes lib: "aead_laws lib" and inv: "nc_inv self" and p: "packet_wf p" "length (concat (packet_parts p)) \<le> 1300"
  obtains out n where "client_encode lib self p = Some (self\<lparr>nc_out := out\<rparr>, Inr n)" "length out = 1400" "n \<le> 1400"
proof -
  have room: "length (concat (packet_parts p)) + 25 \<le> length (nc_out self)" "1078 \<le> length (nc_out self)"
    "length (nc_out self) \<le> NETCODE_MAX_PACKET_BYTES"
    using inv p(2) by (simp_all add: nc_inv_def netcode_sizes)
  obtain out n where "packet_encode lib p (nc_out self) (ct_protocol_id (nc_connect_token self))
       (Some (nc_sequence self, ct_client_to_server_key (nc_connect_token self))) (nc_encryption_policy self) = Some (out, Inr n)"
    "length out = length (nc_out self)" "n \<le> length (nc_out self)"
    by (rule packet_encode_total [OF lib p(1) room])
  then show thesis
    using that [of out n] inv by (simp add: client_encode_def nc_inv_def)
qed

lemma packet_for_state_fits:
  assumes "nc_inv self" "packet_for_state self = Some p"
  shows "packet_wf p" "length (concat (packet_parts p)) \<le> 1300"
  using assms request_wf [of "nc_connect_token self"]
  by (auto simp: packet_for_state_def nc_inv_def connection_request_from_token_def connect_token_wf_def split: ClientState.splits)

text \<open>What an operation may not touch.\<close>

definition same_session :: "NetcodeClient \<Rightarrow> NetcodeClient \<Rightarrow> bool" where
  "same_session self self' \<longleftrightarrow> nc_state self' = nc_state self \<and> nc_current_time self' = nc_current_time self \<and>
     nc_last_packet_received_time self' = nc_last_packet_received_time self \<and> server_addr_index self' = server_addr_index self \<and>
     nc_connect_token self' = nc_connect_token self"

lemma send_packet_ok:
  assumes lib: "aead_laws lib" and inv: "nc_inv self" and n: "unat (nc_sequence self) + 1 < 2 ^ 64"
  obtains self' out where "send_packet lib self = Some (self', out)" "nc_inv self'" "same_session self self'"
    "unat (nc_sequence self') \<le> unat (nc_sequence self) + 1"
proof -
  define s1 where "s1 = (if nc_is_connected self \<or> nc_is_connecting self then self\<lparr>nc_last_packet_send_time := Some (nc_current_time self)\<rparr> else self)"
  have inv1: "nc_inv s1" and same1: "same_session self s1" "nc_sequence s1 = nc_sequence self"
    using inv by (auto simp: s1_def nc_inv_def nc_is_disconnected_def connection_timed_out_def same_session_def split: if_splits)
  show thesis
  proof (cases "packet_for_state s1")
    case None
    then have "send_packet lib self = Some (s1, None)"
      by (simp add: send_packet_def Let_def s1_def [symmetric])
    then show thesis
      using that inv1 same1 by simp
  next
    case (Some p)
    obtain out m where enc: "client_encode lib s1 p = Some (s1\<lparr>nc_out := out\<rparr>, Inr m)" "length out = 1400" "m \<le> 1400"
      by (rule client_encode_ok [OF lib inv1 packet_for_state_fits [OF inv1 Some]])
    have add: "checked_add_u64 (nc_sequence s1) 1 = Some (nc_sequence s1 + 1)" "unat (nc_sequence s1 + 1) = unat (nc_sequence self) + 1"
      using n same1(2) by (simp_all add: checked_add_u64_def unat_word_ariths)
    let ?s2 = "s1\<lparr>nc_out := out, nc_sequence := nc_sequence s1 + 1\<rparr>"
    have "send_packet lib self = Some (?s2, Some (take m out, nc_server_addr s1))"
      using Some enc add by (simp add: send_packet_def Let_def s1_def [symmetric])
    moreover have "nc_inv ?s2" "same_session self ?s2"
      using inv1 same1 enc(2) by (auto simp: nc_inv_def nc_is_disconnected_def connection_timed_out_def same_session_def)
    ultimately show thesis
      using that [of ?s2] add(2) by simp
  qed
qed

lemma generate_packet_ok:
  assumes lib: "aead_laws lib" and inv: "nc_inv self" and n: "unat (nc_sequence self) + 1 < 2 ^ 64"
  obtains self' out where "generate_packet lib self = Some (self', out)" "nc_inv self'" "same_session self self'"
    "unat (nc_sequence self') \<le> unat (nc_sequence self) + 1"
proof -
  obtain self' out where sent: "send_packet lib self = Some (self', out)" "nc_inv self'" "same_session self self'"
    "unat (nc_sequence self') \<le> unat (nc_sequence self) + 1"
    by (rule send_packet_ok [OF assms])
  have time: "nc_last_packet_send_time self = Some t \<Longrightarrow> t \<le> nc_current_time self" for t
    using inv by (simp add: nc_inv_def)
  have "same_session self self"
    by (simp add: same_session_def)
  moreover have "generate_packet lib self = Some (self, None) \<or> generate_packet lib self = send_packet lib self"
    using time by (cases "nc_last_packet_send_time self") (auto simp: generate_packet_def)
  ultimately show thesis
    using sent that [of self' out] that [of self None] inv by auto
qed
subsection \<open>Updates\<close>

definition timeout_of :: "NetcodeClient \<Rightarrow> duration" where
  "timeout_of self = from_secs (unat (ct_timeout_seconds (nc_connect_token self)))"

text \<open>The time a silent client has left: every server that may still be tried costs a timeout and one late update.\<close>

definition patience :: "duration \<Rightarrow> NetcodeClient \<Rightarrow> nat" where
  "patience D self = (32 - server_addr_index self) * (timeout_of self + D) - (nc_current_time self - nc_last_packet_received_time self)"

definition waits :: "NetcodeClient \<Rightarrow> bool" where
  "waits self \<longleftrightarrow> 0 < sint (ct_timeout_seconds (nc_connect_token self))"

lemma try_next_server_ok:
  assumes inv: "nc_inv (self\<lparr>nc_current_time := now\<rparr>)" and now: "now \<le> nc_current_time self"
    and idx: "server_addr_index self < 32" and start: "connect_start_time self \<le> nc_current_time self"
  obtains self' r where "try_next_server self = Some (self', r)" "nc_inv self'" "nc_sequence self' = nc_sequence self"
    "nc_connect_token self' = nc_connect_token self" "nc_current_time self' = nc_current_time self"
    "nc_is_disconnected self' \<or> server_addr_index self' = Suc (server_addr_index self) \<and> nc_last_packet_received_time self' = nc_current_time self'"
proof -
  have addrs: "length (ct_server_addresses (nc_connect_token self)) = 32"
    using inv by (simp add: nc_inv_def connect_token_wf_def addrs_wf_def)
  have times: "\<forall>t. nc_last_packet_send_time self = Some t \<longrightarrow> t \<le> nc_current_time self" "nc_last_packet_received_time self \<le> nc_current_time self"
    using inv now by (fastforce simp: nc_inv_def)+
  have base: "length (nc_out self) = 1400" "connect_token_wf (nc_connect_token self)"
    "create_timestamp (nc_connect_token self) \<le> ct_expire_timestamp (nc_connect_token self)"
    "length (challenge_token_data self) = 300" "\<exists>acc. replay_inv acc (nc_replay_protection self)"
    using inv by (simp_all add: nc_inv_def)
  obtain reason where reason: "(if nc_state self = SendingConnectionResponse then ConnectionResponseTimedOut else ConnectionRequestTimedOut) = reason"
    by blast
  let ?d = "self\<lparr>nc_state := ClientDisconnected reason, server_addr_index := server_addr_index self + 1\<rparr>"
  have disc: "nc_inv ?d" "nc_is_disconnected ?d"
    using base times start idx by (simp_all add: nc_inv_def nc_is_disconnected_def)
  show thesis
  proof (cases "server_addr_index self + 1 \<ge> 32 \<or> ct_server_addresses (nc_connect_token self) ! (server_addr_index self + 1) = None")
    case True
    then have "try_next_server self = Some (?d, Inl NoMoreServers)"
      using addrs by (auto simp: try_next_server_def Let_def reason)
    then show thesis
      using that disc by auto
  next
    case False
    then obtain addr where addr: "ct_server_addresses (nc_connect_token self) ! (server_addr_index self + 1) = Some addr"
      by auto
    let ?n = "?d\<lparr>nc_state := SendingConnectionRequest, nc_server_addr := addr, connect_start_time := nc_current_time self,
             nc_last_packet_send_time := None, nc_last_packet_received_time := nc_current_time self, challenge_token_sequence := 0\<rparr>"
    have "try_next_server self = Some (?n, Inr ())"
      using False addr addrs by (simp add: try_next_server_def Let_def reason)
    moreover have "nc_inv ?n"
      using base False by (simp add: nc_inv_def nc_is_disconnected_def connection_timed_out_def)
    ultimately show thesis
      using that [of ?n "Inr ()"] by simp
  qed
qed

lemma update_internal_state_ok:
  assumes inv: "nc_inv self"
  obtains self' r where "update_internal_state self d = Some (self', r)" "nc_inv self'" "nc_sequence self' = nc_sequence self"
    "nc_connect_token self' = nc_connect_token self" "nc_is_disconnected self \<Longrightarrow> nc_is_disconnected self'"
    "\<not> nc_is_disconnected self \<Longrightarrow> waits self \<Longrightarrow> d \<le> D \<Longrightarrow> nc_is_disconnected self' \<or> patience D self' + d \<le> patience D self"
proof -
  let ?s = "self\<lparr>nc_current_time := nc_current_time self + d\<rparr>"
  have expire: "checked_sub_u64 (ct_expire_timestamp (nc_connect_token self)) (create_timestamp (nc_connect_token self)) =
      Some (ct_expire_timestamp (nc_connect_token self) - create_timestamp (nc_connect_token self))"
    using inv by (simp add: checked_sub_u64_def nc_inv_def)
  have start: "checked_sub (nc_current_time self + d) (connect_start_time self) = Some (nc_current_time self + d - connect_start_time self)"
    using inv by (simp add: nc_inv_def)
  have times: "\<forall>t. nc_last_packet_send_time self = Some t \<longrightarrow> t \<le> nc_current_time self + d"
    using inv by (fastforce simp: nc_inv_def)
  have gone: "nc_inv (?s\<lparr>nc_state := ClientDisconnected r\<rparr>)" "nc_is_disconnected (?s\<lparr>nc_state := ClientDisconnected r\<rparr>)" for r
    using inv times by (simp_all add: nc_inv_def nc_is_disconnected_def)
  have stay: "nc_inv ?s" if "\<not> connection_timed_out ?s \<or> nc_is_disconnected self"
    using inv times that by (auto simp: nc_inv_def nc_is_disconnected_def)
  have idx: "server_addr_index self < 32" and elapsed: "waits self \<Longrightarrow> nc_current_time self \<le> nc_last_packet_received_time self + timeout_of self"
    if "\<not> nc_is_disconnected self"
    using inv that by (auto simp: nc_inv_def connection_timed_out_def waits_def timeout_of_def)
  have received: "nc_last_packet_received_time self \<le> nc_current_time self"
    using inv by (simp add: nc_inv_def)
  show thesis
  proof (cases "nc_is_disconnected self")
    case True
    then obtain reason where "nc_state self = ClientDisconnected reason"
      by (auto simp: nc_is_disconnected_def split: ClientState.splits)
    then have "update_internal_state self d = Some (?s, Inl (NetcodeDisconnected reason))"
      by (simp add: update_internal_state_def Let_def nc_is_connecting_def)
    then show thesis
      using that [of ?s] stay True by (simp add: nc_is_disconnected_def)
  next
    case live: False
    define rest where "rest = (31 - server_addr_index self) * (timeout_of self + D)"
    have mult: "(32 - server_addr_index self) * (timeout_of self + D) = rest + (timeout_of self + D)"
    proof -
      have "32 - server_addr_index self = Suc (31 - server_addr_index self)"
        using idx [OF live] by simp
      then show ?thesis
        by (simp only: rest_def mult_Suc add.commute)
    qed
    then have pat: "patience D self = rest + (timeout_of self + D) - (nc_current_time self - nc_last_packet_received_time self)"
      by (simp add: patience_def)
    have "(\<exists>r e. update_internal_state self d = Some (?s\<lparr>nc_state := ClientDisconnected r\<rparr>, e)) \<or>
        update_internal_state self d = try_next_server ?s \<or>
        update_internal_state self d = Some (?s, Inr ()) \<and> \<not> connection_timed_out ?s"
      using live expire start by (auto simp: update_internal_state_def Let_def nc_states nc_is_connected_def nc_is_connecting_def)
    then consider (ended) r e where "update_internal_state self d = Some (?s\<lparr>nc_state := ClientDisconnected r\<rparr>, e)"
      | (next_server) "update_internal_state self d = try_next_server ?s"
      | (stays) "update_internal_state self d = Some (?s, Inr ())" "\<not> connection_timed_out ?s"
      by blast
    then show thesis
    proof cases
      case ended
      then show thesis
        using that [of "?s\<lparr>nc_state := ClientDisconnected r\<rparr>"] gone [of r] by simp
    next
      case next_server
      have "nc_inv (?s\<lparr>nc_current_time := nc_current_time self\<rparr>)" "nc_current_time self \<le> nc_current_time ?s"
        "server_addr_index ?s < 32" "connect_start_time ?s \<le> nc_current_time ?s"
        using inv idx [OF live] by (simp_all add: nc_inv_def)
      then obtain self' r where step: "try_next_server ?s = Some (self', r)" "nc_inv self'" "nc_sequence self' = nc_sequence ?s"
        "nc_connect_token self' = nc_connect_token ?s" "nc_current_time self' = nc_current_time ?s"
        "nc_is_disconnected self' \<or> server_addr_index self' = Suc (server_addr_index ?s) \<and> nc_last_packet_received_time self' = nc_current_time self'"
        by (rule try_next_server_ok) blast
      have "patience D self' + d \<le> patience D self" if "\<not> nc_is_disconnected self'" "waits self" "d \<le> D"
      proof -
        have "patience D self' = rest"
          using step(4,6) that(1) by (simp add: patience_def rest_def timeout_of_def)
        then show ?thesis
          using pat elapsed [OF live that(2)] that(3) received by simp
      qed
      then show thesis
        using that [of self' r] step next_server live by auto
    next
      case stays
      have "patience D ?s + d \<le> patience D self" if "waits self" "d \<le> D"
      proof -
        have "nc_current_time self + d \<le> nc_last_packet_received_time self + timeout_of self"
          using stays(2) that(1) by (simp add: connection_timed_out_def waits_def timeout_of_def)
        moreover have "patience D ?s = rest + (timeout_of self + D) - (nc_current_time self + d - nc_last_packet_received_time self)"
          using mult by (simp add: patience_def timeout_of_def)
        ultimately show ?thesis
          using pat received by simp
      qed
      then show thesis
        using that [of ?s "Inr ()"] stays stay live by auto
    qed
  qed
qed

text \<open>Time passes and nothing arrives.\<close>

fun silent_run :: "aead_lib \<Rightarrow> duration list \<Rightarrow> NetcodeClient \<Rightarrow> NetcodeClient option" where
  "silent_run lib [] self = Some self"
| "silent_run lib (d # ds) self = do { (self, _) \<leftarrow> nc_update lib self d; silent_run lib ds self }"

lemma nc_update_ok:
  assumes lib: "aead_laws lib" and inv: "nc_inv self" and n: "unat (nc_sequence self) + 1 < 2 ^ 64"
  obtains self' out where "nc_update lib self d = Some (self', out)" "nc_inv self'" "unat (nc_sequence self') \<le> unat (nc_sequence self) + 1"
    "nc_connect_token self' = nc_connect_token self" "nc_is_disconnected self \<Longrightarrow> nc_is_disconnected self'"
    "\<not> nc_is_disconnected self \<Longrightarrow> waits self \<Longrightarrow> d \<le> D \<Longrightarrow> nc_is_disconnected self' \<or> patience D self' + d \<le> patience D self"
proof -
  obtain s1 r where upd: "update_internal_state self d = Some (s1, r)" "nc_inv s1" "nc_sequence s1 = nc_sequence self"
    "nc_connect_token s1 = nc_connect_token self" "nc_is_disconnected self \<Longrightarrow> nc_is_disconnected s1"
    "\<not> nc_is_disconnected self \<Longrightarrow> waits self \<Longrightarrow> d \<le> D \<Longrightarrow> nc_is_disconnected s1 \<or> patience D s1 + d \<le> patience D self"
    by (rule update_internal_state_ok [OF inv, of d D]) blast
  show thesis
  proof (cases r)
    case (Inl e)
    then show thesis
      using that [of s1 None] upd by (simp add: nc_update_def)
  next
    case (Inr u)
    have n1: "unat (nc_sequence s1) + 1 < 2 ^ 64"
      using n upd(3) by simp
    obtain s2 out where gen: "generate_packet lib s1 = Some (s2, out)" "nc_inv s2" "same_session s1 s2"
      "unat (nc_sequence s2) \<le> unat (nc_sequence s1) + 1"
      by (rule generate_packet_ok [OF lib upd(2) n1])
    have "nc_is_disconnected s2 = nc_is_disconnected s1" "patience D s2 = patience D s1" "nc_connect_token s2 = nc_connect_token s1"
      using gen(3) by (simp_all add: same_session_def nc_is_disconnected_def patience_def timeout_of_def)
    then show thesis
      using that [of s2 out] upd gen Inr by (simp add: nc_update_def)
  qed
qed

lemma silent_run_disconnects:
  assumes lib: "aead_laws lib"
  shows "nc_inv self \<Longrightarrow> waits self \<Longrightarrow> list_all (\<lambda>d. d \<le> D) ds \<Longrightarrow> unat (nc_sequence self) + length ds < 2 ^ 64 \<Longrightarrow>
    nc_is_disconnected self \<or> patience D self < sum_list ds \<Longrightarrow>
    \<exists>self'. silent_run lib ds self = Some self' \<and> nc_inv self' \<and> nc_is_disconnected self'"
proof (induction ds arbitrary: self)
  case (Cons d ds)
  have n: "unat (nc_sequence self) + 1 < 2 ^ 64"
    using Cons.prems(4) by simp
  obtain s1 out where upd: "nc_update lib self d = Some (s1, out)" "nc_inv s1" "unat (nc_sequence s1) \<le> unat (nc_sequence self) + 1"
    "nc_connect_token s1 = nc_connect_token self" "nc_is_disconnected self \<Longrightarrow> nc_is_disconnected s1"
    "\<not> nc_is_disconnected self \<Longrightarrow> waits self \<Longrightarrow> d \<le> D \<Longrightarrow> nc_is_disconnected s1 \<or> patience D s1 + d \<le> patience D self"
    by (rule nc_update_ok [OF lib Cons.prems(1) n, of d D]) blast
  have "waits s1"
    using Cons.prems(2) upd(4) by (simp add: waits_def)
  moreover have "nc_is_disconnected s1 \<or> patience D s1 < sum_list ds"
  proof (cases "nc_is_disconnected self")
    case False
    then have "nc_is_disconnected s1 \<or> patience D s1 + d \<le> patience D self" "patience D self < d + sum_list ds"
      using Cons.prems(2,3,5) upd(6) by simp_all
    then show ?thesis
      by linarith
  qed (use upd(5) in simp)
  ultimately have "\<exists>self'. silent_run lib ds s1 = Some self' \<and> nc_inv self' \<and> nc_is_disconnected self'"
    using Cons.prems(3,4) upd(3) by (intro Cons.IH [OF upd(2)]) simp_all
  then show ?case
    using upd(1) by simp
qed auto


definition demo_client_token :: ConnectToken where
  "demo_client_token = sample_token\<lparr>ct_server_addresses := Some (V4 [127, 0, 0, 1] 5000) # replicate 31 None, ct_expire_timestamp := 303\<rparr>"

lemma demo_client_token_wf: "connect_token_wf demo_client_token"
  by (simp add: connect_token_wf_def demo_client_token_def sample_token_def addrs_wf_def list_all_iff)

definition no_randomness :: token_randomness where
  "no_randomness = \<lparr>rnd_client_to_server_key = [], rnd_server_to_client_key = [], rnd_user_data = [], rnd_xnonce = []\<rparr>"


end
