(* ===== verification/Netcode_Server.thy ===== *)
theory Netcode_Server
  imports Netcode_Client "HOL-Library.AList"
begin

text \<open>
  \<open>src/renetcode2/src/server.rs\<close>: the server of the netcode protocol. The clients are an array of slots, the
  pending clients an association list from socket and address. A result that carries a slice of \<open>self.out\<close>
  carries the bytes. An operation that fails returns the state it leaves behind beside the error; \<open>None\<close> is a
  panic. The random challenge key is an argument of \<open>netcode_server_new\<close>.
\<close>

datatype ConnectionState = ConnDisconnected | PendingResponse | ConnConnected

record NetcodeConnection =
  confirmed :: bool
  cn_client_id :: u64
  cn_state :: ConnectionState
  send_key :: bytes
  receive_key :: bytes
  cn_user_data :: bytes
  cn_socket_id :: nat
  cn_addr :: SocketAddr
  cn_last_packet_received_time :: duration
  cn_last_packet_send_time :: duration
  cn_timeout_seconds :: u32
  cn_sequence :: u64
  cn_expire_timestamp :: u64
  cn_replay_protection :: ReplayProtection

record ConnectTokenEntry =
  entry_time :: duration
  entry_socket_id :: nat
  entry_address :: SocketAddr
  entry_mac :: bytes

record ServerSocketConfig =
  needs_encryption :: bool
  public_addresses :: "SocketAddr list"

datatype ServerAuthentication = SecureServer bytes | UnsecureServer

record ServerConfig =
  cfg_current_time :: duration
  cfg_max_clients :: nat
  cfg_protocol_id :: u64
  cfg_sockets :: "ServerSocketConfig list"
  cfg_authentication :: ServerAuthentication

type_synonym client_slots = "NetcodeConnection option list"

record NetcodeServer =
  sockets :: "ServerSocketConfig list"
  clients :: client_slots
  pending_clients :: "((nat \<times> SocketAddr) \<times> NetcodeConnection) list"
  connect_token_entries :: "ConnectTokenEntry option list"
  sv_protocol_id :: u64
  connect_key :: bytes
  sv_max_clients :: nat
  challenge_sequence :: u64
  challenge_key :: bytes
  sv_current_time :: duration
  global_sequence :: u64
  secure :: bool
  sv_out :: bytes

datatype ServerResult =
    NoResult
  | ResultError nat SocketAddr
  | ResultConnectionDenied nat SocketAddr "bytes option"
  | ConnectionAccepted u64 nat SocketAddr bytes
  | PacketToSend nat SocketAddr bytes
  | ResultPayload u64 bytes
  | ResultClientConnected u64 nat SocketAddr bytes bytes
  | ResultClientDisconnected u64 nat SocketAddr "bytes option"

definition server_socket_config_new :: "SocketAddr list \<Rightarrow> ServerSocketConfig" where
  "server_socket_config_new addrs = \<lparr>needs_encryption = True, public_addresses = addrs\<rparr>"

definition netcode_server_new :: "bytes \<Rightarrow> ServerConfig \<Rightarrow> NetcodeServer option" where
  "netcode_server_new random_challenge_key config =
     (if cfg_sockets config = [] then None
      else if cfg_max_clients config > NETCODE_MAX_CLIENTS then None
      else Some \<lparr>sockets = cfg_sockets config, clients = replicate (cfg_max_clients config) None, pending_clients = [],
        connect_token_entries = replicate (NETCODE_MAX_CLIENTS * 2) None, sv_protocol_id = cfg_protocol_id config,
        connect_key = (case cfg_authentication config of UnsecureServer \<Rightarrow> replicate NETCODE_KEY_BYTES 0 | SecureServer private_key \<Rightarrow> private_key),
        sv_max_clients = cfg_max_clients config, challenge_sequence = 0, challenge_key = random_challenge_key,
        sv_current_time = cfg_current_time config, global_sequence = 0,
        secure = (case cfg_authentication config of UnsecureServer \<Rightarrow> False | SecureServer _ \<Rightarrow> True),
        sv_out = replicate NETCODE_MAX_PACKET_BYTES 0\<rparr>)"

definition addresses :: "NetcodeServer \<Rightarrow> nat \<Rightarrow> SocketAddr list option" where
  "addresses self socket_id = map_option public_addresses (index (sockets self) socket_id)"

subsection \<open>Finding clients\<close>

fun position :: "('a \<Rightarrow> bool) \<Rightarrow> 'a list \<Rightarrow> nat option" where
  "position P [] = None"
| "position P (x # xs) = (if P x then Some 0 else map_option Suc (position P xs))"

definition flatten :: "'a option list \<Rightarrow> 'a list" where
  "flatten xs = map the (filter (\<lambda>x. x \<noteq> None) xs)"

definition has_id :: "u64 \<Rightarrow> NetcodeConnection option \<Rightarrow> bool" where
  "has_id client_id c = (case c of Some c \<Rightarrow> cn_client_id c = client_id | None \<Rightarrow> False)"

definition has_addr :: "nat \<Rightarrow> SocketAddr \<Rightarrow> NetcodeConnection option \<Rightarrow> bool" where
  "has_addr socket_id addr c = (case c of Some c \<Rightarrow> cn_socket_id c = socket_id \<and> cn_addr c = addr | None \<Rightarrow> False)"

definition find_client_by_id :: "client_slots \<Rightarrow> u64 \<Rightarrow> NetcodeConnection option" where
  "find_client_by_id cs client_id = List.find (\<lambda>c. cn_client_id c = client_id) (flatten cs)"

definition find_client_slot_by_id :: "client_slots \<Rightarrow> u64 \<Rightarrow> nat option" where
  "find_client_slot_by_id cs client_id = position (has_id client_id) cs"

text \<open>The mutable references are the slot and the connection in it.\<close>

definition at_slot :: "client_slots \<Rightarrow> nat option \<Rightarrow> (nat \<times> NetcodeConnection) option" where
  "at_slot cs i = (case i of None \<Rightarrow> None | Some i \<Rightarrow> map_option (\<lambda>c. (i, c)) (cs ! i))"

definition find_client_mut_by_id :: "client_slots \<Rightarrow> u64 \<Rightarrow> (nat \<times> NetcodeConnection) option" where
  "find_client_mut_by_id cs client_id = at_slot cs (position (has_id client_id) cs)"

definition find_client_mut_by_addr :: "client_slots \<Rightarrow> nat \<Rightarrow> SocketAddr \<Rightarrow> (nat \<times> NetcodeConnection) option" where
  "find_client_mut_by_addr cs socket_id addr = at_slot cs (position (has_addr socket_id addr) cs)"

definition sv_user_data :: "NetcodeServer \<Rightarrow> u64 \<Rightarrow> bytes option" where
  "sv_user_data self client_id = map_option cn_user_data (find_client_by_id (clients self) client_id)"

definition sv_time_since_last_received_packet :: "NetcodeServer \<Rightarrow> u64 \<Rightarrow> duration option option" where
  "sv_time_since_last_received_packet self client_id = (case find_client_by_id (clients self) client_id of
     Some client \<Rightarrow> map_option Some (checked_sub (sv_current_time self) (cn_last_packet_received_time client))
   | None \<Rightarrow> Some None)"

definition client_addr :: "NetcodeServer \<Rightarrow> u64 \<Rightarrow> (nat \<times> SocketAddr) option" where
  "client_addr self client_id = map_option (\<lambda>c. (cn_socket_id c, cn_addr c)) (find_client_by_id (clients self) client_id)"

definition clients_slot :: "NetcodeServer \<Rightarrow> nat list" where
  "clients_slot self = filter (\<lambda>i. clients self ! i \<noteq> None) [0..<length (clients self)]"

definition sv_clients_id :: "NetcodeServer \<Rightarrow> u64 list" where
  "sv_clients_id self = map cn_client_id (flatten (clients self))"

definition set_max_clients :: "NetcodeServer \<Rightarrow> nat \<Rightarrow> NetcodeServer" where
  "set_max_clients self n = self\<lparr>sv_max_clients := min n NETCODE_MAX_CLIENTS\<rparr>"

definition sv_connected_clients :: "NetcodeServer \<Rightarrow> nat" where
  "sv_connected_clients self = length (filter (\<lambda>slot. slot \<noteq> None) (clients self))"

definition is_client_connected :: "NetcodeServer \<Rightarrow> u64 \<Rightarrow> bool" where
  "is_client_connected self client_id \<longleftrightarrow> find_client_slot_by_id (clients self) client_id \<noteq> None"

subsection \<open>Connect token entries\<close>

text \<open>One round of the loop: \<open>min\<close> is \<open>None\<close> for \<open>Duration::MAX\<close>.\<close>

record entry_search =
  es_min :: "duration option"
  oldest_entry :: nat
  empty_entry :: bool
  matching_entry :: "ConnectTokenEntry option"

definition entry_step :: "bytes \<Rightarrow> nat \<times> ConnectTokenEntry option \<Rightarrow> entry_search \<Rightarrow> entry_search" where
  "entry_step new_mac = (\<lambda>(i, entry) s. case entry of
     Some e \<Rightarrow>
       let s = (if entry_mac e = new_mac then s\<lparr>matching_entry := Some e\<rparr> else s)
       in if \<not> empty_entry s \<and> (case es_min s of None \<Rightarrow> True | Some m \<Rightarrow> entry_time e < m)
          then s\<lparr>oldest_entry := i, es_min := Some (entry_time e)\<rparr> else s
   | None \<Rightarrow> if \<not> empty_entry s then s\<lparr>empty_entry := True, oldest_entry := i\<rparr> else s)"

definition entry_scan :: "bytes \<Rightarrow> ConnectTokenEntry option list \<Rightarrow> entry_search" where
  "entry_scan new_mac entries = fold (entry_step new_mac) (zip [0..<length entries] entries)
     \<lparr>es_min = None, oldest_entry = 0, empty_entry = False, matching_entry = None\<rparr>"

definition find_or_add_connect_token_entry :: "NetcodeServer \<Rightarrow> ConnectTokenEntry \<Rightarrow> (NetcodeServer \<times> bool) option" where
  "find_or_add_connect_token_entry self new_entry =
     (let s = entry_scan (entry_mac new_entry) (connect_token_entries self)
      in case matching_entry s of
           Some entry \<Rightarrow> Some (self, entry_socket_id entry = entry_socket_id new_entry \<and> entry_address entry = entry_address new_entry)
         | None \<Rightarrow> do {
             entries \<leftarrow> set_index (connect_token_entries self) (oldest_entry s) (Some new_entry);
             Some (self\<lparr>connect_token_entries := entries\<rparr>, True)
           })"
subsection \<open>Sending\<close>

text \<open>Encoding into \<open>self.out\<close> for a socket, and the bytes written there.\<close>

definition server_encode ::
  "aead_lib \<Rightarrow> NetcodeServer \<Rightarrow> NetcodePacket \<Rightarrow> u64 \<Rightarrow> bytes \<Rightarrow> nat \<Rightarrow> (NetcodeServer \<times> (NetcodeError + bytes)) option" where
  "server_encode lib self packet sequence key socket_id = do {
     socket \<leftarrow> index (sockets self) socket_id;
     (buffer, r) \<leftarrow> packet_encode lib packet (sv_out self) (sv_protocol_id self) (Some (sequence, key)) (needs_encryption socket);
     case r of Inl e \<Rightarrow> Some (self\<lparr>sv_out := buffer\<rparr>, Inl e)
     | Inr len \<Rightarrow> do { bs \<leftarrow> slice_range buffer 0 len; Some (self\<lparr>sv_out := buffer\<rparr>, Inr bs) }
   }"

definition send_with_global_sequence ::
  "aead_lib \<Rightarrow> NetcodeServer \<Rightarrow> NetcodePacket \<Rightarrow> bytes \<Rightarrow> nat \<Rightarrow> (NetcodeServer \<times> (NetcodeError + bytes)) option" where
  "send_with_global_sequence lib self packet key socket_id = do {
     (self, r) \<leftarrow> server_encode lib self packet (global_sequence self) key socket_id;
     case r of Inl e \<Rightarrow> Some (self, Inl e)
     | Inr bs \<Rightarrow> do {
         sequence \<leftarrow> checked_add_u64 (global_sequence self) 1;
         Some (self\<lparr>global_sequence := sequence\<rparr>, Inr bs)
       }
   }"

definition set_client :: "NetcodeServer \<Rightarrow> nat \<Rightarrow> NetcodeConnection option \<Rightarrow> NetcodeServer option" where
  "set_client self slot c = do { cs \<leftarrow> set_index (clients self) slot c; Some (self\<lparr>clients := cs\<rparr>) }"

definition sv_generate_payload_packet ::
  "aead_lib \<Rightarrow> NetcodeServer \<Rightarrow> u64 \<Rightarrow> bytes \<Rightarrow> (NetcodeServer \<times> (NetcodeError + nat \<times> SocketAddr \<times> bytes)) option" where
  "sv_generate_payload_packet lib self client_id payload =
     (if length payload > NETCODE_MAX_PAYLOAD_BYTES then Some (self, Inl PayloadAboveLimit)
      else case find_client_mut_by_id (clients self) client_id of
        None \<Rightarrow> Some (self, Inl NetcodeClientNotFound)
      | Some (slot, client) \<Rightarrow> do {
          (self, r) \<leftarrow> server_encode lib self (Payload payload) (cn_sequence client) (send_key client) (cn_socket_id client);
          case r of Inl e \<Rightarrow> Some (self, Inl e)
          | Inr bs \<Rightarrow> do {
              sequence \<leftarrow> checked_add_u64 (cn_sequence client) 1;
              self \<leftarrow> set_client self slot (Some (client\<lparr>cn_sequence := sequence, cn_last_packet_send_time := sv_current_time self\<rparr>));
              Some (self, Inr (cn_socket_id client, cn_addr client, bs))
            }
        })"

subsection \<open>Connection requests\<close>

definition new_pending :: "NetcodeServer \<Rightarrow> nat \<Rightarrow> SocketAddr \<Rightarrow> u64 \<Rightarrow> PrivateConnectToken \<Rightarrow> NetcodeConnection" where
  "new_pending self socket_id addr expire_timestamp token =
     \<lparr>confirmed = False, cn_client_id = pt_client_id token, cn_state = PendingResponse, send_key = pt_server_to_client_key token,
       receive_key = pt_client_to_server_key token, cn_user_data = pt_user_data token, cn_socket_id = socket_id, cn_addr = addr,
       cn_last_packet_received_time = sv_current_time self, cn_last_packet_send_time = sv_current_time self,
       cn_timeout_seconds = pt_timeout_seconds token, cn_sequence = 0, cn_expire_timestamp = expire_timestamp,
       cn_replay_protection = replay_new\<rparr>"

text \<open>The challenge of an accepted request. An entry that is pending already keeps its keys and its client id.\<close>

definition accept_request ::
  "aead_lib \<Rightarrow> NetcodeServer \<Rightarrow> nat \<Rightarrow> SocketAddr \<Rightarrow> u64 \<Rightarrow> PrivateConnectToken \<Rightarrow> (NetcodeServer \<times> (NetcodeError + ServerResult)) option" where
  "accept_request lib self socket_id addr expire_timestamp token = do {
     sequence \<leftarrow> checked_add_u64 (challenge_sequence self) 1;
     let self = self\<lparr>challenge_sequence := sequence\<rparr>;
     case generate_challenge lib (pt_client_id token) (pt_user_data token) (challenge_sequence self) (challenge_key self) of
       Panic \<Rightarrow> None | Err e \<Rightarrow> Some (self, Inl e)
     | Ok packet \<Rightarrow> do {
         (self, r) \<leftarrow> send_with_global_sequence lib self packet (pt_server_to_client_key token) socket_id;
         case r of Inl e \<Rightarrow> Some (self, Inl e)
         | Inr bs \<Rightarrow> do {
             let pending = (case map_of (pending_clients self) (socket_id, addr) of Some c \<Rightarrow> c
               | None \<Rightarrow> new_pending self socket_id addr expire_timestamp token);
             let pending = pending\<lparr>cn_last_packet_received_time := sv_current_time self, cn_last_packet_send_time := sv_current_time self\<rparr>;
             Some (self\<lparr>pending_clients := AList.update (socket_id, addr) pending (pending_clients self)\<rparr>,
               Inr (ConnectionAccepted (pt_client_id token) socket_id addr bs))
           }
       }
   }"

definition in_host_list :: "NetcodeServer \<Rightarrow> nat \<Rightarrow> PrivateConnectToken \<Rightarrow> bool" where
  "in_host_list self socket_id token =
     list_ex (\<lambda>a. a \<in> set (public_addresses (sockets self ! socket_id))) (hosts_of (pt_server_addresses token))"

text \<open>The part of a valid request after the checks of the token.\<close>

definition admit_request ::
  "aead_lib \<Rightarrow> NetcodeServer \<Rightarrow> nat \<Rightarrow> SocketAddr \<Rightarrow> u64 \<Rightarrow> bytes \<Rightarrow> PrivateConnectToken \<Rightarrow> (NetcodeServer \<times> (NetcodeError + ServerResult)) option" where
  "admit_request lib self socket_id addr expire_timestamp data token =
     (case find_client_mut_by_addr (clients self) socket_id addr of
        Some (_, connection) \<Rightarrow>
          if cn_client_id connection = pt_client_id token then Some (self, Inr NoResult)
          else Some (self, Inr (ResultConnectionDenied socket_id addr None))
      | None \<Rightarrow>
        if find_client_mut_by_id (clients self) (pt_client_id token) \<noteq> None then
          Some (self, Inr (ResultConnectionDenied socket_id addr None))
        else if map_of (pending_clients self) (socket_id, addr) = None \<and> length (pending_clients self) \<ge> NETCODE_MAX_PENDING_CLIENTS then
          Some (self, Inr (ResultConnectionDenied socket_id addr None))
        else do {
          let mac = drop (NETCODE_CONNECT_TOKEN_PRIVATE_BYTES - NETCODE_MAC_BYTES) data;
          (self, ok) \<leftarrow> find_or_add_connect_token_entry self
            \<lparr>entry_time = sv_current_time self, entry_socket_id = socket_id, entry_address = addr, entry_mac = mac\<rparr>;
          if \<not> ok then Some (self, Inr (ResultConnectionDenied socket_id addr None))
          else if length (flatten (clients self)) \<ge> sv_max_clients self then do {
            let self = self\<lparr>pending_clients := AList.delete (socket_id, addr) (pending_clients self)\<rparr>;
            (self, r) \<leftarrow> send_with_global_sequence lib self ConnectionDeniedPacket (pt_server_to_client_key token) socket_id;
            case r of Inl e \<Rightarrow> Some (self, Inl e)
            | Inr bs \<Rightarrow> Some (self, Inr (ResultConnectionDenied socket_id addr (Some bs)))
          }
          else accept_request lib self socket_id addr expire_timestamp token
        })"

definition handle_connection_request ::
  "aead_lib \<Rightarrow> NetcodeServer \<Rightarrow> nat \<Rightarrow> SocketAddr \<Rightarrow> bytes \<Rightarrow> u64 \<Rightarrow> u64 \<Rightarrow> bytes \<Rightarrow> bytes
     \<Rightarrow> (NetcodeServer \<times> (NetcodeError + ServerResult)) option" where
  "handle_connection_request lib self socket_id addr version_info protocol_id expire_timestamp xnonce data =
     (if version_info \<noteq> NETCODE_VERSION_INFO then Some (self, Inl InvalidVersion)
      else if protocol_id \<noteq> sv_protocol_id self then Some (self, Inl InvalidProtocolID)
      else if as_secs (sv_current_time self) \<ge> unat expire_timestamp then Some (self, Inl NetcodeExpired)
      else case private_decode lib data (sv_protocol_id self) expire_timestamp xnonce (connect_key self) of
        Panic \<Rightarrow> None | Err e \<Rightarrow> Some (self, Inl (TokenError e))
      | Ok connect_token \<Rightarrow>
        if socket_id \<ge> length (sockets self) then Some (self, Inl InvalidSocketId)
        else if socket_id \<noteq> unat (pt_socket_id connect_token) then Some (self, Inl InvalidSocketId)
        else if secure self \<and> \<not> in_host_list self socket_id connect_token then Some (self, Inl NotInHostList)
        else admit_request lib self socket_id addr expire_timestamp data connect_token)"

subsection \<open>Packets\<close>

fun request_of :: "NetcodePacket \<Rightarrow> (bytes \<times> u64 \<times> u64 \<times> bytes \<times> bytes) option" where
  "request_of (ConnectionRequest version_info protocol_id expire_timestamp xnonce data) =
     Some (version_info, protocol_id, expire_timestamp, xnonce, data)"
| "request_of _ = None"

definition handle_request_packet ::
  "aead_lib \<Rightarrow> NetcodeServer \<Rightarrow> nat \<Rightarrow> SocketAddr \<Rightarrow> bytes \<times> u64 \<times> u64 \<times> bytes \<times> bytes \<Rightarrow> (NetcodeServer \<times> (NetcodeError + ServerResult)) option" where
  "handle_request_packet lib self socket_id addr = (\<lambda>(version_info, protocol_id, expire_timestamp, xnonce, data).
     handle_connection_request lib self socket_id addr version_info protocol_id expire_timestamp xnonce data)"

text \<open>A packet from a connected address; the slot already holds the advanced replay protection.\<close>

definition handle_connected ::
  "NetcodeServer \<Rightarrow> nat \<Rightarrow> NetcodeConnection \<Rightarrow> nat \<Rightarrow> SocketAddr \<Rightarrow> NetcodePacket \<Rightarrow> (NetcodeServer \<times> (NetcodeError + ServerResult)) option" where
  "handle_connected self slot client socket_id addr packet = do {
     let client = client\<lparr>cn_last_packet_received_time := sv_current_time self\<rparr>;
     self \<leftarrow> set_client self slot (Some client);
     if cn_state client \<noteq> ConnConnected then Some (self, Inr NoResult)
     else case packet of
       Disconnect \<Rightarrow> do {
         self \<leftarrow> set_client self slot None;
         Some (self, Inr (ResultClientDisconnected (cn_client_id client) socket_id addr None))
       }
     | Payload payload \<Rightarrow> do {
         self \<leftarrow> set_client self slot (Some (client\<lparr>confirmed := True\<rparr>));
         Some (self, Inr (ResultPayload (cn_client_id client) payload))
       }
     | KeepAlive _ _ \<Rightarrow> do {
         self \<leftarrow> set_client self slot (Some (client\<lparr>confirmed := True\<rparr>));
         Some (self, Inr NoResult)
       }
     | _ \<Rightarrow> Some (self, Inr NoResult)
   }"

text \<open>A response, when the pending entry has been removed.\<close>

definition connect_pending ::
  "aead_lib \<Rightarrow> NetcodeServer \<Rightarrow> nat \<Rightarrow> SocketAddr \<Rightarrow> NetcodeConnection \<Rightarrow> ChallengeToken \<Rightarrow> (NetcodeServer \<times> (NetcodeError + ServerResult)) option" where
  "connect_pending lib self socket_id addr pending challenge_token =
     (if find_client_slot_by_id (clients self) (ch_client_id challenge_token) \<noteq> None then Some (self, Inr NoResult)
      else case position (\<lambda>c. c = None) (clients self) of
        None \<Rightarrow> do {
          (self, r) \<leftarrow> send_with_global_sequence lib self ConnectionDeniedPacket (send_key pending) socket_id;
          case r of Inl e \<Rightarrow> Some (self, Inl e)
          | Inr bs \<Rightarrow> Some (self, Inr (ResultConnectionDenied socket_id addr (Some bs)))
        }
      | Some client_index \<Rightarrow> do {
          let pending = pending\<lparr>cn_state := ConnConnected, cn_user_data := ch_user_data challenge_token,
            cn_last_packet_send_time := sv_current_time self\<rparr>;
          (self, r) \<leftarrow> server_encode lib self (KeepAlive (word_of_nat client_index) (word_of_nat (sv_max_clients self)))
            (cn_sequence pending) (send_key pending) socket_id;
          case r of Inl e \<Rightarrow> Some (self, Inl e)
          | Inr bs \<Rightarrow> do {
              sequence \<leftarrow> checked_add_u64 (cn_sequence pending) 1;
              let pending = pending\<lparr>cn_sequence := sequence\<rparr>;
              self \<leftarrow> set_client self client_index (Some pending);
              Some (self, Inr (ResultClientConnected (cn_client_id pending) socket_id addr (cn_user_data pending) bs))
            }
        })"

definition handle_pending ::
  "aead_lib \<Rightarrow> NetcodeServer \<Rightarrow> nat \<Rightarrow> SocketAddr \<Rightarrow> NetcodeConnection \<Rightarrow> NetcodePacket \<Rightarrow> (NetcodeServer \<times> (NetcodeError + ServerResult)) option" where
  "handle_pending lib self socket_id addr pending packet = do {
     let pending = pending\<lparr>cn_last_packet_received_time := sv_current_time self\<rparr>;
     let self = self\<lparr>pending_clients := AList.update (socket_id, addr) pending (pending_clients self)\<rparr>;
     case request_of packet of Some request \<Rightarrow> handle_request_packet lib self socket_id addr request
     | None \<Rightarrow> (case packet of
         Response token_sequence token_data \<Rightarrow>
           (case challenge_token_decode lib token_data token_sequence (challenge_key self) of
              Panic \<Rightarrow> None | Err e \<Rightarrow> Some (self, Inl e)
            | Ok challenge_token \<Rightarrow>
                let self = self\<lparr>pending_clients := AList.delete (socket_id, addr) (pending_clients self)\<rparr>
                in connect_pending lib self socket_id addr pending challenge_token)
       | _ \<Rightarrow> Some (self, Inr NoResult))
   }"

definition process_packet_internal ::
  "aead_lib \<Rightarrow> NetcodeServer \<Rightarrow> nat \<Rightarrow> SocketAddr \<Rightarrow> bytes \<Rightarrow> (NetcodeServer \<times> (NetcodeError + ServerResult)) option" where
  "process_packet_internal lib self socket_id addr buffer =
     (if length buffer < 2 + NETCODE_MAC_BYTES then Some (self, Inl PacketTooSmall)
      else case find_client_mut_by_addr (clients self) socket_id addr of
        Some (slot, client) \<Rightarrow> do {
          socket \<leftarrow> index (sockets self) socket_id;
          (rp, r) \<leftarrow> packet_decode lib buffer (sv_protocol_id self) (Some (receive_key client)) (Some (cn_replay_protection client)) (needs_encryption socket);
          let client = (case rp of None \<Rightarrow> client | Some rp \<Rightarrow> client\<lparr>cn_replay_protection := rp\<rparr>);
          self \<leftarrow> set_client self slot (Some client);
          case r of Inl e \<Rightarrow> Some (self, Inl e)
          | Inr (_, packet) \<Rightarrow> handle_connected self slot client socket_id addr packet
        }
      | None \<Rightarrow> (case map_of (pending_clients self) (socket_id, addr) of
        Some pending \<Rightarrow> do {
          socket \<leftarrow> index (sockets self) socket_id;
          (rp, r) \<leftarrow> packet_decode lib buffer (sv_protocol_id self) (Some (receive_key pending)) (Some (cn_replay_protection pending)) (needs_encryption socket);
          let pending = (case rp of None \<Rightarrow> pending | Some rp \<Rightarrow> pending\<lparr>cn_replay_protection := rp\<rparr>);
          let self = self\<lparr>pending_clients := AList.update (socket_id, addr) pending (pending_clients self)\<rparr>;
          case r of Inl e \<Rightarrow> Some (self, Inl e)
          | Inr (_, packet) \<Rightarrow> handle_pending lib self socket_id addr pending packet
        }
      | None \<Rightarrow> do {
          socket \<leftarrow> index (sockets self) socket_id;
          (_, r) \<leftarrow> packet_decode lib buffer (sv_protocol_id self) None None (needs_encryption socket);
          case r of Inl e \<Rightarrow> Some (self, Inl e)
          | Inr (_, packet) \<Rightarrow> (case request_of packet of Some request \<Rightarrow> handle_request_packet lib self socket_id addr request
            | None \<Rightarrow> None)
        }))"

definition sv_process_packet ::
  "aead_lib \<Rightarrow> NetcodeServer \<Rightarrow> nat \<Rightarrow> SocketAddr \<Rightarrow> bytes \<Rightarrow> (NetcodeServer \<times> ServerResult) option" where
  "sv_process_packet lib self socket_id addr buffer = do {
     (self, r) \<leftarrow> process_packet_internal lib self socket_id addr buffer;
     Some (self, case r of Inl _ \<Rightarrow> ResultError socket_id addr | Inr result \<Rightarrow> result)
   }"

subsection \<open>Time and disconnection\<close>

definition sv_update :: "NetcodeServer \<Rightarrow> duration \<Rightarrow> NetcodeServer" where
  "sv_update self elapsed =
     (let self = self\<lparr>sv_current_time := sv_current_time self + elapsed\<rparr>;
          marked = map (\<lambda>(k, c). (k, if as_secs (sv_current_time self) > unat (cn_expire_timestamp c) then c\<lparr>cn_state := ConnDisconnected\<rparr> else c))
            (pending_clients self)
      in self\<lparr>pending_clients := filter (\<lambda>(k, c). cn_state c \<noteq> ConnDisconnected) marked\<rparr>)"

text \<open>A disconnect packet for a client that has left its slot.\<close>

definition disconnect_result ::
  "aead_lib \<Rightarrow> NetcodeServer \<Rightarrow> u64 \<Rightarrow> NetcodeConnection \<Rightarrow> (NetcodeServer \<times> ServerResult) option" where
  "disconnect_result lib self client_id client = do {
     (self, r) \<leftarrow> server_encode lib self Disconnect (cn_sequence client) (send_key client) (cn_socket_id client);
     Some (self, ResultClientDisconnected client_id (cn_socket_id client) (cn_addr client) (case r of Inl _ \<Rightarrow> None | Inr bs \<Rightarrow> Some bs))
   }"

definition sv_timed_out :: "NetcodeServer \<Rightarrow> NetcodeConnection \<Rightarrow> bool" where
  "sv_timed_out self client \<longleftrightarrow> sint (cn_timeout_seconds client) > 0 \<and>
     cn_last_packet_received_time client + from_secs (unat (cn_timeout_seconds client)) < sv_current_time self"

definition update_client :: "aead_lib \<Rightarrow> NetcodeServer \<Rightarrow> u64 \<Rightarrow> (NetcodeServer \<times> ServerResult) option" where
  "update_client lib self client_id = (case find_client_slot_by_id (clients self) client_id of
     None \<Rightarrow> Some (self, NoResult)
   | Some slot \<Rightarrow> do {
       entry \<leftarrow> index (clients self) slot;
       case entry of None \<Rightarrow> Some (self, NoResult)
       | Some client \<Rightarrow> do {
           let client = (if sv_timed_out self client then client\<lparr>cn_state := ConnDisconnected\<rparr> else client);
           self \<leftarrow> set_client self slot (Some client);
           if cn_state client = ConnDisconnected then do {
             self \<leftarrow> set_client self slot None;
             disconnect_result lib self client_id client
           }
           else if cn_last_packet_send_time client + NETCODE_SEND_RATE \<le> sv_current_time self then do {
             (self, r) \<leftarrow> server_encode lib self (KeepAlive (word_of_nat slot) (word_of_nat (sv_max_clients self)))
               (cn_sequence client) (send_key client) (cn_socket_id client);
             case r of Inl _ \<Rightarrow> Some (self, NoResult)
             | Inr bs \<Rightarrow> do {
                 sequence \<leftarrow> checked_add_u64 (cn_sequence client) 1;
                 self \<leftarrow> set_client self slot (Some (client\<lparr>cn_sequence := sequence, cn_last_packet_send_time := sv_current_time self\<rparr>));
                 Some (self, PacketToSend (cn_socket_id client) (cn_addr client) bs)
               }
           }
           else Some (self, NoResult)
         }
     })"

definition sv_disconnect :: "aead_lib \<Rightarrow> NetcodeServer \<Rightarrow> u64 \<Rightarrow> (NetcodeServer \<times> ServerResult) option" where
  "sv_disconnect lib self client_id = (case find_client_slot_by_id (clients self) client_id of
     None \<Rightarrow> Some (self, NoResult)
   | Some slot \<Rightarrow> do {
       entry \<leftarrow> index (clients self) slot;
       client \<leftarrow> entry;
       self \<leftarrow> set_client self slot None;
       disconnect_result lib self client_id client
     })"
subsection \<open>Lookups\<close>

lemma position_Some: "position P xs = Some i \<Longrightarrow> i < length xs \<and> P (xs ! i)"
proof (induction xs arbitrary: i)
  case (Cons x xs)
  then show ?case
    by (cases "P x") auto
qed simp

lemma position_None: "position P xs = None \<longleftrightarrow> (\<forall>x \<in> set xs. \<not> P x)"
  by (induction xs) auto

lemma set_flatten: "c \<in> set (flatten xs) \<longleftrightarrow> Some c \<in> set xs"
  by (force simp: flatten_def)

lemma flatten_Cons: "flatten (x # xs) = (case x of None \<Rightarrow> flatten xs | Some y \<Rightarrow> y # flatten xs)"
  by (simp add: flatten_def split: option.splits)

lemma flatten_update: "i < length cs \<Longrightarrow> cs ! i = Some c \<Longrightarrow> \<exists>a b. flatten cs = a @ c # b \<and> flatten (cs[i := Some c']) = a @ c' # b \<and> flatten (cs[i := None]) = a @ b"
proof (induction cs arbitrary: i)
  case (Cons x cs)
  show ?case
  proof (cases i)
    case 0
    then show ?thesis
      using Cons.prems by (intro exI [of _ "[]"] exI [of _ "flatten cs"]) (simp add: flatten_Cons)
  next
    case (Suc j)
    then obtain a b where "flatten cs = a @ c # b" "flatten (cs[j := Some c']) = a @ c' # b" "flatten (cs[j := None]) = a @ b"
      using Cons.IH [of j] Cons.prems by auto
    then show ?thesis
      using Suc by (intro exI [of _ "(case x of None \<Rightarrow> a | Some y \<Rightarrow> y # a)"] exI [of _ b]) (simp add: flatten_Cons split: option.splits)
  qed
qed simp

lemma flatten_insert: "i < length cs \<Longrightarrow> cs ! i = None \<Longrightarrow> \<exists>a b. flatten cs = a @ b \<and> flatten (cs[i := Some c]) = a @ c # b"
proof (induction cs arbitrary: i)
  case (Cons x cs)
  show ?case
  proof (cases i)
    case 0
    then show ?thesis
      using Cons.prems by (intro exI [of _ "[]"] exI [of _ "flatten cs"]) (simp add: flatten_Cons)
  next
    case (Suc j)
    then obtain a b where "flatten cs = a @ b" "flatten (cs[j := Some c]) = a @ c # b"
      using Cons.IH [of j] Cons.prems by auto
    then show ?thesis
      using Suc by (intro exI [of _ "(case x of None \<Rightarrow> a | Some y \<Rightarrow> y # a)"] exI [of _ b]) (simp add: flatten_Cons split: option.splits)
  qed
qed simp

lemma length_flatten: "length (flatten xs) \<le> length xs"
  by (simp add: flatten_def)

lemma position_free: "position (\<lambda>c. c = None) xs = None \<longleftrightarrow> length (flatten xs) = length xs"
proof
  assume "position (\<lambda>c. c = None) xs = None"
  then show "length (flatten xs) = length xs"
    by (simp add: position_None flatten_def)
next
  assume "length (flatten xs) = length xs"
  then have len: "length (filter (\<lambda>x. x \<noteq> None) xs) = length xs"
    by (simp add: flatten_def)
  have "x \<noteq> None" if "x \<in> set xs" for x
    using length_filter_less [OF that, of "\<lambda>x. x \<noteq> None"] len by auto
  then show "position (\<lambda>c. c = None) xs = None"
    by (simp add: position_None)
qed

lemma at_slot_position:
  "at_slot cs (position P cs) = Some (i, c) \<Longrightarrow> i < length cs \<and> cs ! i = Some c \<and> P (Some c)"
  by (auto simp: at_slot_def split: option.splits dest: position_Some)

lemma at_slot_None: "\<not> P None \<Longrightarrow> at_slot cs (position P cs) = None \<longleftrightarrow> (\<forall>c \<in> set (flatten cs). \<not> P (Some c))"
proof -
  assume P: "\<not> P None"
  have "at_slot cs (position P cs) = None \<longleftrightarrow> position P cs = None"
  proof (cases "position P cs")
    case (Some i)
    then have "P (cs ! i)"
      by (simp add: position_Some)
    then have "cs ! i \<noteq> None"
      using P by metis
    then show ?thesis
      using Some by (simp add: at_slot_def)
  qed (simp add: at_slot_def)
  also have "\<dots> \<longleftrightarrow> (\<forall>c \<in> set (flatten cs). \<not> P (Some c))"
  proof
    assume "position P cs = None"
    then show "\<forall>c \<in> set (flatten cs). \<not> P (Some c)"
      by (simp add: position_None set_flatten)
  next
    assume none: "\<forall>c \<in> set (flatten cs). \<not> P (Some c)"
    have "\<not> P x" if "x \<in> set cs" for x
      by (metis none P set_flatten option.exhaust that)
    then show "position P cs = None"
      by (simp add: position_None)
  qed
  finally show ?thesis .
qed

lemma find_by_addr_Some:
  "find_client_mut_by_addr cs socket_id addr = Some (i, c) \<Longrightarrow> i < length cs \<and> cs ! i = Some c \<and> cn_socket_id c = socket_id \<and> cn_addr c = addr"
  by (auto simp: find_client_mut_by_addr_def has_addr_def dest: at_slot_position)

lemma find_by_addr_None:
  "find_client_mut_by_addr cs socket_id addr = None \<longleftrightarrow> (socket_id, addr) \<notin> (\<lambda>c. (cn_socket_id c, cn_addr c)) ` set (flatten cs)"
  unfolding find_client_mut_by_addr_def by (subst at_slot_None) (auto simp: has_addr_def)

lemma find_by_id_Some: "find_client_mut_by_id cs client_id = Some (i, c) \<Longrightarrow> i < length cs \<and> cs ! i = Some c \<and> cn_client_id c = client_id"
  by (auto simp: find_client_mut_by_id_def has_id_def dest: at_slot_position)

lemma find_by_id_None: "find_client_mut_by_id cs client_id = None \<longleftrightarrow> client_id \<notin> cn_client_id ` set (flatten cs)"
  unfolding find_client_mut_by_id_def by (subst at_slot_None) (auto simp: has_id_def)

lemma find_slot_by_id_Some: "find_client_slot_by_id cs client_id = Some i \<Longrightarrow> i < length cs \<and> (\<exists>c. cs ! i = Some c \<and> cn_client_id c = client_id)"
  by (auto simp: find_client_slot_by_id_def has_id_def dest!: position_Some split: option.splits)

lemma find_slot_by_id_None: "find_client_slot_by_id cs client_id = None \<longleftrightarrow> client_id \<notin> cn_client_id ` set (flatten cs)"
proof -
  have "find_client_slot_by_id cs client_id = None \<longleftrightarrow> find_client_mut_by_id cs client_id = None"
    by (auto simp: find_client_slot_by_id_def find_client_mut_by_id_def at_slot_def has_id_def split: option.splits dest!: position_Some)
  then show ?thesis
    by (simp add: find_by_id_None)
qed

subsection \<open>Token entries\<close>

lemma entry_step_fields:
  "matching_entry (entry_step m (i, e) s) = (case e of Some e' \<Rightarrow> if entry_mac e' = m then Some e' else matching_entry s | None \<Rightarrow> matching_entry s)"
  "oldest_entry (entry_step m (i, e) s) = i \<or> oldest_entry (entry_step m (i, e) s) = oldest_entry s"
  by (auto simp: entry_step_def Let_def split: option.splits)

lemma entry_fold_matching:
  "matching_entry (fold (entry_step m) xs s) = None \<longleftrightarrow> matching_entry s = None \<and> (\<forall>(i, e) \<in> set xs. \<forall>e'. e = Some e' \<longrightarrow> entry_mac e' \<noteq> m)"
proof (induction xs arbitrary: s)
  case (Cons x xs)
  obtain i e where x: "x = (i, e)"
    by (cases x)
  have "matching_entry (entry_step m (i, e) s) = None \<longleftrightarrow> matching_entry s = None \<and> (\<forall>e'. e = Some e' \<longrightarrow> entry_mac e' \<noteq> m)"
    by (cases e) (auto simp: entry_step_fields)
  then show ?case
    using Cons x by auto
qed simp

lemma entry_fold_matches:
  "matching_entry (fold (entry_step m) xs s) = Some e' \<Longrightarrow> matching_entry s = Some e' \<or> Some e' \<in> snd ` set xs \<and> entry_mac e' = m"
proof (induction xs arbitrary: s)
  case (Cons x xs)
  then have "matching_entry (entry_step m x s) = Some e' \<or> Some e' \<in> snd ` set xs \<and> entry_mac e' = m"
    by simp
  then show ?case
    by (cases x) (auto simp: entry_step_fields split: option.splits if_splits)
qed simp

lemma entry_fold_oldest:
  "(\<forall>(i, e) \<in> set xs. i < n) \<Longrightarrow> oldest_entry s < n \<Longrightarrow> oldest_entry (fold (entry_step m) xs s) < n"
proof (induction xs arbitrary: s)
  case (Cons x xs)
  obtain i e where x: "x = (i, e)"
    by (cases x)
  have "oldest_entry (entry_step m (i, e) s) < n"
    using entry_step_fields(2) [of m i e s] Cons.prems x by auto
  then show ?case
    using Cons x by simp
qed simp

text \<open>
  A token is tied to the first address that used it: the scan finds an entry exactly when its tag is known, and
  otherwise there is a slot for it.
\<close>

lemma find_or_add_entry:
  assumes "connect_token_entries self \<noteq> []"
  obtains
    (known) e where "Some e \<in> set (connect_token_entries self)" "entry_mac e = entry_mac new"
      "find_or_add_connect_token_entry self new = Some (self, entry_socket_id e = entry_socket_id new \<and> entry_address e = entry_address new)"
  | (added) i where "\<forall>e. Some e \<in> set (connect_token_entries self) \<longrightarrow> entry_mac e \<noteq> entry_mac new" "i < length (connect_token_entries self)"
      "find_or_add_connect_token_entry self new = Some (self\<lparr>connect_token_entries := (connect_token_entries self)[i := Some new]\<rparr>, True)"
proof -
  let ?es = "connect_token_entries self"
  let ?xs = "zip [0..<length ?es] ?es"
  let ?s = "\<lparr>es_min = None, oldest_entry = 0, empty_entry = False, matching_entry = None\<rparr>"
  have in_set: "Some e \<in> set ?es" if "Some e \<in> snd ` set ?xs" for e
    using that by (auto dest: set_zip_rightD)
  have occurs: "\<exists>i. (i, Some e) \<in> set ?xs" if mem: "Some e \<in> set ?es" for e
  proof -
    obtain i where "i < length ?es" "?es ! i = Some e"
      using mem by (auto simp: in_set_conv_nth)
    then have "?xs ! i = (i, Some e)" "i < length ?xs"
      by simp_all
    then show ?thesis
      by (metis nth_mem)
  qed
  have small: "\<forall>(i, e) \<in> set ?xs. i < length ?es"
    by (auto dest: set_zip_leftD)
  show thesis
  proof (cases "matching_entry (fold (entry_step (entry_mac new)) ?xs ?s)")
    case (Some e)
    then have "Some e \<in> set ?es" "entry_mac e = entry_mac new"
      using entry_fold_matches [OF Some] in_set by auto
    then show thesis
      using Some known by (simp add: find_or_add_connect_token_entry_def entry_scan_def Let_def)
  next
    case None
    have old: "oldest_entry (fold (entry_step (entry_mac new)) ?xs ?s) < length ?es"
      using assms by (intro entry_fold_oldest [OF small]) simp
    have "\<forall>e. Some e \<in> set ?es \<longrightarrow> entry_mac e \<noteq> entry_mac new"
    proof (intro allI impI)
      fix e
      assume "Some e \<in> set ?es"
      then obtain i where "(i, Some e) \<in> set ?xs"
        using occurs by blast
      then show "entry_mac e \<noteq> entry_mac new"
        using None unfolding entry_fold_matching by auto
    qed
    then show thesis
      using added [OF _ old] None old by (simp add: find_or_add_connect_token_entry_def entry_scan_def Let_def)
  qed
qed

end
