(* ===== verification/Netcode_Server_Invariant.thy ===== *)
theory Netcode_Server_Invariant
  imports Netcode_Server
begin

text \<open>
  The invariant of the netcode server and that every operation keeps it: no address is connected twice, none is
  both connected and pending, every connection belongs to a socket of the server, and the pending clients are
  bounded. The theory also shows which operations cannot panic.
\<close>

definition addr_of :: "NetcodeConnection \<Rightarrow> nat \<times> SocketAddr" where
  "addr_of c = (cn_socket_id c, cn_addr c)"

definition conn_ok :: "NetcodeServer \<Rightarrow> NetcodeConnection \<Rightarrow> bool" where
  "conn_ok self c \<longleftrightarrow> cn_socket_id c < length (sockets self) \<and> length (cn_user_data c) = 256 \<and>
     cn_last_packet_received_time c \<le> sv_current_time self \<and> cn_last_packet_send_time c \<le> sv_current_time self \<and>
     (\<exists>acc. replay_inv acc (cn_replay_protection c))"

definition pending_ok :: "NetcodeServer \<Rightarrow> (nat \<times> SocketAddr) \<times> NetcodeConnection \<Rightarrow> bool" where
  "pending_ok self = (\<lambda>(k, c). k = addr_of c \<and> conn_ok self c \<and> cn_state c = PendingResponse)"

definition sv_inv :: "NetcodeServer \<Rightarrow> bool" where
  "sv_inv self \<longleftrightarrow> length (sv_out self) = 1400 \<and> connect_token_entries self \<noteq> [] \<and>
     distinct (map fst (pending_clients self)) \<and> (\<forall>p \<in> set (pending_clients self). pending_ok self p) \<and>
     (\<forall>c \<in> set (flatten (clients self)). conn_ok self c \<and> cn_state c = ConnConnected) \<and>
     distinct (map addr_of (flatten (clients self))) \<and>
     fst ` set (pending_clients self) \<inter> addr_of ` set (flatten (clients self)) = {} \<and>
     length (pending_clients self) \<le> NETCODE_MAX_PENDING_CLIENTS"

text \<open>The invariant sees the state through these fields only.\<close>

lemma sv_inv_cong:
  assumes "sv_inv self" "clients self' = clients self" "pending_clients self' = pending_clients self" "sockets self' = sockets self"
    "sv_current_time self \<le> sv_current_time self'" "length (sv_out self') = 1400" "connect_token_entries self' \<noteq> []"
  shows "sv_inv self'"
proof -
  have "conn_ok self c \<Longrightarrow> conn_ok self' c" for c
    using assms(4,5) by (auto simp: conn_ok_def)
  then show ?thesis
    using assms by (auto simp: sv_inv_def pending_ok_def)
qed

lemma AList_update_subset: "set (AList.update k v al) \<subseteq> insert (k, v) (set al)"
  by (induction al) auto

lemma length_AList_update: "length (AList.update k v al) = (if map_of al k = None then Suc (length al) else length al)"
  by (induction al) auto

lemma length_AList_delete: "length (AList.delete k al) \<le> length al"
  by (simp add: AList.delete_eq)

lemma map_of_NoneE: "map_of al k = None \<longleftrightarrow> k \<notin> fst ` set al"
  by (simp add: map_of_eq_None_iff)

subsection \<open>Changes of the slots and of the pending clients\<close>

lemma sv_inv_pending_update:
  assumes inv: "sv_inv self" and p: "pending_ok self ((socket_id, addr), c)" and free: "find_client_mut_by_addr (clients self) socket_id addr = None"
    and room: "map_of (pending_clients self) (socket_id, addr) = None \<Longrightarrow> length (pending_clients self) < NETCODE_MAX_PENDING_CLIENTS"
  shows "sv_inv (self\<lparr>pending_clients := AList.update (socket_id, addr) c (pending_clients self)\<rparr>)" (is "sv_inv ?s")
proof -
  have same: "conn_ok ?s = conn_ok self" "pending_ok ?s = pending_ok self"
    by (auto simp: conn_ok_def pending_ok_def fun_eq_iff)
  have "(socket_id, addr) \<notin> addr_of ` set (flatten (clients self))"
    using free by (simp add: find_by_addr_None addr_of_def)
  moreover have "\<forall>p \<in> set (AList.update (socket_id, addr) c (pending_clients self)). pending_ok self p"
    using inv p AList_update_subset [of "(socket_id, addr)" c "pending_clients self"] by (auto simp: sv_inv_def)
  moreover have "fst ` set (AList.update (socket_id, addr) c (pending_clients self)) = insert (socket_id, addr) (fst ` set (pending_clients self))"
    by (simp add: dom_update)
  ultimately show ?thesis
    using inv room by (auto simp: sv_inv_def same distinct_update length_AList_update)
qed

lemma sv_inv_pending_delete: "sv_inv self \<Longrightarrow> sv_inv (self\<lparr>pending_clients := AList.delete k (pending_clients self)\<rparr>)" (is "_ \<Longrightarrow> sv_inv ?s")
proof -
  assume inv: "sv_inv self"
  have same: "conn_ok ?s = conn_ok self" "pending_ok ?s = pending_ok self"
    by (auto simp: conn_ok_def pending_ok_def fun_eq_iff)
  have sub: "set (AList.delete k (pending_clients self)) \<subseteq> set (pending_clients self)"
    by (auto simp: AList.delete_eq)
  have "length (AList.delete k (pending_clients self)) \<le> NETCODE_MAX_PENDING_CLIENTS"
    using inv length_AList_delete [of k "pending_clients self"] by (simp add: sv_inv_def)
  moreover have "fst ` set (AList.delete k (pending_clients self)) \<inter> addr_of ` set (flatten (clients self)) = {}"
    using inv image_mono [OF sub, of fst] unfolding sv_inv_def by blast
  moreover have "\<forall>p \<in> set (AList.delete k (pending_clients self)). pending_ok self p"
    using inv sub by (auto simp: sv_inv_def)
  ultimately show ?thesis
    using inv by (simp add: sv_inv_def same distinct_delete)
qed

text \<open>A client changes but stays at its address.\<close>

lemma sv_inv_set_client:
  assumes inv: "sv_inv self" and slot: "slot < length (clients self)" "clients self ! slot = Some c"
    and c': "addr_of c' = addr_of c" "conn_ok self c'" "cn_state c' = ConnConnected"
  shows "set_client self slot (Some c') = Some (self\<lparr>clients := (clients self)[slot := Some c']\<rparr>)"
    "sv_inv (self\<lparr>clients := (clients self)[slot := Some c']\<rparr>)" (is "sv_inv ?s")
proof -
  show "set_client self slot (Some c') = Some (self\<lparr>clients := (clients self)[slot := Some c']\<rparr>)"
    using slot(1) by (simp add: set_client_def)
  have same: "conn_ok ?s = conn_ok self" "pending_ok ?s = pending_ok self"
    by (auto simp: conn_ok_def pending_ok_def fun_eq_iff)
  obtain a b where "flatten (clients self) = a @ c # b" "flatten ((clients self)[slot := Some c']) = a @ c' # b"
    using flatten_update [OF slot, of c'] by auto
  then show "sv_inv ?s"
    using inv c' by (auto simp: sv_inv_def same)
qed

lemma sv_inv_clear_client:
  assumes inv: "sv_inv self" and slot: "slot < length (clients self)" "clients self ! slot = Some c"
  shows "set_client self slot None = Some (self\<lparr>clients := (clients self)[slot := None]\<rparr>)"
    "sv_inv (self\<lparr>clients := (clients self)[slot := None]\<rparr>)" (is "sv_inv ?s")
proof -
  show "set_client self slot None = Some (self\<lparr>clients := (clients self)[slot := None]\<rparr>)"
    using slot(1) by (simp add: set_client_def)
  have same: "conn_ok ?s = conn_ok self" "pending_ok ?s = pending_ok self"
    by (auto simp: conn_ok_def pending_ok_def fun_eq_iff)
  obtain a b where "flatten (clients self) = a @ c # b" "flatten ((clients self)[slot := None]) = a @ b"
    using flatten_update [OF slot] by blast
  then show "sv_inv ?s"
    using inv by (auto simp: sv_inv_def same)
qed

text \<open>A client takes a free slot.\<close>

lemma sv_inv_add_client:
  assumes inv: "sv_inv self" and slot: "slot < length (clients self)" "clients self ! slot = None"
    and c: "conn_ok self c" "cn_state c = ConnConnected"
    and new: "addr_of c \<notin> addr_of ` set (flatten (clients self))" "addr_of c \<notin> fst ` set (pending_clients self)"
  shows "set_client self slot (Some c) = Some (self\<lparr>clients := (clients self)[slot := Some c]\<rparr>)"
    "sv_inv (self\<lparr>clients := (clients self)[slot := Some c]\<rparr>)" (is "sv_inv ?s")
proof -
  show "set_client self slot (Some c) = Some (self\<lparr>clients := (clients self)[slot := Some c]\<rparr>)"
    using slot(1) by (simp add: set_client_def)
  have same: "conn_ok ?s = conn_ok self" "pending_ok ?s = pending_ok self"
    by (auto simp: conn_ok_def pending_ok_def fun_eq_iff)
  obtain a b where "flatten (clients self) = a @ b" "flatten ((clients self)[slot := Some c]) = a @ c # b"
    using flatten_insert [OF slot, of c] by auto
  then show "sv_inv ?s"
    using inv c new by (auto simp: sv_inv_def same)
qed
subsection \<open>Sending\<close>

lemma server_encode_ok:
  assumes lib: "aead_laws lib" and inv: "length (sv_out self) = 1400" and socket: "socket_id < length (sockets self)"
    and p: "packet_wf p" "packet_type p \<noteq> TConnectionRequest" "length (concat (packet_parts p)) \<le> 1300"
  obtains out bs where "server_encode lib self p s key socket_id = Some (self\<lparr>sv_out := out\<rparr>, Inr bs)" "length out = 1400"
    "length bs = 17 + sequence_bytes_required s + length (concat (packet_parts p))"
    "\<And>rp. check_replay rp (packet_type p) s = Some False \<Longrightarrow>
      packet_decode lib bs (sv_protocol_id self) (Some key) rp (needs_encryption (sockets self ! socket_id)) =
        (if s = 0 \<and> concat (packet_parts p) = [] then Some (rp, Inl PacketTooSmall)
         else Some (advance_replay rp (packet_type p) s, Inr (s, p)))"
proof -
  let ?enc = "needs_encryption (sockets self ! socket_id)"
  have room: "length (concat (packet_parts p)) + 25 \<le> length (sv_out self)" "length (sv_out self) \<le> NETCODE_MAX_PACKET_BYTES"
    using inv p(3) by (simp_all add: netcode_sizes)
  obtain out n where enc: "packet_encode lib p (sv_out self) (sv_protocol_id self) (Some (s, key)) ?enc = Some (out, Inr n)"
    "length out = length (sv_out self)" "n \<le> length (sv_out self)" "n = 17 + sequence_bytes_required s + length (concat (packet_parts p))"
    "\<And>rp. check_replay rp (packet_type p) s = Some False \<Longrightarrow> packet_decode lib (take n out) (sv_protocol_id self) (Some key) rp ?enc =
      (if s = 0 \<and> concat (packet_parts p) = [] then Some (rp, Inl PacketTooSmall) else Some (advance_replay rp (packet_type p) s, Inr (s, p)))"
    by (rule encode_then_decode [OF lib p(1,2) room]) blast
  have "server_encode lib self p s key socket_id = Some (self\<lparr>sv_out := out\<rparr>, Inr (take n out))"
    using socket enc(1,2,3) by (simp add: server_encode_def)
  then show thesis
    by (rule that) (use enc inv in simp_all)
qed

lemma send_with_global_sequence_ok:
  assumes lib: "aead_laws lib" and inv: "length (sv_out self) = 1400" and socket: "socket_id < length (sockets self)"
    and p: "packet_wf p" "packet_type p \<noteq> TConnectionRequest" "length (concat (packet_parts p)) \<le> 1300"
    and n: "unat (global_sequence self) + 1 < 2 ^ 64"
  obtains out bs where
    "send_with_global_sequence lib self p key socket_id = Some (self\<lparr>sv_out := out, global_sequence := global_sequence self + 1\<rparr>, Inr bs)"
    "length out = 1400" "length bs = 17 + sequence_bytes_required (global_sequence self) + length (concat (packet_parts p))"
    "\<And>rp. check_replay rp (packet_type p) (global_sequence self) = Some False \<Longrightarrow>
      packet_decode lib bs (sv_protocol_id self) (Some key) rp (needs_encryption (sockets self ! socket_id)) =
        (if global_sequence self = 0 \<and> concat (packet_parts p) = [] then Some (rp, Inl PacketTooSmall)
         else Some (advance_replay rp (packet_type p) (global_sequence self), Inr (global_sequence self, p)))"
proof -
  obtain out bs where enc: "server_encode lib self p (global_sequence self) key socket_id = Some (self\<lparr>sv_out := out\<rparr>, Inr bs)" "length out = 1400"
    "length bs = 17 + sequence_bytes_required (global_sequence self) + length (concat (packet_parts p))"
    "\<And>rp. check_replay rp (packet_type p) (global_sequence self) = Some False \<Longrightarrow>
      packet_decode lib bs (sv_protocol_id self) (Some key) rp (needs_encryption (sockets self ! socket_id)) =
        (if global_sequence self = 0 \<and> concat (packet_parts p) = [] then Some (rp, Inl PacketTooSmall)
         else Some (advance_replay rp (packet_type p) (global_sequence self), Inr (global_sequence self, p)))"
    by (rule server_encode_ok [OF lib inv socket p]) blast
  have "checked_add_u64 (global_sequence self) 1 = Some (global_sequence self + 1)"
    using n by (simp add: checked_add_u64_def)
  then have "send_with_global_sequence lib self p key socket_id = Some (self\<lparr>sv_out := out, global_sequence := global_sequence self + 1\<rparr>, Inr bs)"
    using enc(1) by (simp add: send_with_global_sequence_def)
  then show thesis
    by (rule that) (use enc in simp_all)
qed

lemma server_encode_state:
  assumes lib: "aead_laws lib" and inv: "length (sv_out self) = 1400"
    and p: "packet_wf p" "packet_type p \<noteq> TConnectionRequest" "length (concat (packet_parts p)) \<le> 1300"
    and run: "server_encode lib self p s key socket_id = Some (self', r)"
  obtains out bs where "self' = self\<lparr>sv_out := out\<rparr>" "length out = 1400" "r = Inr bs" "socket_id < length (sockets self)"
proof -
  have socket: "socket_id < length (sockets self)"
    using run by (cases "socket_id < length (sockets self)") (simp_all add: server_encode_def index_def)
  obtain out bs where enc: "server_encode lib self p s key socket_id = Some (self\<lparr>sv_out := out\<rparr>, Inr bs)" "length out = 1400"
    by (rule server_encode_ok [OF lib inv socket p]) blast
  have "(self', r) = (self\<lparr>sv_out := out\<rparr>, Inr bs)"
    using run unfolding enc(1) option.inject by (rule sym)
  then show thesis
    using enc(2) socket by (intro that [of out bs]) simp_all
qed

lemma send_with_global_sequence_state:
  assumes lib: "aead_laws lib" and inv: "length (sv_out self) = 1400"
    and p: "packet_wf p" "packet_type p \<noteq> TConnectionRequest" "length (concat (packet_parts p)) \<le> 1300"
    and run: "send_with_global_sequence lib self p key socket_id = Some (self', r)"
  obtains out bs where "self' = self\<lparr>sv_out := out, global_sequence := global_sequence self + 1\<rparr>" "length out = 1400" "r = Inr bs"
proof -
  obtain s1 r1 where enc: "server_encode lib self p (global_sequence self) key socket_id = Some (s1, r1)"
    using run by (auto simp: send_with_global_sequence_def bind_eq_Some_conv)
  obtain out bs where "s1 = self\<lparr>sv_out := out\<rparr>" "length out = 1400" "r1 = Inr bs"
    by (rule server_encode_state [OF lib inv p enc]) blast
  then show thesis
    using run enc that [of out bs] by (auto simp: send_with_global_sequence_def checked_add_u64_def bind_eq_Some_conv split: if_splits)
qed

subsection \<open>Connection requests\<close>

lemma private_decode_user_data: "private_decode lib data protocol_id expire xnonce key = Ok token \<Longrightarrow> length (pt_user_data token) = 256"
  by (auto simp: private_decode_def private_read_def read_bytes_def Let_def split: if_splits)

lemma accept_request_inv:
  assumes lib: "aead_laws lib" and inv: "sv_inv self" and free: "find_client_mut_by_addr (clients self) socket_id addr = None"
    and room: "map_of (pending_clients self) (socket_id, addr) = None \<Longrightarrow> length (pending_clients self) < NETCODE_MAX_PENDING_CLIENTS"
    and socket: "socket_id < length (sockets self)" and token: "length (pt_user_data token) = 256"
    and run: "accept_request lib self socket_id addr expire_timestamp token = Some (self', r)"
  shows "sv_inv self'"
proof -
  let ?s1 = "self\<lparr>challenge_sequence := challenge_sequence self + 1\<rparr>"
  obtain challenge where challenge: "generate_challenge lib (pt_client_id token) (pt_user_data token) (challenge_sequence self + 1) (challenge_key self) =
      Ok (Challenge (challenge_sequence self + 1) challenge)" "length challenge = 300"
    by (rule aead_laws.challenge_roundtrip [OF lib token]) blast
  let ?p = "Challenge (challenge_sequence self + 1) challenge"
  have p: "packet_wf ?p" "packet_type ?p \<noteq> TConnectionRequest" "length (concat (packet_parts ?p)) \<le> 1300"
    using challenge(2) by simp_all
  obtain s2 r2 where send: "send_with_global_sequence lib ?s1 ?p (pt_server_to_client_key token) socket_id = Some (s2, r2)"
    using run challenge by (auto simp: accept_request_def checked_add_u64_def bind_eq_Some_conv split: if_splits)
  obtain out bs where s2: "s2 = ?s1\<lparr>sv_out := out, global_sequence := global_sequence ?s1 + 1\<rparr>" "length out = 1400" "r2 = Inr bs"
    by (rule send_with_global_sequence_state [OF lib _ p send]) (use inv in \<open>auto simp: sv_inv_def\<close>)
  have inv2: "sv_inv s2"
    using s2 inv by (intro sv_inv_cong [OF inv]) (auto simp: sv_inv_def)
  let ?c = "(case map_of (pending_clients s2) (socket_id, addr) of Some c \<Rightarrow> c | None \<Rightarrow> new_pending s2 socket_id addr expire_timestamp token)
      \<lparr>cn_last_packet_received_time := sv_current_time s2, cn_last_packet_send_time := sv_current_time s2\<rparr>"
  have "pending_ok s2 ((socket_id, addr), ?c)"
  proof (cases "map_of (pending_clients s2) (socket_id, addr)")
    case None
    then show ?thesis
      using socket token s2(1) replay_inv_new by (auto simp: pending_ok_def addr_of_def new_pending_def conn_ok_def)
  next
    case (Some c)
    then have "((socket_id, addr), c) \<in> set (pending_clients s2)"
      by (rule map_of_SomeD)
    then have "pending_ok s2 ((socket_id, addr), c)"
      using inv2 by (simp add: sv_inv_def)
    then show ?thesis
      using Some by (auto simp: pending_ok_def conn_ok_def addr_of_def)
  qed
  then have "sv_inv (s2\<lparr>pending_clients := AList.update (socket_id, addr) ?c (pending_clients s2)\<rparr>)"
    using free room s2(1) by (intro sv_inv_pending_update [OF inv2]) simp_all
  moreover have "self' = s2\<lparr>pending_clients := AList.update (socket_id, addr) ?c (pending_clients s2)\<rparr>"
    using run challenge send s2(3) by (auto simp: accept_request_def checked_add_u64_def Let_def bind_eq_Some_conv split: if_splits)
  ultimately show ?thesis
    by simp
qed
lemma slot_mem: "i < length cs \<Longrightarrow> cs ! i = Some c \<Longrightarrow> c \<in> set (flatten cs)"
  by (metis nth_mem set_flatten)

text \<open>A send whose bytes go into the result.\<close>

lemma reply_state:
  assumes "(m \<bind> (\<lambda>(s, r). case r of Inl e \<Rightarrow> Some (s, Inl e) | Inr b \<Rightarrow> Some (s, Inr (f b)))) = Some (s', r')"
  obtains r3 where "m = Some (s', r3)"
proof (cases m)
  case (Some sr)
  then show thesis
    using assms that by (cases sr; cases "snd sr") auto
qed (use assms in simp)

lemma find_or_add_entry_state:
  assumes "connect_token_entries self \<noteq> []" "find_or_add_connect_token_entry self new = Some (self', ok)"
  obtains es where "self' = self\<lparr>connect_token_entries := es\<rparr>" "es \<noteq> []"
  by (rule find_or_add_entry [OF assms(1), of new]) (use assms that [of "connect_token_entries self"] in \<open>auto intro: that\<close>)

lemma admit_request_inv:
  assumes lib: "aead_laws lib" and inv: "sv_inv self"
    and socket: "socket_id < length (sockets self)" and token: "length (pt_user_data token) = 256"
    and run: "admit_request lib self socket_id addr expire_timestamp data token = Some (self', r)"
  shows "sv_inv self'"
proof (cases "self' = self")
  case False
  let ?new = "\<lparr>entry_time = sv_current_time self, entry_socket_id = socket_id, entry_address = addr,
    entry_mac = drop (NETCODE_CONNECT_TOKEN_PRIVATE_BYTES - NETCODE_MAC_BYTES) data\<rparr>"
  have free: "find_client_mut_by_addr (clients self) socket_id addr = None"
    using run False by (auto simp: admit_request_def split: option.splits if_splits)
  have room: "map_of (pending_clients self) (socket_id, addr) = None \<Longrightarrow> length (pending_clients self) < NETCODE_MAX_PENDING_CLIENTS"
    using run False free by (auto simp: admit_request_def split: if_splits)
  obtain s1 ok where entry: "find_or_add_connect_token_entry self ?new = Some (s1, ok)"
    using run False free by (auto simp: admit_request_def Let_def bind_eq_Some_conv split: if_splits)
  have ne: "connect_token_entries self \<noteq> []"
    using inv by (simp add: sv_inv_def)
  obtain es where s1: "s1 = self\<lparr>connect_token_entries := es\<rparr>" "es \<noteq> []"
    by (rule find_or_add_entry_state [OF ne entry])
  have inv1: "sv_inv s1"
    using s1 inv by (intro sv_inv_cong [OF inv]) (auto simp: sv_inv_def)
  let ?s2 = "s1\<lparr>pending_clients := AList.delete (socket_id, addr) (pending_clients s1)\<rparr>"
  have inv2: "sv_inv ?s2"
    by (rule sv_inv_pending_delete [OF inv1])
  consider (denied) "Some (s1, Inr (ResultConnectionDenied socket_id addr None)) = Some (self', r)"
    | (full) "(send_with_global_sequence lib ?s2 ConnectionDeniedPacket (pt_server_to_client_key token) socket_id \<bind> (\<lambda>(s, r).
        case r of Inl e \<Rightarrow> Some (s, Inl e) | Inr bs \<Rightarrow> Some (s, Inr (ResultConnectionDenied socket_id addr (Some bs))))) = Some (self', r)"
    | (accept) "accept_request lib s1 socket_id addr expire_timestamp token = Some (self', r)"
    using run False free entry by (simp add: admit_request_def Let_def split: if_splits)
  then show ?thesis
  proof cases
    case full
    then obtain r3 where send: "send_with_global_sequence lib ?s2 ConnectionDeniedPacket (pt_server_to_client_key token) socket_id = Some (self', r3)"
      by (rule reply_state)
    have len: "length (sv_out ?s2) = 1400"
      using inv2 by (simp add: sv_inv_def)
    obtain out bs where "self' = ?s2\<lparr>sv_out := out, global_sequence := global_sequence ?s2 + 1\<rparr>" "length out = 1400"
      by (rule send_with_global_sequence_state [OF lib len _ _ _ send]) auto
    then show ?thesis
      using inv2 by (intro sv_inv_cong [OF inv2]) (auto simp: sv_inv_def)
  next
    case accept
    then show ?thesis
      using free room socket s1(1) by (intro accept_request_inv [OF lib inv1 _ _ _ token accept]) simp_all
  qed (use inv1 in simp)
qed (use inv in simp)

lemma handle_connection_request_inv:
  assumes lib: "aead_laws lib" and inv: "sv_inv self"
    and run: "handle_connection_request lib self socket_id addr version_info protocol_id expire_timestamp xnonce data = Some (self', r)"
  shows "sv_inv self'"
proof (cases "self' = self")
  case False
  then obtain token where token: "private_decode lib data (sv_protocol_id self) expire_timestamp xnonce (connect_key self) = Ok token"
    "admit_request lib self socket_id addr expire_timestamp data token = Some (self', r)" "socket_id < length (sockets self)"
    using run by (auto simp: handle_connection_request_def not_le split: if_splits outcome.splits)
  show ?thesis
    by (rule admit_request_inv [OF lib inv token(3) private_decode_user_data [OF token(1)] token(2)])
qed (use inv in simp)

subsection \<open>Packets\<close>

lemma handle_connected_inv:
  assumes inv: "sv_inv self" and slot: "slot < length (clients self)" "clients self ! slot = Some c"
    and run: "handle_connected self slot c socket_id addr packet = Some (self', r)"
  shows "sv_inv self'"
proof -
  let ?c = "c\<lparr>cn_last_packet_received_time := sv_current_time self\<rparr>" and ?c2 = "c\<lparr>cn_last_packet_received_time := sv_current_time self, confirmed := True\<rparr>"
  have c: "conn_ok self c" "cn_state c = ConnConnected"
    using inv slot_mem [OF slot] by (simp_all add: sv_inv_def)
  have ok: "addr_of ?c = addr_of c" "conn_ok self ?c" "cn_state ?c = ConnConnected" "addr_of ?c2 = addr_of c" "conn_ok self ?c2" "cn_state ?c2 = ConnConnected"
    using c by (auto simp: conn_ok_def addr_of_def)
  let ?s = "self\<lparr>clients := (clients self)[slot := Some ?c]\<rparr>"
  have s: "set_client self slot (Some ?c) = Some ?s" "sv_inv ?s"
    using sv_inv_set_client [OF inv slot ok(1-3)] by simp_all
  have slot': "slot < length (clients ?s)" "clients ?s ! slot = Some ?c"
    using slot by simp_all
  have "set_client ?s slot (Some ?c2) = Some (?s\<lparr>clients := (clients ?s)[slot := Some ?c2]\<rparr>)" "sv_inv (?s\<lparr>clients := (clients ?s)[slot := Some ?c2]\<rparr>)"
    using sv_inv_set_client [OF s(2) slot', of ?c2] ok by (auto simp: conn_ok_def)
  moreover have "set_client ?s slot None = Some (?s\<lparr>clients := (clients ?s)[slot := None]\<rparr>)" "sv_inv (?s\<lparr>clients := (clients ?s)[slot := None]\<rparr>)"
    using sv_inv_clear_client [OF s(2) slot'] by simp_all
  ultimately show ?thesis
    using run s c(2) by (cases packet) (auto simp: handle_connected_def Let_def)
qed

lemma connect_pending_inv:
  assumes lib: "aead_laws lib" and inv: "sv_inv self" and pending: "conn_ok self pending" "addr_of pending = (socket_id, addr)"
    and new: "(socket_id, addr) \<notin> addr_of ` set (flatten (clients self))" "(socket_id, addr) \<notin> fst ` set (pending_clients self)"
    and token: "length (ch_user_data token) = 256"
    and run: "connect_pending lib self socket_id addr pending token = Some (self', r)"
  shows "sv_inv self'"
proof (cases "self' = self")
  case False
  have len: "length (sv_out self) = 1400"
    using inv by (simp add: sv_inv_def)
  have unknown: "find_client_slot_by_id (clients self) (ch_client_id token) = None"
    using run False by (auto simp: connect_pending_def split: if_splits)
  show ?thesis
  proof (cases "position (\<lambda>c. c = None) (clients self)")
    case None
    then have "(send_with_global_sequence lib self ConnectionDeniedPacket (send_key pending) socket_id \<bind> (\<lambda>(s, r).
        case r of Inl e \<Rightarrow> Some (s, Inl e) | Inr bs \<Rightarrow> Some (s, Inr (ResultConnectionDenied socket_id addr (Some bs))))) = Some (self', r)"
      using run unknown by (simp add: connect_pending_def)
    then obtain r3 where send: "send_with_global_sequence lib self ConnectionDeniedPacket (send_key pending) socket_id = Some (self', r3)"
      by (rule reply_state)
    obtain out bs where "self' = self\<lparr>sv_out := out, global_sequence := global_sequence self + 1\<rparr>" "length out = 1400"
      by (rule send_with_global_sequence_state [OF lib len _ _ _ send]) auto
    then show ?thesis
      using inv by (intro sv_inv_cong [OF inv]) (auto simp: sv_inv_def)
  next
    case (Some slot)
    then have slot: "slot < length (clients self)" "clients self ! slot = None"
      by (auto dest: position_Some)
    let ?keep = "KeepAlive (word_of_nat slot) (word_of_nat (sv_max_clients self))"
    obtain s1 r1 where enc: "server_encode lib self ?keep (cn_sequence pending) (send_key pending) socket_id = Some (s1, r1)"
      using run unknown Some by (auto simp: connect_pending_def Let_def bind_eq_Some_conv)
    obtain out bs where s1: "s1 = self\<lparr>sv_out := out\<rparr>" "length out = 1400" "r1 = Inr bs"
      by (rule server_encode_state [OF lib len _ _ _ enc]) auto
    have inv1: "sv_inv s1"
      using s1 inv by (intro sv_inv_cong [OF inv]) (auto simp: sv_inv_def)
    obtain n where n: "checked_add_u64 (cn_sequence pending) 1 = Some n"
      using run unknown Some enc s1(3) by (auto simp: connect_pending_def Let_def bind_eq_Some_conv)
    let ?c = "pending\<lparr>cn_state := ConnConnected, cn_user_data := ch_user_data token, cn_last_packet_send_time := sv_current_time self, cn_sequence := n\<rparr>"
    have c: "conn_ok s1 ?c" "addr_of ?c = (socket_id, addr)"
      using pending token s1(1) by (auto simp: conn_ok_def addr_of_def)
    have "set_client s1 slot (Some ?c) = Some (s1\<lparr>clients := (clients s1)[slot := Some ?c]\<rparr>)" "sv_inv (s1\<lparr>clients := (clients s1)[slot := Some ?c]\<rparr>)"
      using sv_inv_add_client [OF inv1 _ _ c(1)] slot new c(2) s1(1) by simp_all
    then show ?thesis
      using run unknown Some enc s1 n by (auto simp: connect_pending_def Let_def)
  qed
qed (use inv in simp)
lemma challenge_token_user_data: "challenge_token_decode lib data n key = Ok token \<Longrightarrow> length (ch_user_data token) = 256"
  by (auto simp: challenge_token_decode_def challenge_token_read_def read_bytes_def netcode_sizes split: if_splits)

lemma handle_request_packet_inv:
  "aead_laws lib \<Longrightarrow> sv_inv self \<Longrightarrow> handle_request_packet lib self socket_id addr request = Some (self', r) \<Longrightarrow> sv_inv self'"
  by (cases request) (auto simp: handle_request_packet_def intro: handle_connection_request_inv)

lemma handle_pending_inv:
  assumes lib: "aead_laws lib" and inv: "sv_inv self" and pending: "pending_ok self ((socket_id, addr), c)"
    and known: "map_of (pending_clients self) (socket_id, addr) \<noteq> None"
    and free: "find_client_mut_by_addr (clients self) socket_id addr = None"
    and run: "handle_pending lib self socket_id addr c packet = Some (self', r)"
  shows "sv_inv self'"
proof -
  let ?c = "c\<lparr>cn_last_packet_received_time := sv_current_time self\<rparr>"
  let ?s = "self\<lparr>pending_clients := AList.update (socket_id, addr) ?c (pending_clients self)\<rparr>"
  have c: "pending_ok self ((socket_id, addr), ?c)"
    using pending by (auto simp: pending_ok_def conn_ok_def addr_of_def)
  have s: "sv_inv ?s"
    using known by (intro sv_inv_pending_update [OF inv c free]) simp
  show ?thesis
  proof (cases "request_of packet")
    case (Some request)
    then show ?thesis
      using run handle_request_packet_inv [OF lib s] by (simp add: handle_pending_def Let_def)
  next
    case None
    show ?thesis
    proof (cases "\<exists>n data token. packet = Response n data \<and> challenge_token_decode lib data n (challenge_key self) = Ok token")
      case True
      then obtain n data token where token: "packet = Response n data" "challenge_token_decode lib data n (challenge_key self) = Ok token"
        by blast
      let ?s2 = "?s\<lparr>pending_clients := AList.delete (socket_id, addr) (pending_clients ?s)\<rparr>"
      have s2: "sv_inv ?s2"
        by (rule sv_inv_pending_delete [OF s])
      have "conn_ok ?s2 ?c" "addr_of ?c = (socket_id, addr)"
        using c by (auto simp: pending_ok_def conn_ok_def addr_of_def)
      moreover have "(socket_id, addr) \<notin> addr_of ` set (flatten (clients ?s2))"
        using free by (simp add: find_by_addr_None addr_of_def)
      moreover have "(socket_id, addr) \<notin> fst ` set (pending_clients ?s2)"
        by (auto simp: AList.delete_eq)
      moreover have "connect_pending lib ?s2 socket_id addr ?c token = Some (self', r)"
        using run token None by (simp add: handle_pending_def Let_def)
      ultimately show ?thesis
        using connect_pending_inv [OF lib s2] challenge_token_user_data [OF token(2)] by blast
    next
      case False
      then have "self' = ?s"
        using run None by (cases packet) (auto simp: handle_pending_def Let_def split: outcome.splits)
      then show ?thesis
        using s by simp
    qed
  qed
qed

lemma decode_keeps_replay:
  assumes "\<exists>acc. replay_inv acc rp" "packet_decode lib buffer protocol_id (Some key) (Some rp) encrypted = Some (rp', r)"
  obtains rp2 where "rp' = Some rp2" "\<exists>acc. replay_inv acc rp2"
  using assms packet_decode_replay by blast

lemma process_packet_internal_inv:
  assumes lib: "aead_laws lib" and inv: "sv_inv self"
    and run: "process_packet_internal lib self socket_id addr buffer = Some (self', r)"
  shows "sv_inv self'"
proof (cases "self' = self")
  case changed: False
  then have long: "\<not> length buffer < 2 + NETCODE_MAC_BYTES"
    using run by (auto simp: process_packet_internal_def)
  have socket: "socket_id < length (sockets self)"
    using run long by (auto simp: process_packet_internal_def index_def bind_eq_Some_conv split: option.splits if_splits)
  let ?enc = "needs_encryption (sockets self ! socket_id)"
  show ?thesis
  proof (cases "find_client_mut_by_addr (clients self) socket_id addr")
    case (Some ic)
    obtain slot c where ic: "ic = (slot, c)"
      by (cases ic)
    have slot: "slot < length (clients self)" "clients self ! slot = Some c"
      using Some ic by (auto dest: find_by_addr_Some)
    have c: "conn_ok self c" "cn_state c = ConnConnected"
      using inv slot_mem [OF slot] by (simp_all add: sv_inv_def)
    obtain rp r1 where dec: "packet_decode lib buffer (sv_protocol_id self) (Some (receive_key c)) (Some (cn_replay_protection c)) ?enc = Some (rp, r1)"
      using run long Some ic socket by (auto simp: process_packet_internal_def bind_eq_Some_conv)
    obtain rp2 where rp: "rp = Some rp2" "\<exists>acc. replay_inv acc rp2"
      by (rule decode_keeps_replay [OF _ dec]) (use c in \<open>auto simp: conn_ok_def\<close>)
    let ?c = "c\<lparr>cn_replay_protection := rp2\<rparr>"
    have ok: "addr_of ?c = addr_of c" "conn_ok self ?c" "cn_state ?c = ConnConnected"
      using c rp(2) by (auto simp: conn_ok_def addr_of_def)
    let ?s = "self\<lparr>clients := (clients self)[slot := Some ?c]\<rparr>"
    have s: "set_client self slot (Some ?c) = Some ?s" "sv_inv ?s"
      using sv_inv_set_client [OF inv slot ok] by simp_all
    show ?thesis
    proof (cases r1)
      case (Inl e)
      then show ?thesis
        using run long Some ic socket dec rp(1) s by (simp add: process_packet_internal_def)
    next
      case (Inr np)
      then have "handle_connected ?s slot ?c socket_id addr (snd np) = Some (self', r)"
        using run long Some ic socket dec rp(1) s by (cases np) (simp add: process_packet_internal_def Let_def)
      then show ?thesis
        using slot by (intro handle_connected_inv [OF s(2)]) simp_all
    qed
  next
    case free: None
    show ?thesis
    proof (cases "map_of (pending_clients self) (socket_id, addr)")
      case (Some c)
      then have c: "pending_ok self ((socket_id, addr), c)"
        using inv by (auto simp: sv_inv_def dest: map_of_SomeD)
      obtain rp r1 where dec: "packet_decode lib buffer (sv_protocol_id self) (Some (receive_key c)) (Some (cn_replay_protection c)) ?enc = Some (rp, r1)"
        using run long free Some socket by (auto simp: process_packet_internal_def bind_eq_Some_conv)
      obtain rp2 where rp: "rp = Some rp2" "\<exists>acc. replay_inv acc rp2"
        by (rule decode_keeps_replay [OF _ dec]) (use c in \<open>auto simp: pending_ok_def conn_ok_def\<close>)
      let ?c = "c\<lparr>cn_replay_protection := rp2\<rparr>"
      let ?s = "self\<lparr>pending_clients := AList.update (socket_id, addr) ?c (pending_clients self)\<rparr>"
      have ok: "pending_ok self ((socket_id, addr), ?c)"
        using c rp(2) by (auto simp: pending_ok_def conn_ok_def addr_of_def)
      have s: "sv_inv ?s"
        using Some by (intro sv_inv_pending_update [OF inv ok free]) simp
      show ?thesis
      proof (cases r1)
        case (Inl e)
        then show ?thesis
          using run long free Some socket dec rp(1) s by (simp add: process_packet_internal_def)
      next
        case (Inr np)
        then have "handle_pending lib ?s socket_id addr ?c (snd np) = Some (self', r)"
          using run long free Some socket dec rp(1) by (cases np) (simp add: process_packet_internal_def Let_def)
        moreover have "pending_ok ?s ((socket_id, addr), ?c)"
          using ok by (auto simp: pending_ok_def conn_ok_def)
        ultimately show ?thesis
          using free by (intro handle_pending_inv [OF lib s]) (simp_all add: update_conv')
      qed
    next
      case None
      then obtain rp r1 where dec: "packet_decode lib buffer (sv_protocol_id self) None None ?enc = Some (rp, r1)"
        using run long free socket by (auto simp: process_packet_internal_def bind_eq_Some_conv)
      then obtain np request where "r1 = Inr np" "handle_request_packet lib self socket_id addr request = Some (self', r)"
        using run long free None socket changed by (auto simp: process_packet_internal_def split: sum.splits option.splits)
      then show ?thesis
        using handle_request_packet_inv [OF lib inv] by blast
    qed
  qed
qed (use inv in simp)
subsection \<open>Time, payloads and disconnection\<close>

lemma sv_update_inv: "sv_inv self \<Longrightarrow> sv_inv (sv_update self d)"
proof -
  assume inv: "sv_inv self"
  let ?s = "self\<lparr>sv_current_time := sv_current_time self + d\<rparr>"
  have s: "sv_inv ?s"
    using inv by (intro sv_inv_cong [OF inv]) (auto simp: sv_inv_def)
  let ?mark = "\<lambda>(k, c). (k, if unat (cn_expire_timestamp c) < as_secs (sv_current_time self + d) then c\<lparr>cn_state := ConnDisconnected\<rparr> else c)"
  let ?live = "filter (\<lambda>(k, c). cn_state c \<noteq> ConnDisconnected) (map ?mark (pending_clients self))"
  have upd: "sv_update self d = ?s\<lparr>pending_clients := ?live\<rparr>"
    by (simp add: sv_update_def Let_def)
  have sub: "set ?live \<subseteq> set (pending_clients self)"
    by auto
  have keys: "map fst (map ?mark al) = map fst al" for al :: "((nat \<times> SocketAddr) \<times> NetcodeConnection) list"
    by (induction al) auto
  have "distinct (map fst (map ?mark (pending_clients self)))"
    unfolding keys using inv by (simp add: sv_inv_def)
  then have "distinct (map fst ?live)"
    by (rule distinct_map_filter)
  moreover have "length ?live \<le> NETCODE_MAX_PENDING_CLIENTS"
  proof -
    have "length ?live \<le> length (map ?mark (pending_clients self))"
      by (rule length_filter_le)
    also have "\<dots> \<le> NETCODE_MAX_PENDING_CLIENTS"
      using inv by (simp add: sv_inv_def)
    finally show ?thesis .
  qed
  moreover have same: "conn_ok (?s\<lparr>pending_clients := ?live\<rparr>) = conn_ok ?s" "pending_ok (?s\<lparr>pending_clients := ?live\<rparr>) = pending_ok ?s"
    by (auto simp: conn_ok_def pending_ok_def fun_eq_iff)
  moreover have "fst ` set ?live \<inter> addr_of ` set (flatten (clients self)) = {}"
    using inv image_mono [OF sub, of fst] unfolding sv_inv_def by blast
  moreover have "\<forall>p \<in> set ?live. pending_ok ?s p"
    using s sub by (auto simp: sv_inv_def)
  ultimately show ?thesis
    using s unfolding upd sv_inv_def by (simp add: sv_inv_def same)
qed

lemma disconnect_result_state:
  assumes lib: "aead_laws lib" and inv: "sv_inv self" and run: "disconnect_result lib self client_id c = Some (self', r)"
  shows "sv_inv self'"
proof -
  have len: "length (sv_out self) = 1400"
    using inv by (simp add: sv_inv_def)
  obtain r1 where enc: "server_encode lib self Disconnect (cn_sequence c) (send_key c) (cn_socket_id c) = Some (self', r1)"
    using run by (auto simp: disconnect_result_def bind_eq_Some_conv)
  obtain out bs where "self' = self\<lparr>sv_out := out\<rparr>" "length out = 1400"
    by (rule server_encode_state [OF lib len _ _ _ enc]) auto
  then show ?thesis
    using inv by (intro sv_inv_cong [OF inv]) (auto simp: sv_inv_def)
qed

text \<open>A packet for a connected client, after which its sequence number and send time change.\<close>

lemma client_send_inv:
  assumes lib: "aead_laws lib" and inv: "sv_inv self" and slot: "slot < length (clients self)" "clients self ! slot = Some c"
    and p: "packet_wf p" "packet_type p \<noteq> TConnectionRequest" "length (concat (packet_parts p)) \<le> 1300"
    and enc: "server_encode lib self p (cn_sequence c) (send_key c) (cn_socket_id c) = Some (s1, r1)"
  shows "sv_inv s1" "sv_current_time s1 = sv_current_time self"
    "set_client s1 slot (Some (c\<lparr>cn_sequence := n, cn_last_packet_send_time := sv_current_time s1\<rparr>)) = Some s2 \<Longrightarrow> sv_inv s2"
proof -
  have len: "length (sv_out self) = 1400"
    using inv by (simp add: sv_inv_def)
  obtain out bs where s1: "s1 = self\<lparr>sv_out := out\<rparr>" "length out = 1400"
    by (rule server_encode_state [OF lib len p enc]) blast
  show inv1: "sv_inv s1"
    using s1 inv by (intro sv_inv_cong [OF inv]) (auto simp: sv_inv_def)
  show "sv_current_time s1 = sv_current_time self"
    using s1 by simp
  have "conn_ok self c" "cn_state c = ConnConnected"
    using inv slot_mem [OF slot] by (simp_all add: sv_inv_def)
  then have "conn_ok s1 (c\<lparr>cn_sequence := n, cn_last_packet_send_time := sv_current_time s1\<rparr>)" "cn_state c = ConnConnected"
    using s1(1) by (auto simp: conn_ok_def)
  then show "sv_inv s2" if "set_client s1 slot (Some (c\<lparr>cn_sequence := n, cn_last_packet_send_time := sv_current_time s1\<rparr>)) = Some s2"
    using sv_inv_set_client [OF inv1, of slot c "c\<lparr>cn_sequence := n, cn_last_packet_send_time := sv_current_time s1\<rparr>"] slot s1(1) that
    by (auto simp: addr_of_def)
qed

lemma sv_generate_payload_packet_inv:
  assumes lib: "aead_laws lib" and inv: "sv_inv self" and run: "sv_generate_payload_packet lib self client_id payload = Some (self', r)"
  shows "sv_inv self'"
proof (cases "self' = self")
  case False
  then have small: "length payload \<le> 1300"
    using run by (auto simp: sv_generate_payload_packet_def netcode_sizes split: if_splits)
  obtain slot c where found: "find_client_mut_by_id (clients self) client_id = Some (slot, c)"
    using run False by (auto simp: sv_generate_payload_packet_def split: if_splits option.splits)
  then have slot: "slot < length (clients self)" "clients self ! slot = Some c"
    by (auto dest: find_by_id_Some)
  obtain s1 r1 where enc: "server_encode lib self (Payload payload) (cn_sequence c) (send_key c) (cn_socket_id c) = Some (s1, r1)"
    using run False found by (auto simp: sv_generate_payload_packet_def bind_eq_Some_conv split: if_splits)
  have p: "packet_wf (Payload payload)" "packet_type (Payload payload) \<noteq> TConnectionRequest" "length (concat (packet_parts (Payload payload))) \<le> 1300"
    using small by simp_all
  show ?thesis
    using client_send_inv [OF lib inv slot p enc] run False found enc
    by (auto simp: sv_generate_payload_packet_def bind_eq_Some_conv Let_def split: if_splits sum.splits)
qed (use inv in simp)

lemma sv_disconnect_inv:
  assumes lib: "aead_laws lib" and inv: "sv_inv self" and run: "sv_disconnect lib self client_id = Some (self', r)"
  shows "sv_inv self'"
proof (cases "find_client_slot_by_id (clients self) client_id")
  case (Some slot)
  then obtain c where slot: "slot < length (clients self)" "clients self ! slot = Some c"
    using find_slot_by_id_Some by blast
  let ?s = "self\<lparr>clients := (clients self)[slot := None]\<rparr>"
  have s: "set_client self slot None = Some ?s" "sv_inv ?s"
    by (rule sv_inv_clear_client [OF inv slot])+
  have "disconnect_result lib ?s client_id c = Some (self', r)"
    using run Some slot s(1) by (simp add: sv_disconnect_def)
  then show ?thesis
    by (rule disconnect_result_state [OF lib s(2)])
qed (use inv run in \<open>simp add: sv_disconnect_def\<close>)

lemma update_client_inv:
  assumes lib: "aead_laws lib" and inv: "sv_inv self" and run: "update_client lib self client_id = Some (self', r)"
  shows "sv_inv self'"
proof (cases "find_client_slot_by_id (clients self) client_id")
  case (Some slot)
  then obtain c where slot: "slot < length (clients self)" "clients self ! slot = Some c"
    using find_slot_by_id_Some by blast
  have state: "cn_state c = ConnConnected"
    using inv slot_mem [OF slot] by (simp add: sv_inv_def)
  show ?thesis
  proof (cases "sv_timed_out self c")
    case True
    let ?c = "c\<lparr>cn_state := ConnDisconnected\<rparr>"
    let ?s = "self\<lparr>clients := (clients self)[slot := None]\<rparr>"
    have s: "sv_inv ?s"
      by (rule sv_inv_clear_client [OF inv slot])
    have "disconnect_result lib ?s client_id ?c = Some (self', r)"
      using run Some slot True by (simp add: update_client_def Let_def set_client_def)
    then show ?thesis
      by (rule disconnect_result_state [OF lib s])
  next
    case False
    have unchanged: "set_client self slot (Some c) = Some self"
      using slot by (simp add: set_client_def list_update_same_conv)
    let ?p = "KeepAlive (word_of_nat slot) (word_of_nat (sv_max_clients self))"
    have p: "packet_wf ?p" "packet_type ?p \<noteq> TConnectionRequest" "length (concat (packet_parts ?p)) \<le> 1300"
      by simp_all
    show ?thesis
    proof (cases "server_encode lib self ?p (cn_sequence c) (send_key c) (cn_socket_id c)")
      case (Some sr)
      obtain s1 r1 where enc: "sr = (s1, r1)"
        by (cases sr)
      show ?thesis
        using client_send_inv [OF lib inv slot p Some [unfolded enc]] run \<open>find_client_slot_by_id (clients self) client_id = Some slot\<close>
          slot state False unchanged Some enc inv
        by (auto simp: update_client_def Let_def bind_eq_Some_conv split: if_splits sum.splits)
    qed (use run Some slot state False unchanged inv in \<open>auto simp: update_client_def Let_def split: if_splits\<close>)
  qed
qed (use inv run in \<open>simp add: update_client_def\<close>)

lemma netcode_server_new_inv: "netcode_server_new key config = Some self \<Longrightarrow> sv_inv self"
proof -
  have "flatten (replicate n (None :: NetcodeConnection option)) = []" for n
    by (simp add: flatten_def)
  then show "netcode_server_new key config = Some self \<Longrightarrow> sv_inv self"
    by (auto simp: netcode_server_new_def sv_inv_def netcode_sizes NETCODE_MAX_CLIENTS_def split: if_splits)
qed
subsection \<open>Reachable states\<close>

text \<open>Any calls by the transport and the application, with any bytes from any address.\<close>

inductive sv_reach :: "aead_lib \<Rightarrow> bytes \<Rightarrow> ServerConfig \<Rightarrow> NetcodeServer \<Rightarrow> bool" for lib key config where
  reach_new: "netcode_server_new key config = Some self \<Longrightarrow> sv_reach lib key config self"
| reach_packet: "sv_reach lib key config self \<Longrightarrow> sv_process_packet lib self socket_id addr buffer = Some (self', r) \<Longrightarrow> sv_reach lib key config self'"
| reach_update: "sv_reach lib key config self \<Longrightarrow> sv_reach lib key config (sv_update self d)"
| reach_update_client: "sv_reach lib key config self \<Longrightarrow> update_client lib self client_id = Some (self', r) \<Longrightarrow> sv_reach lib key config self'"
| reach_payload: "sv_reach lib key config self \<Longrightarrow> sv_generate_payload_packet lib self client_id payload = Some (self', e) \<Longrightarrow> sv_reach lib key config self'"
| reach_disconnect: "sv_reach lib key config self \<Longrightarrow> sv_disconnect lib self client_id = Some (self', r) \<Longrightarrow> sv_reach lib key config self'"
| reach_max_clients: "sv_reach lib key config self \<Longrightarrow> sv_reach lib key config (set_max_clients self n)"

lemma sv_reach_inv: "sv_reach lib key config self \<Longrightarrow> aead_laws lib \<Longrightarrow> sv_inv self"
proof (induction rule: sv_reach.induct)
  case (reach_packet self socket_id addr buffer self' r)
  then show ?case
    by (auto simp: sv_process_packet_def bind_eq_Some_conv intro: process_packet_internal_inv)
next
  case (reach_max_clients self n)
  then have "sv_inv self"
    by simp
  then show ?case
    unfolding set_max_clients_def by (rule sv_inv_cong) (use \<open>sv_inv self\<close> in \<open>auto simp: sv_inv_def\<close>)
qed (auto intro: netcode_server_new_inv sv_update_inv update_client_inv sv_generate_payload_packet_inv sv_disconnect_inv)

text \<open>
  C5: In every state that a server can reach, whatever datagrams arrive, the slots and the pending clients are
  well formed: no address of a socket holds two slots, no address is both connected and pending, a pending
  entry is filed under its own address and a connection belongs to one of the sockets, its user data has 256
  bytes, no time stamp lies in the future, and there are at most 4096 pending clients.
\<close>

theorem netcode_server_well_formed:
  assumes "aead_laws lib" "sv_reach lib key config self"
  shows "distinct (map addr_of (flatten (clients self))) \<and>
    fst ` set (pending_clients self) \<inter> addr_of ` set (flatten (clients self)) = {} \<and>
    length (pending_clients self) \<le> 4096 \<and> sv_inv self"
  using sv_reach_inv [OF assms(2,1)] by (auto simp: sv_inv_def NETCODE_MAX_PENDING_CLIENTS_def NETCODE_MAX_CLIENTS_def)

definition demo_server_config :: ServerConfig where
  "demo_server_config = \<lparr>cfg_current_time = 0, cfg_max_clients = 2, cfg_protocol_id = 42,
     cfg_sockets = [server_socket_config_new [V4 [127, 0, 0, 1] 5000]], cfg_authentication = SecureServer (replicate 32 5)\<rparr>"

theorem netcode_server_well_formed_witness:
  "\<exists>self. netcode_server_new (replicate 32 6) demo_server_config = Some self \<and>
     sv_reach rfc_aead (replicate 32 6) demo_server_config (sv_update self 5) \<and> sv_inv (sv_update self 5)"
proof -
  have "cfg_sockets demo_server_config \<noteq> []" "\<not> cfg_max_clients demo_server_config > NETCODE_MAX_CLIENTS"
    by (simp_all add: demo_server_config_def NETCODE_MAX_CLIENTS_def)
  then obtain self where new: "netcode_server_new (replicate 32 6) demo_server_config = Some self"
    unfolding netcode_server_new_def by (simp only: if_False)
  have reach: "sv_reach rfc_aead (replicate 32 6) demo_server_config (sv_update self 5)"
    by (rule reach_update [OF reach_new [OF new]])
  then show ?thesis
    using new netcode_server_well_formed [OF rfc.aead_laws_axioms reach] by blast
qed

subsection \<open>Datagrams from unknown addresses\<close>

lemma decode_without_key:
  obtains e where "packet_decode lib buffer protocol_id None None encrypted = Some (None, Inl e)"
  | p where "packet_decode lib buffer protocol_id None None encrypted = Some (None, Inr (0, p))" "packet_wf p" "packet_type p = TConnectionRequest"
proof (cases "length buffer < 2 + NETCODE_MAC_BYTES")
  case False
  obtain code n where prefix: "decode_prefix (buffer ! 0) = (code, n)"
    by (cases "decode_prefix (buffer ! 0)")
  show thesis
  proof (cases "packet_type_from_u8 code")
    case (Inr t)
    show thesis
    proof (cases "t = TConnectionRequest")
      case True
      show thesis
      proof (cases "packet_read TConnectionRequest (drop 1 buffer)")
        case (Ok p)
        then show thesis
          using that(2) [of p] False prefix Inr True packet_read_wf [OF Ok] by (simp add: packet_decode_def del: packet_read.simps)
      qed (use that(1) False prefix Inr True packet_read_not_Panic [of TConnectionRequest "drop 1 buffer"] in \<open>simp_all add: packet_decode_def del: packet_read.simps\<close>)
    qed (use that(1) False prefix Inr in \<open>simp add: packet_decode_def\<close>)
  qed (use that(1) False prefix in \<open>simp add: packet_decode_def\<close>)
qed (use that(1) in \<open>simp add: packet_decode_def\<close>)

definition counters_free :: "NetcodeServer \<Rightarrow> bool" where
  "counters_free self \<longleftrightarrow> unat (global_sequence self) + 1 < 2 ^ 64 \<and> unat (challenge_sequence self) + 1 < 2 ^ 64"

lemma accept_request_total:
  assumes lib: "aead_laws lib" and inv: "sv_inv self" and free: "counters_free self"
    and socket: "socket_id < length (sockets self)" and token: "length (pt_user_data token) = 256"
  shows "\<exists>res. accept_request lib self socket_id addr expire_timestamp token = Some res"
proof -
  let ?s1 = "self\<lparr>challenge_sequence := challenge_sequence self + 1\<rparr>"
  obtain challenge where challenge: "generate_challenge lib (pt_client_id token) (pt_user_data token) (challenge_sequence self + 1) (challenge_key self) =
      Ok (Challenge (challenge_sequence self + 1) challenge)" "length challenge = 300"
    by (rule aead_laws.challenge_roundtrip [OF lib token]) blast
  let ?p = "Challenge (challenge_sequence self + 1) challenge"
  have s1: "length (sv_out ?s1) = 1400" "socket_id < length (sockets ?s1)" "unat (global_sequence ?s1) + 1 < 2 ^ 64"
    using inv socket free by (simp_all add: sv_inv_def counters_free_def)
  have p: "packet_wf ?p" "packet_type ?p \<noteq> TConnectionRequest" "length (concat (packet_parts ?p)) \<le> 1300"
    using challenge(2) by simp_all
  obtain out bs where "send_with_global_sequence lib ?s1 ?p (pt_server_to_client_key token) socket_id =
      Some (?s1\<lparr>sv_out := out, global_sequence := global_sequence ?s1 + 1\<rparr>, Inr bs)"
    by (rule send_with_global_sequence_ok [OF lib s1(1,2) p s1(3)]) blast
  moreover have "checked_add_u64 (challenge_sequence self) 1 = Some (challenge_sequence self + 1)"
    using free by (simp add: checked_add_u64_def counters_free_def)
  ultimately show ?thesis
    using challenge by (simp add: accept_request_def Let_def)
qed

lemma admit_request_total:
  assumes lib: "aead_laws lib" and inv: "sv_inv self" and free: "counters_free self"
    and socket: "socket_id < length (sockets self)" and token: "length (pt_user_data token) = 256"
  shows "\<exists>res. admit_request lib self socket_id addr expire_timestamp data token = Some res"
proof -
  let ?new = "\<lparr>entry_time = sv_current_time self, entry_socket_id = socket_id, entry_address = addr,
    entry_mac = drop (NETCODE_CONNECT_TOKEN_PRIVATE_BYTES - NETCODE_MAC_BYTES) data\<rparr>"
  have ne: "connect_token_entries self \<noteq> []"
    using inv by (simp add: sv_inv_def)
  have "\<exists>s1 ok. find_or_add_connect_token_entry self ?new = Some (s1, ok)"
    by (rule find_or_add_entry [OF ne, of ?new]) auto
  then obtain s1 ok where entry: "find_or_add_connect_token_entry self ?new = Some (s1, ok)"
    by blast
  obtain es where s1: "s1 = self\<lparr>connect_token_entries := es\<rparr>" "es \<noteq> []"
    by (rule find_or_add_entry_state [OF ne entry])
  have "sv_inv s1"
    using s1 inv by (intro sv_inv_cong [OF inv]) (auto simp: sv_inv_def)
  then have inv1: "sv_inv s1" "counters_free s1" "socket_id < length (sockets s1)"
    using s1 free socket by (simp_all add: counters_free_def)
  let ?s2 = "s1\<lparr>pending_clients := AList.delete (socket_id, addr) (pending_clients s1)\<rparr>"
  have s2: "length (sv_out ?s2) = 1400" "socket_id < length (sockets ?s2)" "unat (global_sequence ?s2) + 1 < 2 ^ 64"
    using inv1 by (simp_all add: sv_inv_def counters_free_def)
  have p: "packet_wf ConnectionDeniedPacket" "packet_type ConnectionDeniedPacket \<noteq> TConnectionRequest" "length (concat (packet_parts ConnectionDeniedPacket)) \<le> 1300"
    by simp_all
  obtain out bs where full: "send_with_global_sequence lib ?s2 ConnectionDeniedPacket (pt_server_to_client_key token) socket_id =
      Some (?s2\<lparr>sv_out := out, global_sequence := global_sequence ?s2 + 1\<rparr>, Inr bs)"
    by (rule send_with_global_sequence_ok [OF lib s2(1,2) p s2(3)]) blast
  show ?thesis
    using full entry accept_request_total [OF lib inv1 token]
    by (auto simp: admit_request_def Let_def split: option.split)
qed
lemma private_decode_not_Panic: "length data = 1024 \<Longrightarrow> private_decode lib data protocol_id expire xnonce key \<noteq> Panic"
proof -
  assume data: "length data = 1024"
  have hosts: "read_host src \<noteq> Panic" for src
    by (auto simp: read_host_def and_then_eq_Panic)
  have "read_hosts n src \<noteq> Panic" for n src
    by (induction n arbitrary: src) (auto simp: and_then_eq_Panic hosts)
  then have "read_server_addresses src \<noteq> Panic" for src
    by (auto simp: read_server_addresses_def and_then_eq_Panic Let_def)
  then have "private_read src \<noteq> Panic" for src
    by (auto simp: private_read_def and_then_eq_Panic)
  then show ?thesis
    using data by (auto simp: private_decode_def Let_def and_then_eq_Panic dencrypted_xnonce_Panic netcode_sizes)
qed

lemma handle_connection_request_total:
  assumes lib: "aead_laws lib" and inv: "sv_inv self" and free: "counters_free self" and data: "length data = 1024"
  shows "\<exists>res. handle_connection_request lib self socket_id addr version_info protocol_id expire_timestamp xnonce data = Some res"
proof (cases "private_decode lib data (sv_protocol_id self) expire_timestamp xnonce (connect_key self)")
  case (Ok token)
  have user: "length (pt_user_data token) = 256"
    by (rule private_decode_user_data [OF Ok])
  show ?thesis
  proof (cases "socket_id < length (sockets self)")
    case True
    then show ?thesis
      using Ok admit_request_total [OF lib inv free True user, of addr expire_timestamp data] by (auto simp: handle_connection_request_def)
  qed (use Ok in \<open>auto simp: handle_connection_request_def\<close>)
qed (use private_decode_not_Panic [OF data] in \<open>auto simp: handle_connection_request_def\<close>)

text \<open>
  C13: Nobody can stop the server from an address it does not know: a datagram of any content that comes from an
  address which is neither connected nor pending is processed without a panic, in every well-formed state
  whose counters have not run out.
\<close>

theorem stranger_cannot_panic_server:
  assumes "aead_laws lib" "sv_inv self" "counters_free self" "socket_id < length (sockets self)"
    and "find_client_mut_by_addr (clients self) socket_id addr = None" "map_of (pending_clients self) (socket_id, addr) = None"
  shows "\<exists>self' result. sv_process_packet lib self socket_id addr buffer = Some (self', result) \<and> sv_inv self'"
proof -
  let ?enc = "needs_encryption (sockets self ! socket_id)"
  have "\<exists>self' r. process_packet_internal lib self socket_id addr buffer = Some (self', r)"
  proof (cases "length buffer < 2 + NETCODE_MAC_BYTES")
    case False
    show ?thesis
    proof (rule decode_without_key [of lib buffer "sv_protocol_id self" ?enc])
      fix e
      assume "packet_decode lib buffer (sv_protocol_id self) None None ?enc = Some (None, Inl e)"
      then show ?thesis
        using False assms(4-6) by (auto simp: process_packet_internal_def)
    next
      fix p
      assume dec: "packet_decode lib buffer (sv_protocol_id self) None None ?enc = Some (None, Inr (0, p))" "packet_wf p" "packet_type p = TConnectionRequest"
      then obtain version protocol expire xnonce data where p: "p = ConnectionRequest version protocol expire xnonce data" "length data = 1024"
        by (cases p) auto
      have "\<exists>self' r. handle_connection_request lib self socket_id addr version protocol expire xnonce data = Some (self', r)"
        using handle_connection_request_total [OF assms(1-3) p(2)] by (metis prod.exhaust)
      then show ?thesis
        using False assms(4-6) dec(1) p(1) by (simp add: process_packet_internal_def handle_request_packet_def)
    qed
  qed (simp add: process_packet_internal_def)
  then obtain self' r where "process_packet_internal lib self socket_id addr buffer = Some (self', r)"
    by blast
  then show ?thesis
    using process_packet_internal_inv [OF assms(1,2)] by (auto simp: sv_process_packet_def)
qed

theorem stranger_cannot_panic_server_witness:
  "\<exists>self self' result. netcode_server_new (replicate 32 6) demo_server_config = Some self \<and>
     sv_process_packet rfc_aead self 0 (V4 [1, 2, 3, 4] 9) (0x95 # replicate 17 0) = Some (self', result)"
proof -
  have "cfg_sockets demo_server_config \<noteq> []" "\<not> cfg_max_clients demo_server_config > NETCODE_MAX_CLIENTS"
    by (simp_all add: demo_server_config_def NETCODE_MAX_CLIENTS_def)
  then obtain self where new: "netcode_server_new (replicate 32 6) demo_server_config = Some self"
    and fields: "clients self = replicate (cfg_max_clients demo_server_config) None" "pending_clients self = []"
      "sockets self = cfg_sockets demo_server_config" "global_sequence self = 0" "challenge_sequence self = 0"
    unfolding netcode_server_new_def by (simp only: if_False) simp
  have "\<exists>self' result. sv_process_packet rfc_aead self 0 (V4 [1, 2, 3, 4] 9) (0x95 # replicate 17 0) = Some (self', result) \<and> sv_inv self'"
    by (rule stranger_cannot_panic_server [OF rfc.aead_laws_axioms netcode_server_new_inv [OF new]])
      (simp_all add: counters_free_def fields find_by_addr_None flatten_def demo_server_config_def)
  then show ?thesis
    using new by blast
qed

end
