(* ===== verification/Netcode_Handshake.thy ===== *)
theory Netcode_Handshake
  imports Netcode_Server_Invariant
begin

text \<open>
  A client and a server together: the exchange of connection request, challenge, response and keep-alive that
  connects a client, over a network that delivers each datagram once. The client is the model of \<open>client.rs\<close>,
  the server that of \<open>server.rs\<close>; what one sends is the bytes the other decodes. The two datagrams of the server are
  part of the result.
\<close>

definition handshake ::
  "aead_lib \<Rightarrow> NetcodeServer \<Rightarrow> NetcodeClient \<Rightarrow> nat \<Rightarrow> SocketAddr \<Rightarrow> (NetcodeServer \<times> NetcodeClient \<times> ServerResult \<times> bytes \<times> bytes) option" where
  "handshake lib server client socket_id addr = do {
     (client, request) \<leftarrow> nc_update lib client 0;
     (request, _) \<leftarrow> request;
     (server, result) \<leftarrow> sv_process_packet lib server socket_id addr request;
     challenge \<leftarrow> (case result of ConnectionAccepted _ _ _ bs \<Rightarrow> Some bs | _ \<Rightarrow> None);
     (client, _) \<leftarrow> nc_process_packet lib client challenge;
     (client, response) \<leftarrow> nc_update lib client 0;
     (response, _) \<leftarrow> response;
     (server, result) \<leftarrow> sv_process_packet lib server socket_id addr response;
     keep_alive \<leftarrow> (case result of ResultClientConnected _ _ _ _ bs \<Rightarrow> Some bs | _ \<Rightarrow> None);
     (client, _) \<leftarrow> nc_process_packet lib client keep_alive;
     Some (server, client, result, challenge, keep_alive)
   }"

subsection \<open>The client's side\<close>

definition on_time :: "NetcodeClient \<Rightarrow> bool" where
  "on_time self \<longleftrightarrow> as_secs (nc_current_time self - connect_start_time self) <
     unat (ct_expire_timestamp (nc_connect_token self) - create_timestamp (nc_connect_token self))"

definition client_after_send :: "NetcodeClient \<Rightarrow> bytes \<Rightarrow> NetcodeClient" where
  "client_after_send self out = self\<lparr>nc_last_packet_send_time := Some (nc_current_time self), nc_out := out, nc_sequence := nc_sequence self + 1\<rparr>"

lemma nc_update_now:
  assumes inv: "nc_inv self" and live: "nc_is_connecting self" "on_time self" "nc_last_packet_send_time self = None"
    and p: "packet_for_state self = Some p" and n: "unat (nc_sequence self) + 1 < 2 ^ 64"
    and enc: "packet_encode lib p (nc_out self) (ct_protocol_id (nc_connect_token self))
       (Some (nc_sequence self, ct_client_to_server_key (nc_connect_token self))) (nc_encryption_policy self) = Some (out, Inr len)"
      "len \<le> length out"
  shows "nc_update lib self 0 = Some (client_after_send self out, Some (take len out, nc_server_addr self))"
proof -
  have "\<not> connection_timed_out self" "create_timestamp (nc_connect_token self) \<le> ct_expire_timestamp (nc_connect_token self)"
    "connect_start_time self \<le> nc_current_time self"
    using inv live(1) by (auto simp: nc_inv_def nc_states)
  then have "update_internal_state self 0 = Some (self, Inr ())"
    using live by (simp add: update_internal_state_def Let_def checked_sub_u64_def on_time_def)
  moreover have "packet_for_state (self\<lparr>nc_last_packet_send_time := Some (nc_current_time self)\<rparr>) = Some p"
    using p by (cases "nc_state self") (simp_all add: packet_for_state_def)
  then have "send_packet lib self = Some (client_after_send self out, Some (take len out, nc_server_addr self))"
    using live(1) enc n by (simp add: send_packet_def Let_def client_encode_def checked_add_u64_def client_after_send_def)
  ultimately show ?thesis
    using live(3) by (simp add: nc_update_def generate_packet_def)
qed

lemma client_sends_request:
  assumes inv: "nc_inv self" and state: "nc_state self = SendingConnectionRequest" and live: "on_time self" "nc_last_packet_send_time self = None"
    and n: "unat (nc_sequence self) + 1 < 2 ^ 64"
  obtains out req where "nc_update lib self 0 = Some (client_after_send self out, Some (req, nc_server_addr self))" "length out = 1400" "length req = 1078"
    "\<And>protocol_id key rp encrypted. packet_decode lib req protocol_id key rp encrypted = Some (rp, Inr (0, connection_request_from_token (nc_connect_token self)))"
proof -
  let ?p = "connection_request_from_token (nc_connect_token self)"
  have wf: "packet_wf ?p" "packet_type ?p = TConnectionRequest" "1078 \<le> length (nc_out self)"
    using inv request_wf by (simp_all add: nc_inv_def connection_request_from_token_def)
  have "\<exists>out. packet_encode lib ?p (nc_out self) protocol_id crypto encrypted = Some (out, Inr 1078) \<and> length (take 1078 out) = 1078 \<and> length out = length (nc_out self) \<and>
    packet_decode lib (take 1078 out) protocol_id' key rp encrypted' = Some (rp, Inr (0, ?p))" for protocol_id crypto encrypted protocol_id' key rp encrypted'
    by (rule connection_request_roundtrip [OF wf])
  then obtain out where enc: "packet_encode lib ?p (nc_out self) (ct_protocol_id (nc_connect_token self))
       (Some (nc_sequence self, ct_client_to_server_key (nc_connect_token self))) (nc_encryption_policy self) = Some (out, Inr 1078)"
    "length (take 1078 out) = 1078" "length out = length (nc_out self)"
    by blast
  have dec: "packet_decode lib (take 1078 out) protocol_id key rp encrypted = Some (rp, Inr (0, ?p))" for protocol_id key rp encrypted
    using connection_request_roundtrip [OF wf, of lib "ct_protocol_id (nc_connect_token self)" "Some (nc_sequence self, ct_client_to_server_key (nc_connect_token self))"
        "nc_encryption_policy self" protocol_id key rp encrypted] enc(1) by auto
  have "nc_update lib self 0 = Some (client_after_send self out, Some (take 1078 out, nc_server_addr self))"
    using state live enc inv by (intro nc_update_now [OF inv _ _ _ _ n]) (simp_all add: nc_is_connecting_def packet_for_state_def nc_inv_def)
  then show thesis
    using that [of out "take 1078 out"] enc(2,3) dec inv by (simp add: nc_inv_def)
qed

lemma client_sends_response:
  assumes lib: "aead_laws lib" and inv: "nc_inv self" and state: "nc_state self = SendingConnectionResponse"
    and live: "on_time self" "nc_last_packet_send_time self = None" and n: "unat (nc_sequence self) + 1 < 2 ^ 64"
  obtains out resp where "nc_update lib self 0 = Some (client_after_send self out, Some (resp, nc_server_addr self))" "length out = 1400" "18 \<le> length resp"
    "\<And>rp. packet_decode lib resp (ct_protocol_id (nc_connect_token self)) (Some (ct_client_to_server_key (nc_connect_token self))) (Some rp) (nc_encryption_policy self) =
       Some (Some rp, Inr (nc_sequence self, Response (challenge_token_sequence self) (challenge_token_data self)))"
proof -
  let ?p = "Response (challenge_token_sequence self) (challenge_token_data self)"
  have p: "packet_wf ?p" "packet_type ?p \<noteq> TConnectionRequest"
    and room: "length (concat (packet_parts ?p)) + 25 \<le> length (nc_out self)" "length (nc_out self) \<le> NETCODE_MAX_PACKET_BYTES"
    using inv by (simp_all add: nc_inv_def netcode_sizes)
  obtain out len where enc: "packet_encode lib ?p (nc_out self) (ct_protocol_id (nc_connect_token self))
       (Some (nc_sequence self, ct_client_to_server_key (nc_connect_token self))) (nc_encryption_policy self) = Some (out, Inr len)"
    "length out = length (nc_out self)" "len \<le> length (nc_out self)" "len = 17 + sequence_bytes_required (nc_sequence self) + length (concat (packet_parts ?p))"
    "\<And>rp. check_replay rp (packet_type ?p) (nc_sequence self) = Some False \<Longrightarrow> packet_decode lib (take len out) (ct_protocol_id (nc_connect_token self))
       (Some (ct_client_to_server_key (nc_connect_token self))) rp (nc_encryption_policy self) =
      (if nc_sequence self = 0 \<and> concat (packet_parts ?p) = [] then Some (rp, Inl PacketTooSmall)
       else Some (advance_replay rp (packet_type ?p) (nc_sequence self), Inr (nc_sequence self, ?p)))"
    by (rule encode_then_decode [OF lib p room]) blast
  have "nc_update lib self 0 = Some (client_after_send self out, Some (take len out, nc_server_addr self))"
    using state live enc(1-3) by (intro nc_update_now [OF inv _ _ _ _ n]) (simp_all add: nc_is_connecting_def packet_for_state_def)
  moreover have "concat (packet_parts ?p) \<noteq> []"
    using inv by (auto simp: nc_inv_def)
  moreover have "18 \<le> length (take len out)"
    using enc(2-4) inv by (simp add: nc_inv_def)
  ultimately show thesis
    using that [of out "take len out"] enc(2,5) inv by (simp add: nc_inv_def check_replay_def advance_replay_def)
qed
subsection \<open>The server's side\<close>

text \<open>The server can read the token, knows neither the address nor the client and has a slot left.\<close>

definition admits :: "aead_lib \<Rightarrow> NetcodeServer \<Rightarrow> nat \<Rightarrow> SocketAddr \<Rightarrow> ConnectToken \<Rightarrow> PrivateConnectToken \<Rightarrow> bool" where
  "admits lib server socket_id addr token p \<longleftrightarrow> sv_inv server \<and> counters_free server \<and> socket_id < length (sockets server) \<and>
     unat (pt_socket_id p) = socket_id \<and> find_client_mut_by_addr (clients server) socket_id addr = None \<and>
     find_client_mut_by_id (clients server) (pt_client_id p) = None \<and> map_of (pending_clients server) (socket_id, addr) = None \<and>
     length (pending_clients server) < NETCODE_MAX_PENDING_CLIENTS \<and>
     (\<forall>e. Some e \<in> set (connect_token_entries server) \<longrightarrow> entry_mac e \<noteq> drop 1008 (private_data token)) \<and>
     length (flatten (clients server)) < sv_max_clients server \<and> length (flatten (clients server)) < length (clients server) \<and>
     sv_protocol_id server = ct_protocol_id token \<and> as_secs (sv_current_time server) < unat (ct_expire_timestamp token) \<and>
     private_decode lib (private_data token) (ct_protocol_id token) (ct_expire_timestamp token) (ct_xnonce token) (connect_key server) = Ok p \<and>
     (secure server \<longrightarrow> in_host_list server socket_id p)"

lemma accept_request_ok:
  assumes lib: "aead_laws lib" and inv: "sv_inv self" and free: "counters_free self"
    and socket: "socket_id < length (sockets self)" and token: "length (pt_user_data p) = 256"
    and new: "map_of (pending_clients self) (socket_id, addr) = None"
  obtains out bs data where
    "accept_request lib self socket_id addr expire p = Some (self\<lparr>challenge_sequence := challenge_sequence self + 1, sv_out := out,
       global_sequence := global_sequence self + 1,
       pending_clients := AList.update (socket_id, addr) (new_pending self socket_id addr expire p) (pending_clients self)\<rparr>,
       Inr (ConnectionAccepted (pt_client_id p) socket_id addr bs))"
    "length out = 1400" "length data = 300"
    "\<And>rp. packet_decode lib bs (sv_protocol_id self) (Some (pt_server_to_client_key p)) (Some rp) (needs_encryption (sockets self ! socket_id)) =
       Some (Some rp, Inr (global_sequence self, Challenge (challenge_sequence self + 1) data))"
    "challenge_token_decode lib data (challenge_sequence self + 1) (challenge_key self) = Ok \<lparr>ch_client_id = pt_client_id p, ch_user_data = pt_user_data p\<rparr>"
proof -
  let ?s1 = "self\<lparr>challenge_sequence := challenge_sequence self + 1\<rparr>"
  obtain data where challenge: "generate_challenge lib (pt_client_id p) (pt_user_data p) (challenge_sequence self + 1) (challenge_key self) =
      Ok (Challenge (challenge_sequence self + 1) data)" "length data = 300"
    "challenge_token_decode lib data (challenge_sequence self + 1) (challenge_key self) = Ok \<lparr>ch_client_id = pt_client_id p, ch_user_data = pt_user_data p\<rparr>"
    by (rule aead_laws.challenge_roundtrip [OF lib token]) blast
  let ?p = "Challenge (challenge_sequence self + 1) data"
  have s1: "length (sv_out ?s1) = 1400" "socket_id < length (sockets ?s1)" "unat (global_sequence ?s1) + 1 < 2 ^ 64"
    using inv socket free by (simp_all add: sv_inv_def counters_free_def)
  have p: "packet_wf ?p" "packet_type ?p \<noteq> TConnectionRequest" "length (concat (packet_parts ?p)) \<le> 1300"
    using challenge(2) by simp_all
  obtain out bs where send: "send_with_global_sequence lib ?s1 ?p (pt_server_to_client_key p) socket_id =
      Some (?s1\<lparr>sv_out := out, global_sequence := global_sequence ?s1 + 1\<rparr>, Inr bs)" "length out = 1400"
    "\<And>rp. check_replay rp (packet_type ?p) (global_sequence ?s1) = Some False \<Longrightarrow>
      packet_decode lib bs (sv_protocol_id ?s1) (Some (pt_server_to_client_key p)) rp (needs_encryption (sockets ?s1 ! socket_id)) =
        (if global_sequence ?s1 = 0 \<and> concat (packet_parts ?p) = [] then Some (rp, Inl PacketTooSmall)
         else Some (advance_replay rp (packet_type ?p) (global_sequence ?s1), Inr (global_sequence ?s1, ?p)))"
    by (rule send_with_global_sequence_ok [OF lib s1(1,2) p s1(3)]) blast
  have "checked_add_u64 (challenge_sequence self) 1 = Some (challenge_sequence self + 1)"
    using free by (simp add: checked_add_u64_def counters_free_def)
  then have "accept_request lib self socket_id addr expire p = Some (self\<lparr>challenge_sequence := challenge_sequence self + 1, sv_out := out,
       global_sequence := global_sequence self + 1,
       pending_clients := AList.update (socket_id, addr) (new_pending self socket_id addr expire p) (pending_clients self)\<rparr>,
       Inr (ConnectionAccepted (pt_client_id p) socket_id addr bs))"
    using challenge(1) send(1) new by (simp add: accept_request_def Let_def new_pending_def)
  moreover have "packet_decode lib bs (sv_protocol_id self) (Some (pt_server_to_client_key p)) (Some rp) (needs_encryption (sockets self ! socket_id)) =
       Some (Some rp, Inr (global_sequence self, ?p))" for rp
    using send(3) [of "Some rp"] challenge(2) by (auto simp: check_replay_def advance_replay_def)
  ultimately show thesis
    using that send(2) challenge(2,3) by blast
qed

lemma server_accepts:
  assumes lib: "aead_laws lib" and ok: "admits lib server socket_id addr token p"
    and req: "length req = 1078" "\<And>protocol_id key rp encrypted. packet_decode lib req protocol_id key rp encrypted = Some (rp, Inr (0, connection_request_from_token token))"
  obtains es out bs data where
    "sv_process_packet lib server socket_id addr req = Some (server\<lparr>connect_token_entries := es, challenge_sequence := challenge_sequence server + 1, sv_out := out,
       global_sequence := global_sequence server + 1,
       pending_clients := AList.update (socket_id, addr) (new_pending server socket_id addr (ct_expire_timestamp token) p) (pending_clients server)\<rparr>,
       ConnectionAccepted (pt_client_id p) socket_id addr bs)"
    "es \<noteq> []" "length out = 1400" "length data = 300"
    "\<And>rp. packet_decode lib bs (ct_protocol_id token) (Some (pt_server_to_client_key p)) (Some rp) (needs_encryption (sockets server ! socket_id)) =
       Some (Some rp, Inr (global_sequence server, Challenge (challenge_sequence server + 1) data))"
    "challenge_token_decode lib data (challenge_sequence server + 1) (challenge_key server) = Ok \<lparr>ch_client_id = pt_client_id p, ch_user_data = pt_user_data p\<rparr>"
proof -
  let ?new = "\<lparr>entry_time = sv_current_time server, entry_socket_id = socket_id, entry_address = addr,
    entry_mac = drop (NETCODE_CONNECT_TOKEN_PRIVATE_BYTES - NETCODE_MAC_BYTES) (private_data token)\<rparr>"
  have inv: "sv_inv server" and ne: "connect_token_entries server \<noteq> []" and user: "length (pt_user_data p) = 256"
    using ok by (auto simp: admits_def sv_inv_def dest: private_decode_user_data)
  have unknown: "Some e \<in> set (connect_token_entries server) \<Longrightarrow> entry_mac e \<noteq> entry_mac ?new" for e
    using ok by (auto simp: admits_def netcode_sizes)
  obtain es where entry: "find_or_add_connect_token_entry server ?new = Some (server\<lparr>connect_token_entries := es\<rparr>, True)" "es \<noteq> []"
    by (rule find_or_add_entry [OF ne, of ?new]) (use unknown ne in auto)
  let ?s = "server\<lparr>connect_token_entries := es\<rparr>"
  have inv': "sv_inv ?s"
    using inv entry(2) by (intro sv_inv_cong [OF inv]) (auto simp: sv_inv_def)
  have s: "counters_free ?s" "socket_id < length (sockets ?s)" "map_of (pending_clients ?s) (socket_id, addr) = None"
    using ok by (auto simp: admits_def counters_free_def)
  obtain out bs data where acc:
    "accept_request lib ?s socket_id addr (ct_expire_timestamp token) p = Some (?s\<lparr>challenge_sequence := challenge_sequence ?s + 1, sv_out := out,
       global_sequence := global_sequence ?s + 1,
       pending_clients := AList.update (socket_id, addr) (new_pending ?s socket_id addr (ct_expire_timestamp token) p) (pending_clients ?s)\<rparr>,
       Inr (ConnectionAccepted (pt_client_id p) socket_id addr bs))"
    "length out = 1400" "length data = 300"
    "\<And>rp. packet_decode lib bs (sv_protocol_id ?s) (Some (pt_server_to_client_key p)) (Some rp) (needs_encryption (sockets ?s ! socket_id)) =
       Some (Some rp, Inr (global_sequence ?s, Challenge (challenge_sequence ?s + 1) data))"
    "challenge_token_decode lib data (challenge_sequence ?s + 1) (challenge_key ?s) = Ok \<lparr>ch_client_id = pt_client_id p, ch_user_data = pt_user_data p\<rparr>"
    by (rule accept_request_ok [OF lib inv' s(1,2) user s(3)]) blast
  have "admit_request lib server socket_id addr (ct_expire_timestamp token) (private_data token) p =
      accept_request lib ?s socket_id addr (ct_expire_timestamp token) p"
    using ok entry(1) by (simp add: admit_request_def admits_def Let_def)
  then have handle: "handle_connection_request lib server socket_id addr NETCODE_VERSION_INFO (ct_protocol_id token) (ct_expire_timestamp token) (ct_xnonce token) (private_data token) =
      accept_request lib ?s socket_id addr (ct_expire_timestamp token) p"
    using ok by (auto simp: handle_connection_request_def admits_def)
  have "process_packet_internal lib server socket_id addr req = accept_request lib ?s socket_id addr (ct_expire_timestamp token) p"
    using ok req handle by (simp add: process_packet_internal_def admits_def netcode_sizes handle_request_packet_def connection_request_from_token_def)
  then have "sv_process_packet lib server socket_id addr req = Some (server\<lparr>connect_token_entries := es, challenge_sequence := challenge_sequence server + 1, sv_out := out,
       global_sequence := global_sequence server + 1,
       pending_clients := AList.update (socket_id, addr) (new_pending server socket_id addr (ct_expire_timestamp token) p) (pending_clients server)\<rparr>,
       ConnectionAccepted (pt_client_id p) socket_id addr bs)"
    using acc(1) by (simp add: sv_process_packet_def new_pending_def)
  then show thesis
    by (rule that) (use entry(2) acc ok in \<open>simp_all add: admits_def\<close>)
qed
subsection \<open>Responses\<close>

definition connected_from :: "NetcodeServer \<Rightarrow> NetcodeConnection \<Rightarrow> ChallengeToken \<Rightarrow> NetcodeConnection" where
  "connected_from self pending ct = pending\<lparr>cn_state := ConnConnected, cn_user_data := ch_user_data ct,
     cn_last_packet_send_time := sv_current_time self, cn_sequence := cn_sequence pending + 1\<rparr>"

lemma connect_pending_ok:
  assumes lib: "aead_laws lib" and out: "length (sv_out self) = 1400" and socket: "socket_id < length (sockets self)"
    and unknown: "find_client_slot_by_id (clients self) (ch_client_id ct) = None" and slot: "position (\<lambda>c. c = None) (clients self) = Some slot"
    and n: "unat (cn_sequence pending) + 1 < 2 ^ 64"
  obtains out' bs where
    "connect_pending lib self socket_id addr pending ct = Some (self\<lparr>sv_out := out', clients := (clients self)[slot := Some (connected_from self pending ct)]\<rparr>,
       Inr (ResultClientConnected (cn_client_id pending) socket_id addr (ch_user_data ct) bs))" "length out' = 1400"
    "\<And>rp. check_replay (Some rp) TKeepAlive (cn_sequence pending) = Some False \<Longrightarrow>
      packet_decode lib bs (sv_protocol_id self) (Some (send_key pending)) (Some rp) (needs_encryption (sockets self ! socket_id)) =
        Some (Some (advance_sequence rp (cn_sequence pending)), Inr (cn_sequence pending, KeepAlive (word_of_nat slot) (word_of_nat (sv_max_clients self))))"
proof -
  let ?p = "KeepAlive (word_of_nat slot) (word_of_nat (sv_max_clients self))"
  have p: "packet_wf ?p" "packet_type ?p \<noteq> TConnectionRequest" "length (concat (packet_parts ?p)) \<le> 1300"
    by simp_all
  have ne: "concat (packet_parts ?p) \<noteq> []"
    by (simp add: u32_le_bytes_def) (metis length_le_bytes list.size(3) zero_neq_numeral)
  obtain out' bs where enc: "server_encode lib self ?p (cn_sequence pending) (send_key pending) socket_id = Some (self\<lparr>sv_out := out'\<rparr>, Inr bs)" "length out' = 1400"
    "\<And>rp. check_replay rp (packet_type ?p) (cn_sequence pending) = Some False \<Longrightarrow>
      packet_decode lib bs (sv_protocol_id self) (Some (send_key pending)) rp (needs_encryption (sockets self ! socket_id)) =
        (if cn_sequence pending = 0 \<and> concat (packet_parts ?p) = [] then Some (rp, Inl PacketTooSmall)
         else Some (advance_replay rp (packet_type ?p) (cn_sequence pending), Inr (cn_sequence pending, ?p)))"
    by (rule server_encode_ok [OF lib out socket p]) blast
  have add: "checked_add_u64 (cn_sequence pending) 1 = Some (cn_sequence pending + 1)"
    using n by (simp add: checked_add_u64_def)
  have "slot < length (clients self)"
    using slot by (auto dest: position_Some)
  then have "connect_pending lib self socket_id addr pending ct = Some (self\<lparr>sv_out := out', clients := (clients self)[slot := Some (connected_from self pending ct)]\<rparr>,
       Inr (ResultClientConnected (cn_client_id pending) socket_id addr (ch_user_data ct) bs))"
    using unknown slot enc(1) add by (simp add: connect_pending_def Let_def set_client_def connected_from_def)
  moreover have "packet_decode lib bs (sv_protocol_id self) (Some (send_key pending)) (Some rp) (needs_encryption (sockets self ! socket_id)) =
      Some (Some (advance_sequence rp (cn_sequence pending)), Inr (cn_sequence pending, ?p))"
    if "check_replay (Some rp) TKeepAlive (cn_sequence pending) = Some False" for rp
    using enc(3) [of "Some rp"] that ne by (simp add: advance_replay_def del: packet_parts.simps)
  ultimately show thesis
    using that enc(2) by blast
qed

lemma server_connects:
  assumes lib: "aead_laws lib" and out: "length (sv_out self) = 1400" and socket: "socket_id < length (sockets self)" and long: "18 \<le> length buffer"
    and free: "find_client_mut_by_addr (clients self) socket_id addr = None" and pending: "map_of (pending_clients self) (socket_id, addr) = Some c"
    and dec: "packet_decode lib buffer (sv_protocol_id self) (Some (receive_key c)) (Some (cn_replay_protection c)) (needs_encryption (sockets self ! socket_id)) =
      Some (Some rp0, Inr (s, Response n data))"
    and ct: "challenge_token_decode lib data n (challenge_key self) = Ok ct"
    and unknown: "find_client_slot_by_id (clients self) (ch_client_id ct) = None" and slot: "position (\<lambda>c. c = None) (clients self) = Some slot"
    and seq: "unat (cn_sequence c) + 1 < 2 ^ 64"
  obtains out' bs where
    "sv_process_packet lib self socket_id addr buffer = Some (self\<lparr>pending_clients := AList.delete (socket_id, addr) (pending_clients self), sv_out := out',
       clients := (clients self)[slot := Some (connected_from self (c\<lparr>cn_replay_protection := rp0, cn_last_packet_received_time := sv_current_time self\<rparr>) ct)]\<rparr>,
       ResultClientConnected (cn_client_id c) socket_id addr (ch_user_data ct) bs)"
    "\<And>rp. check_replay (Some rp) TKeepAlive (cn_sequence c) = Some False \<Longrightarrow>
      packet_decode lib bs (sv_protocol_id self) (Some (send_key c)) (Some rp) (needs_encryption (sockets self ! socket_id)) =
        Some (Some (advance_sequence rp (cn_sequence c)), Inr (cn_sequence c, KeepAlive (word_of_nat slot) (word_of_nat (sv_max_clients self))))"
proof -
  let ?c = "c\<lparr>cn_replay_protection := rp0, cn_last_packet_received_time := sv_current_time self\<rparr>"
  let ?s = "self\<lparr>pending_clients := AList.delete (socket_id, addr) (pending_clients self)\<rparr>"
  have s: "length (sv_out ?s) = 1400" "socket_id < length (sockets ?s)" "find_client_slot_by_id (clients ?s) (ch_client_id ct) = None"
    "position (\<lambda>c. c = None) (clients ?s) = Some slot" "unat (cn_sequence ?c) + 1 < 2 ^ 64"
    using out socket unknown slot seq by simp_all
  obtain out' bs where con: "connect_pending lib ?s socket_id addr ?c ct = Some (?s\<lparr>sv_out := out', clients := (clients ?s)[slot := Some (connected_from ?s ?c ct)]\<rparr>,
       Inr (ResultClientConnected (cn_client_id ?c) socket_id addr (ch_user_data ct) bs))"
    "\<And>rp. check_replay (Some rp) TKeepAlive (cn_sequence ?c) = Some False \<Longrightarrow>
      packet_decode lib bs (sv_protocol_id ?s) (Some (send_key ?c)) (Some rp) (needs_encryption (sockets ?s ! socket_id)) =
        Some (Some (advance_sequence rp (cn_sequence ?c)), Inr (cn_sequence ?c, KeepAlive (word_of_nat slot) (word_of_nat (sv_max_clients ?s))))"
    by (rule connect_pending_ok [OF lib s]) blast
  have twice: "AList.delete k (AList.update k a al) = AList.delete k al" for k a and al :: "((nat \<times> SocketAddr) \<times> NetcodeConnection) list"
    by (induction al) (auto simp: AList.delete_eq)
  have "process_packet_internal lib self socket_id addr buffer = connect_pending lib ?s socket_id addr ?c ct"
    using long free pending socket dec ct by (simp add: process_packet_internal_def netcode_sizes handle_pending_def Let_def twice)
  then have "sv_process_packet lib self socket_id addr buffer = Some (self\<lparr>pending_clients := AList.delete (socket_id, addr) (pending_clients self), sv_out := out',
       clients := (clients self)[slot := Some (connected_from self ?c ct)]\<rparr>, ResultClientConnected (cn_client_id c) socket_id addr (ch_user_data ct) bs)"
    using con(1) by (simp add: sv_process_packet_def connected_from_def)
  then show thesis
    by (rule that) (use con(2) in simp)
qed
subsection \<open>The exchange\<close>

text \<open>A client that has not sent anything yet, and whose token carries the keys of the private part.\<close>

definition fresh :: "NetcodeClient \<Rightarrow> PrivateConnectToken \<Rightarrow> bool" where
  "fresh client p \<longleftrightarrow> nc_inv client \<and> nc_state client = SendingConnectionRequest \<and> on_time client \<and> nc_last_packet_send_time client = None \<and>
     nc_sequence client = 0 \<and> nc_replay_protection client = replay_new \<and>
     ct_client_to_server_key (nc_connect_token client) = pt_client_to_server_key p \<and>
     ct_server_to_client_key (nc_connect_token client) = pt_server_to_client_key p"

definition challenged :: "NetcodeClient \<Rightarrow> u64 \<Rightarrow> bytes \<Rightarrow> NetcodeClient" where
  "challenged self n data = self\<lparr>challenge_token_sequence := n, nc_last_packet_received_time := nc_current_time self,
     nc_last_packet_send_time := None, challenge_token_data := data, nc_state := SendingConnectionResponse\<rparr>"

lemma client_takes_challenge:
  assumes "packet_decode lib bs (ct_protocol_id (nc_connect_token self)) (Some (ct_server_to_client_key (nc_connect_token self)))
      (Some (nc_replay_protection self)) (nc_encryption_policy self) = Some (Some (nc_replay_protection self), Inr (s, Challenge n data))"
    and "nc_state self = SendingConnectionRequest"
  shows "nc_process_packet lib self bs = Some (challenged self n data, None)"
  using assms by (simp add: nc_process_packet_def challenged_def)

lemma client_takes_keep_alive:
  assumes "packet_decode lib bs (ct_protocol_id (nc_connect_token self)) (Some (ct_server_to_client_key (nc_connect_token self)))
      (Some (nc_replay_protection self)) (nc_encryption_policy self) = Some (Some rp, Inr (s, KeepAlive i m))"
    and "nc_state self = SendingConnectionResponse"
  shows "nc_process_packet lib self bs = Some (self\<lparr>nc_replay_protection := rp, nc_last_packet_received_time := nc_current_time self,
     nc_max_clients := m, nc_client_index := i, nc_state := ClientConnected\<rparr>, None)"
  using assms by (simp add: nc_process_packet_def)

lemma challenged_ready:
  assumes "nc_inv self" "nc_state self = SendingConnectionRequest" "on_time self" "length out = 1400" "length data = 300"
  shows "nc_inv (challenged (client_after_send self out) n data)" "on_time (challenged (client_after_send self out) n data)"
  using assms by (simp_all add: nc_inv_def challenged_def client_after_send_def on_time_def nc_is_disconnected_def connection_timed_out_def)

text \<open>The server and the client after the challenge.\<close>

definition accepted_server :: "NetcodeServer \<Rightarrow> nat \<Rightarrow> SocketAddr \<Rightarrow> u64 \<Rightarrow> PrivateConnectToken \<Rightarrow> ConnectTokenEntry option list \<Rightarrow> bytes \<Rightarrow> NetcodeServer" where
  "accepted_server server socket_id addr expire p es out = server\<lparr>connect_token_entries := es, challenge_sequence := challenge_sequence server + 1, sv_out := out,
     global_sequence := global_sequence server + 1,
     pending_clients := AList.update (socket_id, addr) (new_pending server socket_id addr expire p) (pending_clients server)\<rparr>"

lemma first_round:
  assumes lib: "aead_laws lib" and ok: "admits lib server socket_id addr (nc_connect_token client) p" and client: "fresh client p"
    and policy: "nc_encryption_policy client = needs_encryption (sockets server ! socket_id)"
  obtains out1 req es out bs data where
    "nc_update lib client 0 = Some (client_after_send client out1, Some (req, nc_server_addr client))" "length out1 = 1400"
    "sv_process_packet lib server socket_id addr req =
       Some (accepted_server server socket_id addr (ct_expire_timestamp (nc_connect_token client)) p es out, ConnectionAccepted (pt_client_id p) socket_id addr bs)"
    "length out = 1400" "length data = 300"
    "packet_decode lib bs (ct_protocol_id (nc_connect_token client)) (Some (pt_server_to_client_key p)) (Some replay_new) (nc_encryption_policy client) =
       Some (Some replay_new, Inr (global_sequence server, Challenge (challenge_sequence server + 1) data))"
    "challenge_token_decode lib data (challenge_sequence server + 1) (challenge_key server) = Ok \<lparr>ch_client_id = pt_client_id p, ch_user_data = pt_user_data p\<rparr>"
    "nc_process_packet lib (client_after_send client out1) bs = Some (challenged (client_after_send client out1) (challenge_sequence server + 1) data, None)"
proof -
  let ?token = "nc_connect_token client"
  let ?n = "challenge_sequence server + 1"
  have c0: "nc_inv client" "nc_state client = SendingConnectionRequest" "on_time client" "nc_last_packet_send_time client = None"
    "unat (nc_sequence client) + 1 < 2 ^ 64"
    using client by (simp_all add: fresh_def)
  obtain out1 req where request: "nc_update lib client 0 = Some (client_after_send client out1, Some (req, nc_server_addr client))" "length out1 = 1400" "length req = 1078"
    "\<And>protocol_id key rp encrypted. packet_decode lib req protocol_id key rp encrypted = Some (rp, Inr (0, connection_request_from_token ?token))"
    by (rule client_sends_request [OF c0]) blast
  obtain es out bs data where accepted:
    "sv_process_packet lib server socket_id addr req = Some (server\<lparr>connect_token_entries := es, challenge_sequence := ?n, sv_out := out,
       global_sequence := global_sequence server + 1,
       pending_clients := AList.update (socket_id, addr) (new_pending server socket_id addr (ct_expire_timestamp ?token) p) (pending_clients server)\<rparr>,
       ConnectionAccepted (pt_client_id p) socket_id addr bs)"
    "length out = 1400" "length data = 300"
    "\<And>rp. packet_decode lib bs (ct_protocol_id ?token) (Some (pt_server_to_client_key p)) (Some rp) (needs_encryption (sockets server ! socket_id)) =
       Some (Some rp, Inr (global_sequence server, Challenge ?n data))"
    "challenge_token_decode lib data ?n (challenge_key server) = Ok \<lparr>ch_client_id = pt_client_id p, ch_user_data = pt_user_data p\<rparr>"
    by (rule server_accepts [OF lib ok request(3,4)]) blast
  have "nc_process_packet lib (client_after_send client out1) bs = Some (challenged (client_after_send client out1) ?n data, None)"
    by (rule client_takes_challenge [where s = "global_sequence server"])
      (use accepted(4) policy client c0(2) in \<open>simp_all add: client_after_send_def fresh_def\<close>)
  then show thesis
    using that [OF request(1,2) _ accepted(2,3) _ accepted(5)] accepted(1,4) policy unfolding accepted_server_def by simp
qed

lemma already_received_new: "already_received replay_new 0 = Some False"
  by (simp add: already_received_def replay_new_def checked_add_u64_def NETCODE_REPLAY_BUFFER_SIZE_def)

lemma second_round:
  assumes lib: "aead_laws lib" and ok: "admits lib server socket_id addr (nc_connect_token client) p" and client: "fresh client p"
    and policy: "nc_encryption_policy client = needs_encryption (sockets server ! socket_id)"
    and sizes: "length out1 = 1400" "length out = 1400" "length data = 300"
    and ct: "challenge_token_decode lib data (challenge_sequence server + 1) (challenge_key server) = Ok ct" "ch_client_id ct = pt_client_id p"
    and slot: "position (\<lambda>c. c = None) (clients server) = Some slot"
    and s1: "s1 = accepted_server server socket_id addr (ct_expire_timestamp (nc_connect_token client)) p es out"
    and c2: "c2 = challenged (client_after_send client out1) (challenge_sequence server + 1) data"
  obtains out2 resp out' ka where
    "nc_update lib c2 0 = Some (client_after_send c2 out2, Some (resp, nc_server_addr c2))"
    "sv_process_packet lib s1 socket_id addr resp = Some (s1\<lparr>pending_clients := AList.delete (socket_id, addr) (pending_clients s1), sv_out := out',
       clients := (clients server)[slot := Some (connected_from server (new_pending server socket_id addr (ct_expire_timestamp (nc_connect_token client)) p) ct)]\<rparr>,
       ResultClientConnected (pt_client_id p) socket_id addr (ch_user_data ct) ka)"
    "packet_decode lib ka (sv_protocol_id server) (Some (pt_server_to_client_key p)) (Some replay_new) (nc_encryption_policy client) =
       Some (Some (advance_sequence replay_new 0), Inr (0, KeepAlive (word_of_nat slot) (word_of_nat (sv_max_clients server))))"
proof -
  let ?pending = "new_pending server socket_id addr (ct_expire_timestamp (nc_connect_token client)) p"
  have keys: "ct_client_to_server_key (nc_connect_token client) = pt_client_to_server_key p" "nc_sequence client = 0"
    and c0: "nc_inv client" "nc_state client = SendingConnectionRequest" "on_time client"
    using client by (simp_all add: fresh_def)
  have ready: "nc_inv c2" "nc_state c2 = SendingConnectionResponse" "on_time c2" "nc_last_packet_send_time c2 = None" "unat (nc_sequence c2) + 1 < 2 ^ 64"
    using challenged_ready [OF c0 sizes(1,3)] keys by (simp_all add: c2 challenged_def client_after_send_def)
  obtain out2 resp where response: "nc_update lib c2 0 = Some (client_after_send c2 out2, Some (resp, nc_server_addr c2))" "18 \<le> length resp"
    "\<And>rp. packet_decode lib resp (ct_protocol_id (nc_connect_token c2)) (Some (ct_client_to_server_key (nc_connect_token c2))) (Some rp) (nc_encryption_policy c2) =
       Some (Some rp, Inr (nc_sequence c2, Response (challenge_token_sequence c2) (challenge_token_data c2)))"
    by (rule client_sends_response [OF lib ready]) blast
  have sv: "length (sv_out s1) = 1400" "socket_id < length (sockets s1)" "find_client_mut_by_addr (clients s1) socket_id addr = None"
    "map_of (pending_clients s1) (socket_id, addr) = Some ?pending"
    "packet_decode lib resp (sv_protocol_id s1) (Some (receive_key ?pending)) (Some (cn_replay_protection ?pending)) (needs_encryption (sockets s1 ! socket_id)) =
      Some (Some replay_new, Inr (1, Response (challenge_sequence server + 1) data))"
    "challenge_token_decode lib data (challenge_sequence server + 1) (challenge_key s1) = Ok ct"
    "find_client_slot_by_id (clients s1) (ch_client_id ct) = None" "position (\<lambda>c. c = None) (clients s1) = Some slot" "unat (cn_sequence ?pending) + 1 < 2 ^ 64"
    using ok sizes ct slot response(3) [of replay_new] keys policy
    by (simp_all add: s1 c2 accepted_server_def admits_def find_slot_by_id_None find_by_id_None update_conv' new_pending_def challenged_def client_after_send_def)
  obtain out' ka where connected:
    "sv_process_packet lib s1 socket_id addr resp = Some (s1\<lparr>pending_clients := AList.delete (socket_id, addr) (pending_clients s1), sv_out := out',
       clients := (clients s1)[slot := Some (connected_from s1 (?pending\<lparr>cn_replay_protection := replay_new, cn_last_packet_received_time := sv_current_time s1\<rparr>) ct)]\<rparr>,
       ResultClientConnected (cn_client_id ?pending) socket_id addr (ch_user_data ct) ka)"
    "\<And>rp. check_replay (Some rp) TKeepAlive (cn_sequence ?pending) = Some False \<Longrightarrow>
      packet_decode lib ka (sv_protocol_id s1) (Some (send_key ?pending)) (Some rp) (needs_encryption (sockets s1 ! socket_id)) =
        Some (Some (advance_sequence rp (cn_sequence ?pending)), Inr (cn_sequence ?pending, KeepAlive (word_of_nat slot) (word_of_nat (sv_max_clients s1))))"
    by (rule server_connects [OF lib sv(1,2) response(2) sv(3-9)]) blast
  have "check_replay (Some replay_new) TKeepAlive 0 = Some False"
    using already_received_new by (simp add: check_replay_def)
  then have "packet_decode lib ka (sv_protocol_id server) (Some (pt_server_to_client_key p)) (Some replay_new) (nc_encryption_policy client) =
       Some (Some (advance_sequence replay_new 0), Inr (0, KeepAlive (word_of_nat slot) (word_of_nat (sv_max_clients server))))"
    using connected(2) [of replay_new] policy by (simp add: s1 accepted_server_def new_pending_def)
  moreover have "connected_from s1 (?pending\<lparr>cn_replay_protection := replay_new, cn_last_packet_received_time := sv_current_time s1\<rparr>) ct = connected_from server ?pending ct"
    "clients s1 = clients server" "cn_client_id ?pending = pt_client_id p"
    by (simp_all add: connected_from_def s1 accepted_server_def new_pending_def)
  ultimately show thesis
    using that [OF response(1)] connected(1) by simp
qed

lemma handshake_run:
  assumes lib: "aead_laws lib" and ok: "admits lib server socket_id addr (nc_connect_token client) p" and client: "fresh client p"
    and policy: "nc_encryption_policy client = needs_encryption (sockets server ! socket_id)"
  obtains server' client' challenge keep_alive slot c data where
    "handshake lib server client socket_id addr = Some (server', client', ResultClientConnected (pt_client_id p) socket_id addr (pt_user_data p) keep_alive, challenge, keep_alive)"
    "nc_is_connected client'" "slot < length (clients server)" "clients server ! slot = None" "clients server' = (clients server)[slot := Some c]"
    "cn_state c = ConnConnected" "cn_client_id c = pt_client_id p" "addr_of c = (socket_id, addr)" "cn_user_data c = pt_user_data p"
    "send_key c = ct_server_to_client_key (nc_connect_token client')" "receive_key c = ct_client_to_server_key (nc_connect_token client')"
    "nc_client_index client' = word_of_nat slot"
    "packet_decode lib challenge (sv_protocol_id server) (Some (pt_server_to_client_key p)) (Some replay_new) (nc_encryption_policy client) =
       Some (Some replay_new, Inr (global_sequence server, Challenge (challenge_sequence server + 1) data))"
    "packet_decode lib keep_alive (sv_protocol_id server) (Some (pt_server_to_client_key p)) (Some replay_new) (nc_encryption_policy client) =
       Some (Some (advance_sequence replay_new 0), Inr (0, KeepAlive (word_of_nat slot) (word_of_nat (sv_max_clients server))))"
proof -
  let ?pending = "new_pending server socket_id addr (ct_expire_timestamp (nc_connect_token client)) p"
  let ?ct = "\<lparr>ch_client_id = pt_client_id p, ch_user_data = pt_user_data p\<rparr>"
  obtain out1 req es out bs data where r1:
    "nc_update lib client 0 = Some (client_after_send client out1, Some (req, nc_server_addr client))" "length out1 = 1400"
    "sv_process_packet lib server socket_id addr req =
       Some (accepted_server server socket_id addr (ct_expire_timestamp (nc_connect_token client)) p es out, ConnectionAccepted (pt_client_id p) socket_id addr bs)"
    "length out = 1400" "length data = 300"
    "packet_decode lib bs (ct_protocol_id (nc_connect_token client)) (Some (pt_server_to_client_key p)) (Some replay_new) (nc_encryption_policy client) =
       Some (Some replay_new, Inr (global_sequence server, Challenge (challenge_sequence server + 1) data))"
    "challenge_token_decode lib data (challenge_sequence server + 1) (challenge_key server) = Ok ?ct"
    "nc_process_packet lib (client_after_send client out1) bs = Some (challenged (client_after_send client out1) (challenge_sequence server + 1) data, None)"
    by (rule first_round [OF assms])
  define s1 where "s1 = accepted_server server socket_id addr (ct_expire_timestamp (nc_connect_token client)) p es out"
  define c2 where "c2 = challenged (client_after_send client out1) (challenge_sequence server + 1) data"
  have "length (flatten (clients server)) \<noteq> length (clients server)" and protocol: "sv_protocol_id server = ct_protocol_id (nc_connect_token client)"
    using ok by (auto simp: admits_def)
  then obtain slot where slot: "position (\<lambda>c. c = None) (clients server) = Some slot"
    by (metis position_free option.exhaust)
  have id: "ch_client_id ?ct = pt_client_id p"
    by simp
  obtain out2 resp out' ka where r2:
    "nc_update lib c2 0 = Some (client_after_send c2 out2, Some (resp, nc_server_addr c2))"
    "sv_process_packet lib s1 socket_id addr resp = Some (s1\<lparr>pending_clients := AList.delete (socket_id, addr) (pending_clients s1), sv_out := out',
       clients := (clients server)[slot := Some (connected_from server ?pending ?ct)]\<rparr>, ResultClientConnected (pt_client_id p) socket_id addr (ch_user_data ?ct) ka)"
    "packet_decode lib ka (sv_protocol_id server) (Some (pt_server_to_client_key p)) (Some replay_new) (nc_encryption_policy client) =
       Some (Some (advance_sequence replay_new 0), Inr (0, KeepAlive (word_of_nat slot) (word_of_nat (sv_max_clients server))))"
    by (rule second_round [OF assms r1(2,4,5,7) id slot s1_def c2_def])
  let ?c = "connected_from server ?pending ?ct"
  let ?c3 = "client_after_send c2 out2"
  let ?c4 = "?c3\<lparr>nc_replay_protection := advance_sequence replay_new 0, nc_last_packet_received_time := nc_current_time ?c3,
     nc_max_clients := word_of_nat (sv_max_clients server), nc_client_index := word_of_nat slot, nc_state := ClientConnected\<rparr>"
  have last: "nc_process_packet lib ?c3 ka = Some (?c4, None)"
    by (rule client_takes_keep_alive [where s = 0]) (use r2(3) protocol client in \<open>simp_all add: client_after_send_def challenged_def c2_def fresh_def\<close>)
  have run: "handshake lib server client socket_id addr = Some (s1\<lparr>pending_clients := AList.delete (socket_id, addr) (pending_clients s1), sv_out := out',
       clients := (clients server)[slot := Some (connected_from server ?pending ?ct)]\<rparr>, ?c4, ResultClientConnected (pt_client_id p) socket_id addr (pt_user_data p) ka, bs, ka)"
    using r1(3,8) r2(1,2) last by (simp add: handshake_def r1(1) s1_def [symmetric] c2_def [symmetric])
  have c: "cn_state ?c = ConnConnected" "cn_client_id ?c = pt_client_id p" "addr_of ?c = (socket_id, addr)" "cn_user_data ?c = pt_user_data p"
    "send_key ?c = ct_server_to_client_key (nc_connect_token ?c4)" "receive_key ?c = ct_client_to_server_key (nc_connect_token ?c4)"
    using client by (simp_all add: connected_from_def new_pending_def addr_of_def client_after_send_def challenged_def c2_def fresh_def)
  show thesis
    by (rule that [OF run _ _ _ _ c]) (use position_Some [OF slot] r1(6) r2(3) protocol in \<open>simp_all add: nc_is_connected_def\<close>)
qed

text \<open>
  C3: The handshake connects: a client that has not sent anything yet and a server that admits its token exchange
  request, challenge, response and keep-alive, and afterwards the client is connected and one free slot of the
  server holds the client, connected, under the client id and the user data of the token and the address of the client,
  with the send key of one side the receive key of the other; the other slots are as before and the client knows its slot.
\<close>

theorem handshake_connects:
  assumes "aead_laws lib" "admits lib server socket_id addr (nc_connect_token client) p" "fresh client p"
    and "nc_encryption_policy client = needs_encryption (sockets server ! socket_id)"
  shows "\<exists>server' client' challenge keep_alive slot c.
    handshake lib server client socket_id addr =
      Some (server', client', ResultClientConnected (pt_client_id p) socket_id addr (pt_user_data p) keep_alive, challenge, keep_alive) \<and>
    nc_is_connected client' \<and> slot < length (clients server) \<and> clients server ! slot = None \<and> clients server' = (clients server)[slot := Some c] \<and>
    cn_state c = ConnConnected \<and> cn_client_id c = pt_client_id p \<and> addr_of c = (socket_id, addr) \<and> cn_user_data c = pt_user_data p \<and>
    send_key c = ct_server_to_client_key (nc_connect_token client') \<and> receive_key c = ct_client_to_server_key (nc_connect_token client') \<and>
    nc_client_index client' = word_of_nat slot"
  by (rule handshake_run [OF assms]) blast

text \<open>A server of the demo configuration and a client with a token for it.\<close>

lemma demo_handshake:
  obtains server token client p where
    "netcode_server_new (replicate 32 6) demo_server_config = Some server"
    "connect_token_generate rfc_aead (replicate 32 1) (replicate 32 2) [] (replicate 24 3) 0 42 300 9 15 0
       [V4 [127, 0, 0, 1] 5000] (Some (replicate 256 4)) (replicate 32 5) = Ok token"
    "netcode_client_new rfc_aead no_randomness 0 (SecureClient token) = Ok client"
    "admits rfc_aead server 0 (V4 [1, 2, 3, 4] 9) (nc_connect_token client) p" "fresh client p"
    "nc_encryption_policy client = needs_encryption (sockets server ! 0)" "pt_client_id p = 9" "global_sequence server = 0"
proof -
  let ?addr = "V4 [127, 0, 0, 1] 5000"
  have "cfg_sockets demo_server_config \<noteq> []" "\<not> cfg_max_clients demo_server_config > NETCODE_MAX_CLIENTS"
    by (simp_all add: demo_server_config_def NETCODE_MAX_CLIENTS_def)
  then obtain server where new: "netcode_server_new (replicate 32 6) demo_server_config = Some server"
    and sv: "clients server = replicate (cfg_max_clients demo_server_config) None" "pending_clients server = []"
      "sockets server = cfg_sockets demo_server_config" "global_sequence server = 0" "challenge_sequence server = 0"
      "connect_token_entries server = replicate (NETCODE_MAX_CLIENTS * 2) None" "sv_max_clients server = cfg_max_clients demo_server_config"
      "sv_protocol_id server = cfg_protocol_id demo_server_config" "sv_current_time server = cfg_current_time demo_server_config"
      "connect_key server = replicate 32 5"
    unfolding netcode_server_new_def by (simp only: if_False) (simp add: demo_server_config_def)
  obtain token where token: "connect_token_generate rfc_aead (replicate 32 1) (replicate 32 2) [] (replicate 24 3) 0 42 300 9 15 0
       [?addr] (Some (replicate 256 4)) (replicate 32 5) = Ok token" "connect_token_wf token"
    "unat (ct_expire_timestamp token) = as_secs 0 + unat (300 :: u64)"
    "private_decode rfc_aead (private_data token) (ct_protocol_id token) (ct_expire_timestamp token) (ct_xnonce token) (replicate 32 5) =
      Ok \<lparr>pt_client_id = ct_client_id token, pt_timeout_seconds = ct_timeout_seconds token, pt_socket_id = ct_socket_id token,
        pt_server_addresses = wire_addresses (ct_server_addresses token),
        pt_client_to_server_key = ct_client_to_server_key token, pt_server_to_client_key = ct_server_to_client_key token,
        pt_user_data = replicate 256 4\<rparr>"
    "ct_client_id token = 9" "hosts_of (ct_server_addresses token) = [?addr]" "ct_server_addresses token ! 0 = Some ?addr"
    "ct_protocol_id token = 42" "ct_socket_id token = 0" "unat (create_timestamp token) = as_secs 0"
    using generated_token [OF rfc.aead_laws_axioms, of "[?addr]" "replicate 32 1" "replicate 32 2" "replicate 24 3" "replicate 256 4" 0 300 "[]" 42 9 15 0 "replicate 32 5"]
    by (auto simp: as_secs_def)
  let ?p = "\<lparr>pt_client_id = ct_client_id token, pt_timeout_seconds = ct_timeout_seconds token, pt_socket_id = ct_socket_id token,
        pt_server_addresses = wire_addresses (ct_server_addresses token),
        pt_client_to_server_key = ct_client_to_server_key token, pt_server_to_client_key = ct_server_to_client_key token,
        pt_user_data = replicate 256 4\<rparr>"
  have created: "create_timestamp token = 0"
    using token(10) by (simp add: as_secs_def unat_eq_0)
  obtain client where client: "netcode_client_new rfc_aead no_randomness 0 (SecureClient token) = Ok client" "nc_inv client" "nc_connect_token client = token"
    "nc_state client = SendingConnectionRequest" "nc_current_time client = 0" "nc_sequence client = 0"
    "nc_replay_protection client = replay_new" "nc_encryption_policy client" "nc_last_packet_send_time client = None" "connect_start_time client = 0"
    by (rule netcode_client_new_inv [OF token(2,7)]) (use created in auto)
  have wire: "hosts_of (wire_addresses (ct_server_addresses token)) = [?addr]"
    using token(6) by (simp add: wire_addresses_def) (simp add: hosts_of_def)
  have "admits rfc_aead server 0 (V4 [1, 2, 3, 4] 9) token ?p"
    using netcode_server_new_inv [OF new] token
    by (simp add: admits_def counters_free_def sv find_by_addr_None find_by_id_None flatten_def NETCODE_MAX_PENDING_CLIENTS_def NETCODE_MAX_CLIENTS_def
        in_host_list_def demo_server_config_def server_socket_config_new_def as_secs_def wire)
  moreover have "fresh client ?p"
    using client token(3) created by (simp add: fresh_def on_time_def as_secs_def)
  moreover have "needs_encryption (sockets server ! 0)"
    by (simp add: sv demo_server_config_def server_socket_config_new_def)
  ultimately show thesis
    using that [OF new token(1) client(1), of ?p] client(3,8) sv(4) token(5) by simp
qed

theorem handshake_connects_witness:
  "\<exists>server token client server' client' result challenge keep_alive.
     netcode_server_new (replicate 32 6) demo_server_config = Some server \<and>
     connect_token_generate rfc_aead (replicate 32 1) (replicate 32 2) [] (replicate 24 3) 0 42 300 9 15 0
       [V4 [127, 0, 0, 1] 5000] (Some (replicate 256 4)) (replicate 32 5) = Ok token \<and>
     netcode_client_new rfc_aead no_randomness 0 (SecureClient token) = Ok client \<and>
     handshake rfc_aead server client 0 (V4 [1, 2, 3, 4] 9) = Some (server', client', result, challenge, keep_alive) \<and> nc_is_connected client'"
proof (rule demo_handshake, goal_cases)
  case (1 server token client p)
  show ?case
    using 1(1-3) handshake_connects [OF rfc.aead_laws_axioms 1(4-6)] by blast
qed

text \<open>
  C37: The first handshake after the start of a server uses a nonce twice: the challenge and the keep-alive, two different
  messages, are both sealed under the server-to-client key of the token with sequence number 0, from which the
  nonce is made, because the global counter and the counter of the connection both start at zero.
\<close>

theorem first_handshake_reuses_nonce:
  assumes "aead_laws lib" "admits lib server socket_id addr (nc_connect_token client) p" "fresh client p"
    and "nc_encryption_policy client = needs_encryption (sockets server ! socket_id)" "global_sequence server = 0"
  shows "\<exists>server' client' result challenge keep_alive n data i m.
    handshake lib server client socket_id addr = Some (server', client', result, challenge, keep_alive) \<and>
    packet_decode lib challenge (sv_protocol_id server) (Some (pt_server_to_client_key p)) (Some replay_new) (nc_encryption_policy client) =
      Some (Some replay_new, Inr (0, Challenge n data)) \<and>
    packet_decode lib keep_alive (sv_protocol_id server) (Some (pt_server_to_client_key p)) (Some replay_new) (nc_encryption_policy client) =
      Some (Some (advance_sequence replay_new 0), Inr (0, KeepAlive i m))"

  by (rule handshake_run [OF assms(1-4)]) (unfold assms(5), blast)

theorem first_handshake_reuses_nonce_witness:
  "\<exists>server client server' client' result challenge keep_alive key n data i m.
     handshake rfc_aead server client 0 (V4 [1, 2, 3, 4] 9) = Some (server', client', result, challenge, keep_alive) \<and>
     packet_decode rfc_aead challenge (sv_protocol_id server) (Some key) (Some replay_new) (nc_encryption_policy client) =
       Some (Some replay_new, Inr (0, Challenge n data)) \<and>
     packet_decode rfc_aead keep_alive (sv_protocol_id server) (Some key) (Some replay_new) (nc_encryption_policy client) =
       Some (Some (advance_sequence replay_new 0), Inr (0, KeepAlive i m))"
proof (rule demo_handshake, goal_cases)
  case (1 server token client p)
  show ?case
    using first_handshake_reuses_nonce [OF rfc.aead_laws_axioms 1(4-6,8)] by blast
qed

subsection \<open>Identities\<close>

text \<open>
  C38: A response is matched against the client id inside the challenge token, while the connection it completes has
  the client id of the pending entry: with the challenge token of another client that is not connected, a
  pending client whose id is connected already is connected a second time, under the user data of the other client.
  The client ids of a server are therefore not unique.
\<close>

theorem response_duplicates_client_id:
  assumes "aead_laws lib" "length (sv_out self) = 1400" "socket_id < length (sockets self)" "18 \<le> length buffer"
    and "find_client_mut_by_addr (clients self) socket_id addr = None" "map_of (pending_clients self) (socket_id, addr) = Some c"
    and "packet_decode lib buffer (sv_protocol_id self) (Some (receive_key c)) (Some (cn_replay_protection c)) (needs_encryption (sockets self ! socket_id)) =
      Some (Some rp, Inr (s, Response n data))"
    and "challenge_token_decode lib data n (challenge_key self) = Ok ct"
    and "find_client_slot_by_id (clients self) (ch_client_id ct) = None" "position (\<lambda>c. c = None) (clients self) = Some slot"
    and "unat (cn_sequence c) + 1 < 2 ^ 64" "is_client_connected self (cn_client_id c)"
  shows "\<exists>self' bs. sv_process_packet lib self socket_id addr buffer = Some (self', ResultClientConnected (cn_client_id c) socket_id addr (ch_user_data ct) bs) \<and>
    \<not> distinct (sv_clients_id self')"
proof -
  obtain out' bs where run: "sv_process_packet lib self socket_id addr buffer = Some (self\<lparr>pending_clients := AList.delete (socket_id, addr) (pending_clients self), sv_out := out',
       clients := (clients self)[slot := Some (connected_from self (c\<lparr>cn_replay_protection := rp, cn_last_packet_received_time := sv_current_time self\<rparr>) ct)]\<rparr>,
       ResultClientConnected (cn_client_id c) socket_id addr (ch_user_data ct) bs)"
    by (rule server_connects [OF assms(1-11)]) blast
  let ?c = "connected_from self (c\<lparr>cn_replay_protection := rp, cn_last_packet_received_time := sv_current_time self\<rparr>) ct"
  have "slot < length (clients self)" "clients self ! slot = None"
    using position_Some [OF assms(10)] by auto
  then obtain a b where ab: "flatten (clients self) = a @ b" "flatten ((clients self)[slot := Some ?c]) = a @ ?c # b"
    using flatten_insert [of slot "clients self" ?c] by blast
  have "cn_client_id c \<in> cn_client_id ` set (flatten (clients self))"
    using assms(12) by (simp add: is_client_connected_def find_slot_by_id_None)
  then have "cn_client_id ?c \<in> cn_client_id ` set (a @ b)"
    by (simp add: ab(1) connected_from_def)
  then have "\<not> distinct (map cn_client_id (flatten ((clients self)[slot := Some ?c])))"
    unfolding ab(2) by auto
  then show ?thesis
    using run by (simp add: sv_clients_id_def)
qed

definition demo_connection :: "SocketAddr \<Rightarrow> NetcodeConnection" where
  "demo_connection addr = \<lparr>confirmed = False, cn_client_id = 7, cn_state = PendingResponse, send_key = replicate 32 1, receive_key = replicate 32 2,
     cn_user_data = replicate 256 3, cn_socket_id = 0, cn_addr = addr, cn_last_packet_received_time = 0, cn_last_packet_send_time = 0,
     cn_timeout_seconds = 15, cn_sequence = 0, cn_expire_timestamp = 300, cn_replay_protection = replay_new\<rparr>"

text \<open>Client 7 is connected from one address and pending from another.\<close>

definition demo_server :: NetcodeServer where
  "demo_server = \<lparr>sockets = [server_socket_config_new []], clients = [Some ((demo_connection (V4 [1, 2, 3, 4] 9))\<lparr>cn_state := ConnConnected\<rparr>), None],
     pending_clients = [((0, V4 [1, 2, 3, 4] 10), demo_connection (V4 [1, 2, 3, 4] 10))], connect_token_entries = [None], sv_protocol_id = 42,
     connect_key = replicate 32 5, sv_max_clients = 2, challenge_sequence = 2, challenge_key = replicate 32 6, sv_current_time = 0,
     global_sequence = 2, secure = True, sv_out = replicate 1400 0\<rparr>"

theorem response_duplicates_client_id_witness:
  "\<exists>buffer self' bs. sv_process_packet rfc_aead demo_server 0 (V4 [1, 2, 3, 4] 10) buffer =
      Some (self', ResultClientConnected 7 0 (V4 [1, 2, 3, 4] 10) (replicate 256 4) bs) \<and> \<not> distinct (sv_clients_id self')"
proof -
  let ?addr = "V4 [1, 2, 3, 4] 10"
  let ?ct = "\<lparr>ch_client_id = 8, ch_user_data = replicate 256 4\<rparr>"
  have user: "length (replicate 256 4 :: bytes) = 256"
    by simp
  obtain data where data: "length data = 300" "challenge_token_decode rfc_aead data 2 (replicate 32 6) = Ok ?ct"
    by (rule aead_laws.challenge_roundtrip [OF rfc.aead_laws_axioms user]) blast
  let ?p = "Response 2 data"
  let ?zeros = "replicate 1400 (0 :: u8)"
  have p: "packet_wf ?p" "packet_type ?p \<noteq> TConnectionRequest" "length (concat (packet_parts ?p)) + 25 \<le> length ?zeros" "length ?zeros \<le> NETCODE_MAX_PACKET_BYTES"
    using data(1) by (simp_all add: netcode_sizes)
  obtain out len where enc: "length out = length ?zeros" "len \<le> length ?zeros" "len = 17 + sequence_bytes_required 1 + length (concat (packet_parts ?p))"
    "\<And>rp. check_replay rp (packet_type ?p) 1 = Some False \<Longrightarrow> packet_decode rfc_aead (take len out) 42 (Some (replicate 32 2)) rp True =
      (if (1 :: u64) = 0 \<and> concat (packet_parts ?p) = [] then Some (rp, Inl PacketTooSmall)
       else Some (advance_replay rp (packet_type ?p) 1, Inr (1, ?p)))"
    by (rule encode_then_decode [OF rfc.aead_laws_axioms p]) blast
  have dec: "packet_decode rfc_aead (take len out) 42 (Some (replicate 32 2)) (Some replay_new) True = Some (Some replay_new, Inr (1, ?p))"
    using enc(4) [of "Some replay_new"] by (simp add: check_replay_def advance_replay_def)
  have long: "18 \<le> length (take len out)"
    using enc(1-3) data(1) by simp
  have "\<exists>self' bs. sv_process_packet rfc_aead demo_server 0 ?addr (take len out) =
      Some (self', ResultClientConnected (cn_client_id (demo_connection ?addr)) 0 ?addr (ch_user_data ?ct) bs) \<and> \<not> distinct (sv_clients_id self')"
    by (rule response_duplicates_client_id [OF rfc.aead_laws_axioms _ _ long, where c = "demo_connection ?addr" and rp = replay_new and s = 1 and n = 2 and data = data and slot = 1])
      (use dec data(2) in \<open>simp_all add: demo_server_def demo_connection_def server_socket_config_new_def find_by_addr_None flatten_def
        find_slot_by_id_None is_client_connected_def addr_of_def\<close>)
  then show ?thesis
    by (auto simp: demo_connection_def)
qed

end
