(* ===== verification/Netcode_Transport.thy ===== *)
theory Netcode_Transport
  imports Renet_Server Netcode_Handshake
begin

text \<open>
  \<open>src/renet2_netcode/src\<close>: the transports, which move datagrams between sockets and the netcode protocol and
  payloads between the netcode protocol and the connections of renet2. The socket traits of \<open>sockets.rs\<close>
  are records of functions; the state behind all sockets is one value \<open>w\<close>, a socket is a handle into it, because
  sockets may share state. A buffer is passed as its length and what was written to it is returned. Inner \<open>None\<close>
  is a panic; the receive loops are partial functions, and an outer \<open>None\<close> is a loop that does not end.
\<close>

datatype ErrorKind = WouldBlock | Interrupted | ConnectionReset | ConnectionAborted | AddrNotAvailable | OtherKind nat

datatype NetcodeTransportError = TransportNetcode NetcodeError | TransportRenet DisconnectReason | TransportIO ErrorKind

record 'w ServerSocket =
  ss_is_encrypted :: "'w \<Rightarrow> nat \<Rightarrow> bool"
  ss_is_reliable :: "'w \<Rightarrow> nat \<Rightarrow> bool"
  ss_connection_denied :: "'w \<Rightarrow> nat \<Rightarrow> SocketAddr \<Rightarrow> 'w"
  ss_connection_accepted :: "'w \<Rightarrow> nat \<Rightarrow> u64 \<Rightarrow> SocketAddr \<Rightarrow> 'w"
  ss_disconnect :: "'w \<Rightarrow> nat \<Rightarrow> SocketAddr \<Rightarrow> 'w"
  ss_preupdate :: "'w \<Rightarrow> nat \<Rightarrow> 'w"
  ss_try_recv :: "'w \<Rightarrow> nat \<Rightarrow> nat \<Rightarrow> ('w \<times> (ErrorKind + bytes \<times> SocketAddr)) option"
  ss_postupdate :: "'w \<Rightarrow> nat \<Rightarrow> 'w"
  ss_send :: "'w \<Rightarrow> nat \<Rightarrow> SocketAddr \<Rightarrow> bytes \<Rightarrow> ('w \<times> (NetcodeTransportError + unit)) option"

record 'w ClientSocket =
  cs_is_encrypted :: "'w \<Rightarrow> nat \<Rightarrow> bool"
  cs_is_reliable :: "'w \<Rightarrow> nat \<Rightarrow> bool"
  cs_is_closed :: "'w \<Rightarrow> nat \<Rightarrow> 'w \<times> bool"
  cs_close :: "'w \<Rightarrow> nat \<Rightarrow> 'w"
  cs_preupdate :: "'w \<Rightarrow> nat \<Rightarrow> 'w"
  cs_try_recv :: "'w \<Rightarrow> nat \<Rightarrow> nat \<Rightarrow> ('w \<times> (ErrorKind + bytes \<times> SocketAddr)) option"
  cs_postupdate :: "'w \<Rightarrow> nat \<Rightarrow> 'w"
  cs_send :: "'w \<Rightarrow> nat \<Rightarrow> SocketAddr \<Rightarrow> bytes \<Rightarrow> ('w \<times> (NetcodeTransportError + unit)) option"

subsection \<open>Server\<close>

record ServerSetupConfig =
  setup_current_time :: duration
  setup_max_clients :: nat
  setup_protocol_id :: u64
  socket_addresses :: "SocketAddr list list"
  setup_authentication :: ServerAuthentication

record NetcodeServerTransport =
  ts_sockets :: "nat list"
  netcode_server :: NetcodeServer

text \<open>The two lists of \<open>zip\<close> have the same length.\<close>

definition new_with_sockets :: "'w ServerSocket \<Rightarrow> bytes \<Rightarrow> ServerSetupConfig \<Rightarrow> nat list \<Rightarrow> 'w \<Rightarrow> NetcodeServerTransport option" where
  "new_with_sockets ops random_challenge_key server_config socks w =
     (if socket_addresses server_config = [] then None
      else if length (socket_addresses server_config) \<noteq> length socks then None
      else do {
        let socket_configs = map (\<lambda>(addrs, socket). \<lparr>needs_encryption = \<not> ss_is_encrypted ops w socket, public_addresses = addrs\<rparr>)
          (zip (socket_addresses server_config) socks);
        server \<leftarrow> netcode_server_new random_challenge_key
          \<lparr>cfg_current_time = setup_current_time server_config, cfg_max_clients = setup_max_clients server_config,
            cfg_protocol_id = setup_protocol_id server_config, cfg_sockets = socket_configs,
            cfg_authentication = setup_authentication server_config\<rparr>;
        Some \<lparr>ts_sockets = socks, netcode_server = server\<rparr>
      })"

definition get_addresses :: "NetcodeServerTransport \<Rightarrow> nat \<Rightarrow> SocketAddr list option option" where
  "get_addresses self socket_id =
     (if socket_id \<ge> length (ts_sockets self) then Some None else map_option Some (addresses (netcode_server self) socket_id))"

definition ts_addresses :: "NetcodeServerTransport \<Rightarrow> SocketAddr list option" where
  "ts_addresses self = do { r \<leftarrow> get_addresses self 0; r }"

text \<open>The closure \<open>send_packet\<close> of \<open>handle_server_result\<close>; an error is logged.\<close>

definition send_from :: "'w ServerSocket \<Rightarrow> nat list \<Rightarrow> 'w \<Rightarrow> bytes \<Rightarrow> nat \<Rightarrow> SocketAddr \<Rightarrow> 'w option" where
  "send_from ops socks w packet socket_id addr = do {
     socket \<leftarrow> index socks socket_id;
     (w, _) \<leftarrow> ss_send ops w socket addr packet;
     Some w
   }"

definition handle_server_result ::
  "octets_lib \<Rightarrow> 'w ServerSocket \<Rightarrow> nat list \<Rightarrow> ServerResult \<Rightarrow> 'w \<Rightarrow> renet_server \<Rightarrow> ('w \<times> renet_server) option" where
  "handle_server_result oct ops socks server_result w server = (case server_result of
     NoResult \<Rightarrow> Some (w, server)
   | ResultError socket_id addr \<Rightarrow> do {
       socket \<leftarrow> index socks socket_id;
       Some (ss_disconnect ops w socket addr, server)
     }
   | ResultConnectionDenied socket_id addr content \<Rightarrow> do {
       w \<leftarrow> (case content of None \<Rightarrow> Some w | Some content \<Rightarrow> send_from ops socks w content socket_id addr);
       socket \<leftarrow> index socks socket_id;
       Some (ss_connection_denied ops w socket addr, server)
     }
   | ConnectionAccepted client_id socket_id addr content \<Rightarrow> do {
       socket \<leftarrow> index socks socket_id;
       w \<leftarrow> send_from ops socks (ss_connection_accepted ops w socket client_id addr) content socket_id addr;
       Some (w, server)
     }
   | PacketToSend socket_id addr content \<Rightarrow> do {
       w \<leftarrow> send_from ops socks w content socket_id addr;
       Some (w, server)
     }
   | ResultPayload client_id content \<Rightarrow> do {
       (server, _) \<leftarrow> process_packet_from oct server content (unat client_id);
       Some (w, server)
     }
   | ResultClientConnected client_id socket_id addr _ content \<Rightarrow> do {
       socket \<leftarrow> index socks socket_id;
       server \<leftarrow> add_connection server (unat client_id) (ss_is_reliable ops w socket);
       w \<leftarrow> send_from ops socks w content socket_id addr;
       Some (w, server)
     }
   | ResultClientDisconnected client_id socket_id addr content \<Rightarrow> do {
       let server = remove_connection server (unat client_id);
       w \<leftarrow> (case content of None \<Rightarrow> Some w | Some content \<Rightarrow> send_from ops socks w content socket_id addr);
       socket \<leftarrow> index socks socket_id;
       Some (ss_disconnect ops w socket addr, server)
     })"

text \<open>One datagram: what the loop of \<open>update\<close> does with it.\<close>

definition receive_one ::
  "aead_lib \<Rightarrow> octets_lib \<Rightarrow> 'w ServerSocket \<Rightarrow> nat list \<Rightarrow> nat \<Rightarrow> bytes \<Rightarrow> SocketAddr \<Rightarrow> NetcodeServer \<Rightarrow> 'w \<Rightarrow> renet_server \<Rightarrow>
   (NetcodeServer \<times> 'w \<times> renet_server) option" where
  "receive_one lib oct ops socks socket_id packet addr ns w server = do {
     (ns, server_result) \<leftarrow> sv_process_packet lib ns socket_id addr packet;
     (w, server) \<leftarrow> handle_server_result oct ops socks server_result w server;
     Some (ns, w, server)
   }"

partial_function (option) receive_loop ::
  "aead_lib \<Rightarrow> octets_lib \<Rightarrow> 'w ServerSocket \<Rightarrow> nat list \<Rightarrow> nat \<Rightarrow> NetcodeServer \<Rightarrow> 'w \<Rightarrow> renet_server \<Rightarrow> NetcodeTransportError list \<Rightarrow>
   (NetcodeServer \<times> 'w \<times> renet_server \<times> NetcodeTransportError list) option option" where
  "receive_loop lib oct ops socks socket_id ns w server transport_errors =
     (case index socks socket_id of None \<Rightarrow> Some None
      | Some socket \<Rightarrow> (case ss_try_recv ops w socket NETCODE_MAX_PACKET_BYTES of None \<Rightarrow> Some None
        | Some (w, Inl e) \<Rightarrow>
            if e = WouldBlock \<or> e = Interrupted then Some (Some (ns, w, server, transport_errors))
            else if e = ConnectionReset then receive_loop lib oct ops socks socket_id ns w server transport_errors
            else receive_loop lib oct ops socks socket_id ns w server (transport_errors @ [TransportIO e])
        | Some (w, Inr (packet, addr)) \<Rightarrow>
            if length packet > NETCODE_MAX_PACKET_BYTES then Some None
            else (case receive_one lib oct ops socks socket_id packet addr ns w server of None \<Rightarrow> Some None
              | Some (ns, w, server) \<Rightarrow> receive_loop lib oct ops socks socket_id ns w server transport_errors)))"

fun receive_sockets ::
  "aead_lib \<Rightarrow> octets_lib \<Rightarrow> 'w ServerSocket \<Rightarrow> nat list \<Rightarrow> nat list \<Rightarrow> NetcodeServer \<Rightarrow> 'w \<Rightarrow> renet_server \<Rightarrow> NetcodeTransportError list \<Rightarrow>
   (NetcodeServer \<times> 'w \<times> renet_server \<times> NetcodeTransportError list) option option" where
  "receive_sockets lib oct ops socks [] ns w server transport_errors = Some (Some (ns, w, server, transport_errors))"
| "receive_sockets lib oct ops socks (socket_id # ids) ns w server transport_errors =
     (case index socks socket_id of None \<Rightarrow> Some None
      | Some socket \<Rightarrow>
          (case receive_loop lib oct ops socks socket_id ns (ss_preupdate ops w socket) server transport_errors of
             None \<Rightarrow> None | Some None \<Rightarrow> Some None
           | Some (Some (ns, w, server, transport_errors)) \<Rightarrow> receive_sockets lib oct ops socks ids ns w server transport_errors))"

text \<open>The loops that call \<open>update_client\<close> or \<open>disconnect\<close> for a list of client ids and handle the results.\<close>

fun for_clients ::
  "(NetcodeServer \<Rightarrow> u64 \<Rightarrow> (NetcodeServer \<times> ServerResult) option) \<Rightarrow> octets_lib \<Rightarrow> 'w ServerSocket \<Rightarrow> nat list \<Rightarrow> u64 list \<Rightarrow>
   NetcodeServer \<Rightarrow> 'w \<Rightarrow> renet_server \<Rightarrow> (NetcodeServer \<times> 'w \<times> renet_server) option" where
  "for_clients f oct ops socks [] ns w server = Some (ns, w, server)"
| "for_clients f oct ops socks (client_id # ids) ns w server = do {
     (ns, server_result) \<leftarrow> f ns client_id;
     (w, server) \<leftarrow> handle_server_result oct ops socks server_result w server;
     for_clients f oct ops socks ids ns w server
   }"

definition ts_disconnect_all ::
  "aead_lib \<Rightarrow> octets_lib \<Rightarrow> 'w ServerSocket \<Rightarrow> NetcodeServerTransport \<Rightarrow> 'w \<Rightarrow> renet_server \<Rightarrow> (NetcodeServerTransport \<times> 'w \<times> renet_server) option" where
  "ts_disconnect_all lib oct ops self w server = do {
     (ns, w, server) \<leftarrow> for_clients (sv_disconnect lib) oct ops (ts_sockets self) (sv_clients_id (netcode_server self)) (netcode_server self) w server;
     Some (self\<lparr>netcode_server := ns\<rparr>, w, server)
   }"

definition ts_after_receive ::
  "aead_lib \<Rightarrow> octets_lib \<Rightarrow> 'w ServerSocket \<Rightarrow> nat list \<Rightarrow> NetcodeServer \<Rightarrow> 'w \<Rightarrow> renet_server \<Rightarrow> (NetcodeServer \<times> 'w \<times> renet_server) option" where
  "ts_after_receive lib oct ops socks ns w server = do {
     (ns, w, server) \<leftarrow> for_clients (update_client lib) oct ops socks (sv_clients_id ns) ns w server;
     (ns, w, server) \<leftarrow> for_clients (sv_disconnect lib) oct ops socks (map word_of_nat (disconnections_id server)) ns w server;
     Some (ns, fold (\<lambda>socket w. ss_postupdate ops w socket) socks w, server)
   }"

definition ts_update ::
  "aead_lib \<Rightarrow> octets_lib \<Rightarrow> 'w ServerSocket \<Rightarrow> NetcodeServerTransport \<Rightarrow> duration \<Rightarrow> 'w \<Rightarrow> renet_server \<Rightarrow>
   (NetcodeServerTransport \<times> 'w \<times> renet_server \<times> (NetcodeTransportError list + unit)) option option" where
  "ts_update lib oct ops self elapsed w server =
     (case receive_sockets lib oct ops (ts_sockets self) [0..<length (ts_sockets self)] (sv_update (netcode_server self) elapsed) w server [] of
        None \<Rightarrow> None | Some None \<Rightarrow> Some None
      | Some (Some (ns, w, server, transport_errors)) \<Rightarrow> Some (do {
          (ns, w, server) \<leftarrow> ts_after_receive lib oct ops (ts_sockets self) ns w server;
          Some (self\<lparr>netcode_server := ns\<rparr>, w, server, if transport_errors \<noteq> [] then Inl transport_errors else Inr ())
        }))"

definition send_packet_to_client ::
  "aead_lib \<Rightarrow> 'w ServerSocket \<Rightarrow> nat list \<Rightarrow> NetcodeServer \<Rightarrow> 'w \<Rightarrow> renet_server \<Rightarrow> bytes \<Rightarrow> u64 \<Rightarrow> (NetcodeServer \<times> 'w \<times> renet_server \<times> bool) option" where
  "send_packet_to_client lib ops socks ns w server packet client_id = do {
     (ns, r) \<leftarrow> sv_generate_payload_packet lib ns client_id packet;
     case r of Inl e \<Rightarrow> Some (ns, w, server, False)
     | Inr (socket_id, addr, content) \<Rightarrow> do {
         socket \<leftarrow> index socks socket_id;
         (w, send_result) \<leftarrow> ss_send ops w socket addr content;
         case send_result of Inr _ \<Rightarrow> Some (ns, w, server, True)
         | Inl e \<Rightarrow>
             if e = TransportIO ConnectionAborted then do {
               let server = remove_connection server (unat client_id);
               (ns, _) \<leftarrow> sv_disconnect lib ns client_id;
               Some (ns, w, server, False)
             }
             else Some (ns, w, server, False)
       }
   }"

fun send_all_to_client ::
  "aead_lib \<Rightarrow> 'w ServerSocket \<Rightarrow> nat list \<Rightarrow> bytes list \<Rightarrow> u64 \<Rightarrow> NetcodeServer \<Rightarrow> 'w \<Rightarrow> renet_server \<Rightarrow> (NetcodeServer \<times> 'w \<times> renet_server) option" where
  "send_all_to_client lib ops socks [] client_id ns w server = Some (ns, w, server)"
| "send_all_to_client lib ops socks (packet # packets) client_id ns w server = do {
     (ns, w, server, sent) \<leftarrow> send_packet_to_client lib ops socks ns w server packet client_id;
     if sent then send_all_to_client lib ops socks packets client_id ns w server else Some (ns, w, server)
   }"

fun send_to_clients ::
  "aead_lib \<Rightarrow> octets_lib \<Rightarrow> 'w ServerSocket \<Rightarrow> nat list \<Rightarrow> ClientId list \<Rightarrow> NetcodeServer \<Rightarrow> 'w \<Rightarrow> renet_server \<Rightarrow> (NetcodeServer \<times> 'w \<times> renet_server) option" where
  "send_to_clients lib oct ops socks [] ns w server = Some (ns, w, server)"
| "send_to_clients lib oct ops socks (client_id # ids) ns w server = do {
     (server, packets) \<leftarrow> server_get_packets_to_send oct server client_id;
     packets \<leftarrow> (case packets of Inl _ \<Rightarrow> None | Inr packets \<Rightarrow> Some packets);
     (ns, w, server) \<leftarrow> send_all_to_client lib ops socks packets (word_of_nat client_id) ns w server;
     send_to_clients lib oct ops socks ids ns w server
   }"

definition ts_send_packets ::
  "aead_lib \<Rightarrow> octets_lib \<Rightarrow> 'w ServerSocket \<Rightarrow> NetcodeServerTransport \<Rightarrow> 'w \<Rightarrow> renet_server \<Rightarrow> (NetcodeServerTransport \<times> 'w \<times> renet_server) option" where
  "ts_send_packets lib oct ops self w server = do {
     (ns, w, server) \<leftarrow> send_to_clients lib oct ops (ts_sockets self) (clients_id server) (netcode_server self) w server;
     Some (self\<lparr>netcode_server := ns\<rparr>, w, server)
   }"

subsection \<open>Client\<close>

record NetcodeClientTransport =
  tc_socket :: nat
  netcode_client :: NetcodeClient

definition transport_client_new ::
  "aead_lib \<Rightarrow> 'w ClientSocket \<Rightarrow> token_randomness \<Rightarrow> duration \<Rightarrow> ClientAuthentication \<Rightarrow> nat \<Rightarrow> 'w \<Rightarrow> (NetcodeError, NetcodeClientTransport) outcome" where
  "transport_client_new lib ops rnd now authentication socket w =
     and_then (netcode_client_new lib rnd now authentication) (\<lambda>client.
       Ok \<lparr>tc_socket = socket, netcode_client = client_set_encryption_policy client (\<not> cs_is_encrypted ops w socket)\<rparr>)"

definition tc_disconnect :: "aead_lib \<Rightarrow> 'w ClientSocket \<Rightarrow> NetcodeClientTransport \<Rightarrow> 'w \<Rightarrow> (NetcodeClientTransport \<times> 'w) option" where
  "tc_disconnect lib ops self w =
     (if nc_is_disconnected (netcode_client self) then Some (self, w)
      else do {
        (nc, r) \<leftarrow> nc_disconnect lib (netcode_client self);
        let self = self\<lparr>netcode_client := nc\<rparr>;
        case r of Inl _ \<Rightarrow> Some (self, w)
        | Inr (addr, packet) \<Rightarrow> do {
            (w, _) \<leftarrow> cs_send ops w (tc_socket self) addr packet;
            Some (self, w)
          }
      })"

fun tc_send_all ::
  "aead_lib \<Rightarrow> 'w ClientSocket \<Rightarrow> NetcodeClientTransport \<Rightarrow> 'w \<Rightarrow> bytes list \<Rightarrow> (NetcodeClientTransport \<times> 'w \<times> (NetcodeTransportError + unit)) option" where
  "tc_send_all lib ops self w [] = Some (self, w, Inr ())"
| "tc_send_all lib ops self w (packet # packets) = do {
     (nc, r) \<leftarrow> nc_generate_payload_packet lib (netcode_client self) packet;
     let self = self\<lparr>netcode_client := nc\<rparr>;
     case r of Inl e \<Rightarrow> Some (self, w, Inl (TransportNetcode e))
     | Inr (addr, content) \<Rightarrow> do {
         (w, r) \<leftarrow> cs_send ops w (tc_socket self) addr content;
         case r of Inl e \<Rightarrow> Some (self, w, Inl e) | Inr _ \<Rightarrow> tc_send_all lib ops self w packets
       }
   }"

definition tc_send_packets ::
  "aead_lib \<Rightarrow> octets_lib \<Rightarrow> 'w ClientSocket \<Rightarrow> NetcodeClientTransport \<Rightarrow> 'w \<Rightarrow> renet_client \<Rightarrow>
   (NetcodeClientTransport \<times> 'w \<times> renet_client \<times> (NetcodeTransportError + unit)) option" where
  "tc_send_packets lib oct ops self w connection =
     (case nc_disconnect_reason (netcode_client self) of
        Some reason \<Rightarrow> Some (self, w, connection, Inl (TransportNetcode (NetcodeDisconnected reason)))
      | None \<Rightarrow> do {
          (connection, packets) \<leftarrow> client_get_packets_to_send oct connection;
          (self, w, r) \<leftarrow> tc_send_all lib ops self w packets;
          Some (self, w, connection, r)
        })"

text \<open>What the loop of \<open>update\<close> does with a datagram from the server.\<close>

definition tc_receive_one :: "aead_lib \<Rightarrow> octets_lib \<Rightarrow> bytes \<Rightarrow> NetcodeClient \<Rightarrow> renet_client \<Rightarrow> (NetcodeClient \<times> renet_client) option" where
  "tc_receive_one lib oct packet nc client = do {
     (nc, content) \<leftarrow> nc_process_packet lib nc packet;
     case content of None \<Rightarrow> Some (nc, client)
     | Some content \<Rightarrow> do { client \<leftarrow> client_process_packet oct client content; Some (nc, client) }
   }"

partial_function (option) tc_receive_loop ::
  "aead_lib \<Rightarrow> octets_lib \<Rightarrow> 'w ClientSocket \<Rightarrow> nat \<Rightarrow> NetcodeClient \<Rightarrow> 'w \<Rightarrow> renet_client \<Rightarrow>
   (NetcodeClient \<times> 'w \<times> renet_client \<times> (NetcodeTransportError + unit)) option option" where
  "tc_receive_loop lib oct ops socket nc w client =
     (case cs_try_recv ops w socket NETCODE_MAX_PACKET_BYTES of None \<Rightarrow> Some None
      | Some (w, Inl e) \<Rightarrow>
          if e = WouldBlock \<or> e = Interrupted then Some (Some (nc, w, client, Inr ()))
          else Some (Some (nc, w, client, Inl (TransportIO e)))
      | Some (w, Inr (packet, addr)) \<Rightarrow>
          if addr \<noteq> nc_server_addr nc then tc_receive_loop lib oct ops socket nc w client
          else if length packet > NETCODE_MAX_PACKET_BYTES then Some None
          else (case tc_receive_one lib oct packet nc client of None \<Rightarrow> Some None
            | Some (nc, client) \<Rightarrow> tc_receive_loop lib oct ops socket nc w client))"

definition tc_after_receive ::
  "aead_lib \<Rightarrow> 'w ClientSocket \<Rightarrow> nat \<Rightarrow> NetcodeClient \<Rightarrow> duration \<Rightarrow> 'w \<Rightarrow> (NetcodeClient \<times> 'w \<times> (NetcodeTransportError + unit)) option" where
  "tc_after_receive lib ops socket nc elapsed w = do {
     (nc, r) \<leftarrow> nc_update lib nc elapsed;
     case r of None \<Rightarrow> Some (nc, cs_postupdate ops w socket, Inr ())
     | Some (packet, addr) \<Rightarrow> do {
         (w, r) \<leftarrow> cs_send ops w socket addr packet;
         case r of Inl e \<Rightarrow> Some (nc, w, Inl e) | Inr _ \<Rightarrow> Some (nc, cs_postupdate ops w socket, Inr ())
       }
   }"

text \<open>The connection is disconnected, so the netcode client disconnects too.\<close>

definition tc_end ::
  "aead_lib \<Rightarrow> 'w ClientSocket \<Rightarrow> NetcodeClientTransport \<Rightarrow> 'w \<Rightarrow> DisconnectReason \<Rightarrow> (NetcodeClientTransport \<times> 'w \<times> (NetcodeTransportError + unit)) option" where
  "tc_end lib ops self w error = do {
     (nc, r) \<leftarrow> nc_disconnect lib (netcode_client self);
     let self = self\<lparr>netcode_client := nc\<rparr>;
     case r of Inl e \<Rightarrow> Some (self, w, Inl (TransportNetcode e))
     | Inr (addr, disconnect_packet) \<Rightarrow> do {
         let (w, closed) = cs_is_closed ops w (tc_socket self);
         if closed then Some (self, w, Inl (TransportRenet error))
         else do {
           (w, r) \<leftarrow> cs_send ops w (tc_socket self) addr disconnect_packet;
           case r of Inl e \<Rightarrow> Some (self, w, Inl e)
           | Inr _ \<Rightarrow> Some (self, cs_close ops w (tc_socket self), Inl (TransportRenet error))
         }
       }
   }"

definition tc_update ::
  "aead_lib \<Rightarrow> octets_lib \<Rightarrow> 'w ClientSocket \<Rightarrow> NetcodeClientTransport \<Rightarrow> duration \<Rightarrow> 'w \<Rightarrow> renet_client \<Rightarrow>
   (NetcodeClientTransport \<times> 'w \<times> renet_client \<times> (NetcodeTransportError + unit)) option option" where
  "tc_update lib oct ops self elapsed w client =
     (case nc_disconnect_reason (netcode_client self) of
        Some reason \<Rightarrow> Some (Some (self, cs_close ops w (tc_socket self), disconnect_due_to_transport client,
          Inl (TransportNetcode (NetcodeDisconnected reason))))
      | None \<Rightarrow>
        (let (w, closed) = cs_is_closed ops w (tc_socket self);
             client = (if closed then disconnect_due_to_transport client else client)
         in case disconnect_reason client of
           Some error \<Rightarrow> Some (do { (self, w, r) \<leftarrow> tc_end lib ops self w error; Some (self, w, client, r) })
         | None \<Rightarrow>
           (let client = (if nc_is_connected (netcode_client self) then set_connected client
                          else if nc_is_connecting (netcode_client self) then set_connecting client else client);
                w = cs_preupdate ops w (tc_socket self)
            in case tc_receive_loop lib oct ops (tc_socket self) (netcode_client self) w client of
              None \<Rightarrow> None | Some None \<Rightarrow> Some None
            | Some (Some (nc, w, client, Inl e)) \<Rightarrow> Some (Some (self\<lparr>netcode_client := nc\<rparr>, w, client, Inl e))
            | Some (Some (nc, w, client, Inr _)) \<Rightarrow> Some (do {
                (nc, w, r) \<leftarrow> tc_after_receive lib ops (tc_socket self) nc elapsed w;
                Some (self\<lparr>netcode_client := nc\<rparr>, w, client, r)
              }))))"
subsection \<open>Payloads through the netcode layer\<close>

text \<open>
  The two ends of a connected session, seen from the client: the server holds a connection for the address of the
  client that opens what the client seals, and it has accepted no number that the client has yet to use.
\<close>

definition linked :: "NetcodeClient \<Rightarrow> NetcodeServer \<Rightarrow> nat \<Rightarrow> SocketAddr \<Rightarrow> u64 \<Rightarrow> bool" where
  "linked client server socket_id addr client_id \<longleftrightarrow> nc_inv client \<and> nc_is_connected client \<and> socket_id < length (sockets server) \<and>
     sv_protocol_id server = ct_protocol_id (nc_connect_token client) \<and> nc_encryption_policy client = needs_encryption (sockets server ! socket_id) \<and>
     (\<exists>slot c acc. find_client_mut_by_addr (clients server) socket_id addr = Some (slot, c) \<and> cn_state c = ConnConnected \<and> cn_client_id c = client_id \<and>
        receive_key c = ct_client_to_server_key (nc_connect_token client) \<and> replay_inv acc (cn_replay_protection c) \<and>
        (\<forall>s \<in> set acc. s < nc_sequence client))"

lemma position_update: "position P xs = Some i \<Longrightarrow> P y \<Longrightarrow> position P (xs[i := y]) = Some i"
  by (induction xs arbitrary: i) (auto split: if_splits)

lemma find_by_addr_update:
  assumes "find_client_mut_by_addr cs socket_id addr = Some (slot, c)" "cn_socket_id c' = cn_socket_id c" "cn_addr c' = cn_addr c"
  shows "find_client_mut_by_addr (cs[slot := Some c']) socket_id addr = Some (slot, c')"
proof -
  have slot: "position (has_addr socket_id addr) cs = Some slot" "cs ! slot = Some c"
    using assms(1) by (auto simp: find_client_mut_by_addr_def at_slot_def split: option.splits)
  then have "slot < length cs" "has_addr socket_id addr (Some c)"
    using position_Some [OF slot(1)] by auto
  then show ?thesis
    using position_update [OF slot(1), of "Some c'"] assms(2,3) by (simp add: find_client_mut_by_addr_def at_slot_def has_addr_def)
qed

lemma client_makes_payload:
  assumes lib: "aead_laws lib" and inv: "nc_inv client" "nc_is_connected client" and p: "0 < length p" "length p \<le> 1300"
    and n: "unat (nc_sequence client) + 1 < 2 ^ 64"
  obtains out bs where
    "nc_generate_payload_packet lib client p =
       Some (client\<lparr>nc_out := out, nc_sequence := nc_sequence client + 1, nc_last_packet_send_time := Some (nc_current_time client)\<rparr>, Inr (nc_server_addr client, bs))"
    "length out = 1400" "18 \<le> length bs" "length bs \<le> 1400"
    "\<And>rp. already_received rp (nc_sequence client) = Some False \<Longrightarrow>
      packet_decode lib bs (ct_protocol_id (nc_connect_token client)) (Some (ct_client_to_server_key (nc_connect_token client))) (Some rp) (nc_encryption_policy client) =
        Some (Some (advance_sequence rp (nc_sequence client)), Inr (nc_sequence client, Payload p))"
proof -
  let ?p = "Payload p"
  have pw: "Netcode_Packet.packet_wf ?p" "packet_type ?p \<noteq> TConnectionRequest"
    and room: "length (concat (packet_parts ?p)) + 25 \<le> length (nc_out client)" "length (nc_out client) \<le> NETCODE_MAX_PACKET_BYTES"
    using inv(1) p by (simp_all add: nc_inv_def netcode_sizes)
  obtain out len where enc: "packet_encode lib ?p (nc_out client) (ct_protocol_id (nc_connect_token client))
       (Some (nc_sequence client, ct_client_to_server_key (nc_connect_token client))) (nc_encryption_policy client) = Some (out, Inr len)"
    "length out = length (nc_out client)" "len \<le> length (nc_out client)" "len = 17 + sequence_bytes_required (nc_sequence client) + length (concat (packet_parts ?p))"
    "\<And>rp. check_replay rp (packet_type ?p) (nc_sequence client) = Some False \<Longrightarrow> packet_decode lib (take len out) (ct_protocol_id (nc_connect_token client))
       (Some (ct_client_to_server_key (nc_connect_token client))) rp (nc_encryption_policy client) =
      (if nc_sequence client = 0 \<and> concat (packet_parts ?p) = [] then Some (rp, Inl PacketTooSmall)
       else Some (advance_replay rp (packet_type ?p) (nc_sequence client), Inr (nc_sequence client, ?p)))"
    by (rule encode_then_decode [OF lib pw room]) blast
  have add: "checked_add_u64 (nc_sequence client) 1 = Some (nc_sequence client + 1)"
    using n by (simp add: checked_add_u64_def)
  have made: "nc_generate_payload_packet lib client p =
       Some (client\<lparr>nc_out := out, nc_sequence := nc_sequence client + 1, nc_last_packet_send_time := Some (nc_current_time client)\<rparr>, Inr (nc_server_addr client, take len out))"
    using p inv(2) enc(1-3) add by (simp add: nc_generate_payload_packet_def client_encode_def nc_is_connected_def netcode_sizes Let_def)
  have read: "packet_decode lib (take len out) (ct_protocol_id (nc_connect_token client)) (Some (ct_client_to_server_key (nc_connect_token client))) (Some rp)
      (nc_encryption_policy client) = Some (Some (advance_sequence rp (nc_sequence client)), Inr (nc_sequence client, ?p))"
    if "already_received rp (nc_sequence client) = Some False" for rp
    using enc(5) [of "Some rp"] that p by (simp add: check_replay_def advance_replay_def)
  have "18 \<le> length (take len out)" "length (take len out) \<le> 1400" "length out = 1400"
    using enc(2-4) p(1) inv(1) by (cases p; simp add: nc_inv_def)+
  then show thesis
    by (intro that [OF made _ _ _ read])
qed

lemma server_takes_payload:
  assumes find: "find_client_mut_by_addr (clients server) socket_id addr = Some (slot, c)" and state: "cn_state c = ConnConnected"
    and socket: "socket_id < length (sockets server)" and long: "18 \<le> length bs"
    and dec: "packet_decode lib bs (sv_protocol_id server) (Some (receive_key c)) (Some (cn_replay_protection c)) (needs_encryption (sockets server ! socket_id)) =
        Some (Some rp, Inr (s, Payload p))"
  shows "sv_process_packet lib server socket_id addr bs = Some (server\<lparr>clients := (clients server)[slot := Some (c\<lparr>cn_replay_protection := rp,
      cn_last_packet_received_time := sv_current_time server, confirmed := True\<rparr>)]\<rparr>, ResultPayload (cn_client_id c) p)"
proof -
  have "slot < length (clients server)"
    using find_by_addr_Some [OF find] by simp
  then show ?thesis
    using assms by (simp add: sv_process_packet_def process_packet_internal_def netcode_sizes handle_connected_def set_client_def Let_def)
qed

text \<open>One payload, and what it leaves behind.\<close>

lemma payload_step:
  assumes lib: "aead_laws lib" and link: "linked client server socket_id addr client_id" and p: "0 < length p" "length p \<le> 1300"
    and n: "unat (nc_sequence client) + 256 < 2 ^ 64"
  obtains client' bs server' where
    "nc_generate_payload_packet lib client p = Some (client', Inr (nc_server_addr client, bs))" "length bs \<le> 1400"
    "sv_process_packet lib server socket_id addr bs = Some (server', ResultPayload client_id p)"
    "linked client' server' socket_id addr client_id" "unat (nc_sequence client') = unat (nc_sequence client) + 1" "nc_server_addr client' = nc_server_addr client"
proof -
  obtain slot c acc where c: "find_client_mut_by_addr (clients server) socket_id addr = Some (slot, c)" "cn_state c = ConnConnected" "cn_client_id c = client_id"
    "receive_key c = ct_client_to_server_key (nc_connect_token client)" "replay_inv acc (cn_replay_protection c)" "\<forall>s \<in> set acc. s < nc_sequence client"
    using link by (auto simp: linked_def)
  have l: "nc_inv client" "nc_is_connected client" "socket_id < length (sockets server)" "sv_protocol_id server = ct_protocol_id (nc_connect_token client)"
    "nc_encryption_policy client = needs_encryption (sockets server ! socket_id)" "unat (nc_sequence client) + 1 < 2 ^ 64"
    using link n by (simp_all add: linked_def)
  have "\<not> too_late acc (nc_sequence client)"
    using c(6) by (auto simp: too_late_def word_less_nat_alt)
  then have window: "already_received (cn_replay_protection c) (nc_sequence client) = Some False"
    "replay_inv (acc @ [nc_sequence client]) (advance_sequence (cn_replay_protection c) (nc_sequence client))"
    using already_received_iff [OF c(5) n] replay_inv_advance [OF c(5) _ n] by simp_all
  obtain out bs where send: "nc_generate_payload_packet lib client p =
       Some (client\<lparr>nc_out := out, nc_sequence := nc_sequence client + 1, nc_last_packet_send_time := Some (nc_current_time client)\<rparr>, Inr (nc_server_addr client, bs))"
    "length out = 1400" "18 \<le> length bs" "length bs \<le> 1400"
    "\<And>rp. already_received rp (nc_sequence client) = Some False \<Longrightarrow>
      packet_decode lib bs (ct_protocol_id (nc_connect_token client)) (Some (ct_client_to_server_key (nc_connect_token client))) (Some rp) (nc_encryption_policy client) =
        Some (Some (advance_sequence rp (nc_sequence client)), Inr (nc_sequence client, Payload p))"
    by (rule client_makes_payload [OF lib l(1,2) p l(6)]) blast
  let ?client = "client\<lparr>nc_out := out, nc_sequence := nc_sequence client + 1, nc_last_packet_send_time := Some (nc_current_time client)\<rparr>"
  let ?c = "c\<lparr>cn_replay_protection := advance_sequence (cn_replay_protection c) (nc_sequence client),
      cn_last_packet_received_time := sv_current_time server, confirmed := True\<rparr>"
  let ?server = "server\<lparr>clients := (clients server)[slot := Some ?c]\<rparr>"
  have recv: "sv_process_packet lib server socket_id addr bs = Some (?server, ResultPayload (cn_client_id c) p)"
    by (rule server_takes_payload [OF c(1,2) l(3) send(3)]) (use send(5) [OF window(1)] c(4) l(4,5) in simp)
  have seq: "unat (nc_sequence client + 1) = unat (nc_sequence client) + 1"
    using l(6) by (simp add: unat_word_ariths)
  have "find_client_mut_by_addr (clients ?server) socket_id addr = Some (slot, ?c)"
    using find_by_addr_update [OF c(1), of ?c] by simp
  moreover have "nc_inv ?client" "nc_is_connected ?client"
    using l(1,2) send(2) by (simp_all add: nc_inv_def nc_is_connected_def nc_is_disconnected_def connection_timed_out_def)
  moreover have "\<forall>s \<in> set (acc @ [nc_sequence client]). s < nc_sequence client + 1"
    using c(6) seq by (auto simp: word_less_nat_alt)
  ultimately have "linked ?client ?server socket_id addr client_id"
    unfolding linked_def using l(3-5) c(2-4) window(2) by (intro conjI exI [of _ slot] exI [of _ ?c] exI [of _ "acc @ [nc_sequence client]"]) simp_all
  then show thesis
    using that [OF send(1,4)] recv c(3) seq by simp
qed


text \<open>What the client makes of a list of payloads, and what the server makes of the datagrams.\<close>

fun payload_frames :: "aead_lib \<Rightarrow> NetcodeClient \<Rightarrow> bytes list \<Rightarrow> (NetcodeClient \<times> bytes list) option" where
  "payload_frames lib client [] = Some (client, [])"
| "payload_frames lib client (p # ps) = do {
     (client, r) \<leftarrow> nc_generate_payload_packet lib client p;
     case r of Inl _ \<Rightarrow> None
     | Inr (_, frame) \<Rightarrow> do { (client, frames) \<leftarrow> payload_frames lib client ps; Some (client, frame # frames) }
   }"

fun process_frames :: "aead_lib \<Rightarrow> nat \<Rightarrow> SocketAddr \<Rightarrow> NetcodeServer \<Rightarrow> bytes list \<Rightarrow> (NetcodeServer \<times> ServerResult list) option" where
  "process_frames lib socket_id addr server [] = Some (server, [])"
| "process_frames lib socket_id addr server (frame # frames) = do {
     (server, r) \<leftarrow> sv_process_packet lib server socket_id addr frame;
     (server, rs) \<leftarrow> process_frames lib socket_id addr server frames;
     Some (server, r # rs)
   }"

lemma payloads_run:
  assumes lib: "aead_laws lib" and "linked client server socket_id addr client_id" "list_all (\<lambda>p. 0 < length p \<and> length p \<le> 1300) ps"
    and "unat (nc_sequence client) + length ps + 256 < 2 ^ 64"
  shows "\<exists>client' server' frames. payload_frames lib client ps = Some (client', frames) \<and> list_all (\<lambda>b. length b \<le> 1400) frames \<and>
    process_frames lib socket_id addr server frames = Some (server', map (ResultPayload client_id) ps) \<and>
    linked client' server' socket_id addr client_id \<and> nc_server_addr client' = nc_server_addr client"
  using assms(2-4)
proof (induction ps arbitrary: client server)
  case (Cons p ps)
  have p: "0 < length p" "length p \<le> 1300" "unat (nc_sequence client) + 256 < 2 ^ 64"
    using Cons.prems(2,3) by simp_all
  obtain client' bs server' where step: "nc_generate_payload_packet lib client p = Some (client', Inr (nc_server_addr client, bs))" "length bs \<le> 1400"
    "sv_process_packet lib server socket_id addr bs = Some (server', ResultPayload client_id p)"
    "linked client' server' socket_id addr client_id" "unat (nc_sequence client') = unat (nc_sequence client) + 1" "nc_server_addr client' = nc_server_addr client"
    by (rule payload_step [OF lib Cons.prems(1) p])
  have "list_all (\<lambda>p. 0 < length p \<and> length p \<le> 1300) ps" "unat (nc_sequence client') + length ps + 256 < 2 ^ 64"
    using Cons.prems(2,3) step(5) by simp_all
  from Cons.IH [OF step(4) this] step show ?case
    by auto
qed simp

subsection \<open>The receive loop of the server\<close>

text \<open>
  What the loop needs from a socket to end: \<open>inbox\<close> are the datagrams it has yet to return, receiving takes them in
  order and then would block, and nothing the server does with the socket meanwhile adds to them.
\<close>

locale queue_socket =
  fixes ops :: "'w ServerSocket" and ok :: "'w \<Rightarrow> bool" and inbox :: "'w \<Rightarrow> (bytes \<times> SocketAddr) list"
  assumes recv_none: "ok w \<Longrightarrow> inbox w = [] \<Longrightarrow>
      \<exists>w'. ss_try_recv ops w socket NETCODE_MAX_PACKET_BYTES = Some (w', Inl WouldBlock) \<and> ok w' \<and> inbox w' = []"
    and recv_some: "ok w \<Longrightarrow> inbox w = d # ds \<Longrightarrow>
      \<exists>w'. ss_try_recv ops w socket NETCODE_MAX_PACKET_BYTES = Some (w', Inr d) \<and> ok w' \<and> inbox w' = ds \<and> length (fst d) \<le> NETCODE_MAX_PACKET_BYTES"
    and send_keeps: "ok w \<Longrightarrow> ss_send ops w socket addr bs = Some (w', r) \<Longrightarrow> ok w' \<and> inbox w' = inbox w"
    and denied_keeps: "ok w \<Longrightarrow> ok (ss_connection_denied ops w socket addr) \<and> inbox (ss_connection_denied ops w socket addr) = inbox w"
    and accepted_keeps: "ok w \<Longrightarrow> ok (ss_connection_accepted ops w socket i addr) \<and> inbox (ss_connection_accepted ops w socket i addr) = inbox w"
    and preupdate_keeps: "ok w \<Longrightarrow> ok (ss_preupdate ops w socket)"
    and disconnect_keeps: "ok w \<Longrightarrow> ok (ss_disconnect ops w socket addr) \<and> inbox (ss_disconnect ops w socket addr) = inbox w"
begin

lemma send_from_keeps: "ok w \<Longrightarrow> send_from ops socks w bs socket_id addr = Some w' \<Longrightarrow> ok w' \<and> inbox w' = inbox w"
  by (auto simp: send_from_def split: bind_splits dest: send_keeps)

lemma handle_keeps:
  assumes "ok w" "handle_server_result oct ops socks r w server = Some (w', server')"
  shows "ok w' \<and> inbox w' = inbox w"
proof -
  have reply: "ok w1 \<and> inbox w1 = inbox w" if "(case content of None \<Rightarrow> Some w | Some bs \<Rightarrow> send_from ops socks w bs i a) = Some w1" for content i a w1
    using that assms(1) by (cases content) (auto dest: send_from_keeps)
  have accepted: "ok w1 \<and> inbox w1 = inbox w" if "send_from ops socks (ss_connection_accepted ops w socket c a) bs i a = Some w1" for socket c a bs i w1
    using send_from_keeps [OF _ that] accepted_keeps [OF assms(1)] by simp
  show ?thesis
  proof (cases r)
    case (ResultConnectionDenied socket_id addr content)
    then show ?thesis
      using assms(2) denied_keeps by (auto simp: handle_server_result_def bind_eq_Some_conv dest!: reply)
  next
    case (ConnectionAccepted client_id socket_id addr content)
    then show ?thesis
      using assms(2) by (auto simp: handle_server_result_def bind_eq_Some_conv dest!: accepted)
  next
    case (ResultClientDisconnected client_id socket_id addr content)
    then show ?thesis
      using assms(2) disconnect_keeps by (auto simp: handle_server_result_def bind_eq_Some_conv dest!: reply)
  qed (use assms disconnect_keeps send_from_keeps in \<open>auto simp: handle_server_result_def bind_eq_Some_conv\<close>)
qed

lemma receive_one_keeps:
  "ok w \<Longrightarrow> receive_one lib oct ops socks socket_id bs addr ns w server = Some (ns', w', server') \<Longrightarrow> ok w' \<and> inbox w' = inbox w"
  by (auto simp: receive_one_def split: bind_splits dest: handle_keeps)

lemma loop_none:
  assumes "ok w" "inbox w = []" "index socks socket_id = Some socket"
  shows "\<exists>w'. receive_loop lib oct ops socks socket_id ns w server errs = Some (Some (ns, w', server, errs)) \<and> ok w' \<and> inbox w' = []"
  using recv_none [OF assms(1,2), of socket] assms(3) by (auto simp: receive_loop.simps)

lemma loop_some:
  assumes "ok w" "inbox w = (bs, addr) # ds" "index socks socket_id = Some socket"
  shows "\<exists>w'. ok w' \<and> inbox w' = ds \<and> receive_loop lib oct ops socks socket_id ns w server errs =
    (case receive_one lib oct ops socks socket_id bs addr ns w' server of None \<Rightarrow> Some None
     | Some (ns, w, server) \<Rightarrow> receive_loop lib oct ops socks socket_id ns w server errs)"
  using recv_some [OF assms(1,2), of socket] assms(3)
  by (elim exE conjE, intro exI conjI) (assumption, assumption, subst receive_loop.simps, simp)

lemma loop_ends:
  assumes "ok w"
  shows "\<exists>r. receive_loop lib oct ops socks socket_id ns w server errs = Some r \<and>
    (\<forall>ns' w' server' errs'. r = Some (ns', w', server', errs') \<longrightarrow> ok w' \<and> inbox w' = [] \<and> errs' = errs)"
proof (cases "index socks socket_id")
  case (Some socket)
  show ?thesis
    using assms
  proof (induction "length (inbox w)" arbitrary: ns w server)
    case 0
    then show ?case
      using loop_none [OF _ _ Some, of w lib oct ns server errs] by auto
  next
    case (Suc n)
    then obtain bs addr ds where ds: "inbox w = (bs, addr) # ds" "length ds = n"
      by (cases "inbox w") auto
    obtain w1 where w1: "ok w1" "inbox w1 = ds" "receive_loop lib oct ops socks socket_id ns w server errs =
        (case receive_one lib oct ops socks socket_id bs addr ns w1 server of None \<Rightarrow> Some None
         | Some (ns, w, server) \<Rightarrow> receive_loop lib oct ops socks socket_id ns w server errs)"
      using loop_some [OF Suc.prems ds(1) Some] by blast
    show ?case
    proof (cases "receive_one lib oct ops socks socket_id bs addr ns w1 server")
      case (Some res)
      obtain ns2 w2 server2 where res: "res = (ns2, w2, server2)"
        by (cases res)
      then have w2: "ok w2" "n = length (inbox w2)"
        using receive_one_keeps [OF w1(1)] Some w1(2) ds(2) by auto
      show ?thesis
        using Suc.hyps(1) [OF w2(2,1)] w1(3) Some res by simp
    qed (use w1(3) in simp)
  qed
qed (simp add: receive_loop.simps)

lemma sockets_end:
  assumes "ok w"
  shows "\<exists>r. receive_sockets lib oct ops socks ids ns w server errs = Some r"
  using assms
proof (induction ids arbitrary: ns w server errs)
  case (Cons i ids)
  show ?case
  proof (cases "index socks i")
    case (Some socket)
    obtain r where r: "receive_loop lib oct ops socks i ns (ss_preupdate ops w socket) server errs = Some r"
      "\<And>ns' w' server' errs'. r = Some (ns', w', server', errs') \<Longrightarrow> ok w'"
      using loop_ends [OF preupdate_keeps [OF Cons.prems]] by blast
    show ?thesis
    proof (cases r)
      case (Some res)
      then show ?thesis
        using Cons.IH r(2) r(1) \<open>index socks i = Some socket\<close> by (cases res) simp
    qed (use r(1) Some in simp)
  qed simp
qed simp

lemma update_returns: "ok w \<Longrightarrow> \<exists>r. ts_update lib oct ops self elapsed w server = Some r"
  using sockets_end [of w lib oct "ts_sockets self" "[0..<length (ts_sockets self)]" "sv_update (netcode_server self) elapsed" server "[]"]
  by (auto simp: ts_update_def split: option.splits)

lemma loop_delivers:
  assumes "ok w" "inbox w = map (\<lambda>b. (b, addr)) frames" "index socks socket_id = Some socket"
    and "process_frames lib socket_id addr ns frames = Some (ns', map (ResultPayload client_id) ps)"
    and "deliver_to_server oct server (unat client_id) ps = Some (server', Inr ())"
  shows "\<exists>w'. receive_loop lib oct ops socks socket_id ns w server errs = Some (Some (ns', w', server', errs)) \<and> ok w' \<and> inbox w' = []"
  using assms(1,2,4,5)
proof (induction frames arbitrary: ns w server ps)
  case Nil
  then show ?case
    using loop_none [OF _ _ assms(3), of w lib oct ns server errs] by simp
next
  case (Cons f frames)
  obtain ns1 r rs where step: "sv_process_packet lib ns socket_id addr f = Some (ns1, r)" "process_frames lib socket_id addr ns1 frames = Some (ns', rs)"
    "map (ResultPayload client_id) ps = r # rs"
    using Cons.prems(3) by (auto split: bind_splits)
  then obtain p ps' where ps: "ps = p # ps'" "r = ResultPayload client_id p" "rs = map (ResultPayload client_id) ps'"
    by auto
  obtain server1 where deliver: "process_packet_from oct server p (unat client_id) = Some (server1, Inr ())"
    "deliver_to_server oct server1 (unat client_id) ps' = Some (server', Inr ())"
    using Cons.prems(4) ps(1) by (auto split: bind_splits sum.splits)
  have cons: "inbox w = (f, addr) # map (\<lambda>b. (b, addr)) frames"
    using Cons.prems(2) by simp
  obtain w1 where w1: "ok w1" "inbox w1 = map (\<lambda>b. (b, addr)) frames" "receive_loop lib oct ops socks socket_id ns w server errs =
      (case receive_one lib oct ops socks socket_id f addr ns w1 server of None \<Rightarrow> Some None
       | Some (ns, w, server) \<Rightarrow> receive_loop lib oct ops socks socket_id ns w server errs)"
    using loop_some [OF Cons.prems(1) cons assms(3)] by blast
  have "receive_one lib oct ops socks socket_id f addr ns w1 server = Some (ns1, w1, server1)"
    using step(1) ps(2) deliver(1) by (simp add: receive_one_def handle_server_result_def)
  then have "receive_loop lib oct ops socks socket_id ns w server errs = receive_loop lib oct ops socks socket_id ns1 w1 server1 errs"
    using w1(3) by simp
  then show ?case
    using Cons.IH [OF w1(1,2) _ deliver(2)] step(2) ps(3) by simp
qed

end

lemma receive_loop_fails:
  assumes socket: "index socks socket_id = Some socket"
    and fails: "\<forall>w. \<exists>w'. ss_try_recv ops w socket NETCODE_MAX_PACKET_BYTES = Some (w', Inl (OtherKind k))"
  shows "receive_loop lib oct ops socks socket_id ns w server errs = None"
proof -
  have "ops' = ops \<longrightarrow> socks' = socks \<longrightarrow> socket_id' = socket_id \<longrightarrow> False"
    if "receive_loop lib oct ops' socks' socket_id' ns w server errs = Some r" for ops' socks' socket_id' r
  proof (rule receive_loop.raw_induct [OF _ that], intro impI, goal_cases)
    case (1 loop lib oct ops' socks' socket_id' ns w server errs r)
    obtain w' where "ss_try_recv ops w socket NETCODE_MAX_PACKET_BYTES = Some (w', Inl (OtherKind k))"
      using fails by blast
    then have "loop lib oct ops' socks' socket_id' ns w' server (errs @ [TransportIO (OtherKind k)]) = Some r"
      using 1(2-5) socket by simp
    from 1(1) [OF this] 1(3-5) show ?case
      by simp
  qed
  then show ?thesis
    by (cases "receive_loop lib oct ops socks socket_id ns w server errs") auto
qed

text \<open>
  C39: A socket that keeps failing hangs the server: when receiving from the first socket returns an error of a kind that
  the loop does not single out, time after time, the loop collects errors for ever and \<open>update\<close> does not return.
\<close>

theorem failing_socket_hangs_server:
  assumes "index (ts_sockets self) 0 = Some socket"
    and "\<forall>w. \<exists>w'. ss_try_recv ops w socket NETCODE_MAX_PACKET_BYTES = Some (w', Inl (OtherKind k))"
  shows "ts_update lib oct ops self elapsed w server = None"
proof -
  have "[0..<length (ts_sockets self)] = 0 # [1..<length (ts_sockets self)]"
    using assms(1) by (auto simp: index_def upt_conv_Cons split: if_splits)
  then show ?thesis
    using receive_loop_fails [OF assms] assms(1) by (simp add: ts_update_def)
qed

text \<open>A socket that is down: nothing can be sent and nothing received.\<close>

definition broken_socket :: "unit ServerSocket" where
  "broken_socket = \<lparr>ss_is_encrypted = \<lambda>_ _. False, ss_is_reliable = \<lambda>_ _. False, ss_connection_denied = \<lambda>w _ _. w, ss_connection_accepted = \<lambda>w _ _ _. w,
     ss_disconnect = \<lambda>w _ _. w, ss_preupdate = \<lambda>w _. w, ss_try_recv = \<lambda>w _ _. Some (w, Inl (OtherKind 100)), ss_postupdate = \<lambda>w _. w,
     ss_send = \<lambda>w _ _ _. Some (w, Inl (TransportIO (OtherKind 100)))\<rparr>"

theorem failing_socket_hangs_server_witness:
  "ts_update rfc_aead quic_lib broken_socket \<lparr>ts_sockets = [0], netcode_server = demo_server\<rparr> 5 () (server_new config_test) = None"
  by (rule failing_socket_hangs_server [where socket = 0 and k = 100]) (simp_all add: broken_socket_def)

end
