(* ===== verification/Memory_Socket.thy ===== *)
theory Memory_Socket
  imports Netcode_Transport
begin

text \<open>
  \<open>src/renet2_netcode/src/memory_socket\<close>: sockets over in-memory channels. The channels of the crossbeam crate are
  a parameter; its laws are those of an unbounded queue whose both ends are held. The channels live in a list,
  an endpoint is an index into it, so that the sender of one socket is the receiver of the other. The locale
  \<open>queue_socket\<close> is what the receive loop of the server needs from a socket.
\<close>

record InMemoryPacket =
  mp_bytes :: bytes
  mp_len :: nat

record 'q channel_lib =
  chan_unbounded :: 'q
  chan_send :: "'q \<Rightarrow> InMemoryPacket \<Rightarrow> 'q option"
  chan_try_recv :: "'q \<Rightarrow> ('q \<times> InMemoryPacket) option"

definition IN_MEMORY_SERVER_ID :: u16 where "IN_MEMORY_SERVER_ID = 65535"

definition in_memory_server_addr :: SocketAddr where
  "in_memory_server_addr = V6 (replicate 16 0) IN_MEMORY_SERVER_ID 0 0"

definition in_memory_client_addr :: "u16 \<Rightarrow> SocketAddr" where
  "in_memory_client_addr client_id = V6 (replicate 16 0) client_id 0 0"

record MemorySocketChannels =
  mc_sender :: nat
  mc_receiver :: nat

definition channel_pair :: "'q channel_lib \<Rightarrow> 'q list \<Rightarrow> 'q list \<times> MemorySocketChannels \<times> MemorySocketChannels" where
  "channel_pair lib chs = (chs @ [chan_unbounded lib, chan_unbounded lib],
     \<lparr>mc_sender = length chs, mc_receiver = length chs + 1\<rparr>, \<lparr>mc_sender = length chs + 1, mc_receiver = length chs\<rparr>)"

record MemorySocketClient =
  msc_client_id :: u16
  msc_channels :: MemorySocketChannels
  msc_encrypted :: bool
  msc_reliable :: bool

record MemorySocketServer =
  mss_clients :: "(u16 \<times> MemorySocketChannels) list"
  mss_encrypted :: bool
  mss_reliable :: bool
  drain_index :: nat

fun connect_memory_clients ::
  "'q channel_lib \<Rightarrow> 'q list \<Rightarrow> u16 list \<Rightarrow> bool \<Rightarrow> bool \<Rightarrow> ('q list \<times> (u16 \<times> MemorySocketChannels) list \<times> MemorySocketClient list) option" where
  "connect_memory_clients lib chs [] encrypted reliable = Some (chs, [], [])"
| "connect_memory_clients lib chs (client_id # ids) encrypted reliable =
     (let (chs, server_chans, client_chans) = channel_pair lib chs
      in if client_id = IN_MEMORY_SERVER_ID then None
         else do {
           (chs, server_channels, client_sockets) \<leftarrow> connect_memory_clients lib chs ids encrypted reliable;
           Some (chs, (client_id, server_chans) # server_channels,
             \<lparr>msc_client_id = client_id, msc_channels = client_chans, msc_encrypted = encrypted, msc_reliable = reliable\<rparr> # client_sockets)
         })"

definition new_memory_sockets ::
  "'q channel_lib \<Rightarrow> 'q list \<Rightarrow> u16 list \<Rightarrow> bool \<Rightarrow> bool \<Rightarrow> ('q list \<times> MemorySocketServer \<times> MemorySocketClient list) option" where
  "new_memory_sockets lib chs client_ids encrypted reliable = do {
     (chs, server_channels, client_sockets) \<leftarrow> connect_memory_clients lib chs (remdups_adj (sort client_ids)) encrypted reliable;
     Some (chs, \<lparr>mss_clients = server_channels, mss_encrypted = encrypted, mss_reliable = reliable, drain_index = 0\<rparr>, client_sockets)
   }"

text \<open>A packet that is too long for its array panics, and so does one that is too long for the buffer.\<close>

definition memory_packet :: "bytes \<Rightarrow> InMemoryPacket option" where
  "memory_packet packet =
     (if length packet \<le> NETCODE_MAX_PACKET_BYTES
      then Some \<lparr>mp_bytes = packet @ replicate (NETCODE_MAX_PACKET_BYTES - length packet) 0, mp_len = length packet\<rparr> else None)"

definition copy_packet :: "InMemoryPacket \<Rightarrow> nat \<Rightarrow> bytes option" where
  "copy_packet packet n = (if mp_len packet \<le> n then slice_range (mp_bytes packet) 0 (mp_len packet) else None)"

subsection \<open>Server socket\<close>

function mss_try_recv ::
  "'q channel_lib \<Rightarrow> 'q list \<Rightarrow> MemorySocketServer \<Rightarrow> nat \<Rightarrow> ('q list \<times> MemorySocketServer \<times> (ErrorKind + bytes \<times> SocketAddr)) option" where
  "mss_try_recv lib chs self n =
     (if drain_index self \<ge> length (mss_clients self) then Some (chs, self, Inl WouldBlock)
      else (case index chs (mc_receiver (snd (mss_clients self ! drain_index self))) of None \<Rightarrow> None
        | Some receiver \<Rightarrow> (case chan_try_recv lib receiver of
            Some (receiver, packet) \<Rightarrow> do {
              bs \<leftarrow> copy_packet packet n;
              Some (chs[mc_receiver (snd (mss_clients self ! drain_index self)) := receiver], self,
                Inr (bs, in_memory_client_addr (fst (mss_clients self ! drain_index self))))
            }
          | None \<Rightarrow> mss_try_recv lib chs (self\<lparr>drain_index := drain_index self + 1\<rparr>) n)))"
  by pat_completeness auto

termination
  by (relation "measure (\<lambda>(_, _, self, _). length (mss_clients self) - drain_index self)") auto

declare mss_try_recv.simps [simp del]

definition mss_send ::
  "'q channel_lib \<Rightarrow> 'q list \<Rightarrow> MemorySocketServer \<Rightarrow> SocketAddr \<Rightarrow> bytes \<Rightarrow> ('q list \<times> (NetcodeTransportError + unit)) option" where
  "mss_send lib chs self addr packet = do {
     mem_packet \<leftarrow> memory_packet packet;
     case position (\<lambda>(id, _). id = port addr) (mss_clients self) of
       None \<Rightarrow> Some (chs, Inl (TransportIO AddrNotAvailable))
     | Some idx \<Rightarrow> do {
         sender \<leftarrow> index chs (mc_sender (snd (mss_clients self ! idx)));
         case chan_send lib sender mem_packet of
           None \<Rightarrow> Some (chs, Inl (TransportIO ConnectionAborted))
         | Some sender \<Rightarrow> Some (chs[mc_sender (snd (mss_clients self ! idx)) := sender], Inr ())
       }
   }"

subsection \<open>Client socket\<close>

definition msc_try_recv ::
  "'q channel_lib \<Rightarrow> 'q list \<Rightarrow> MemorySocketClient \<Rightarrow> nat \<Rightarrow> ('q list \<times> (ErrorKind + bytes \<times> SocketAddr)) option" where
  "msc_try_recv lib chs self n =
     (if n < NETCODE_MAX_PACKET_BYTES then None
      else do {
        receiver \<leftarrow> index chs (mc_receiver (msc_channels self));
        case chan_try_recv lib receiver of
          None \<Rightarrow> Some (chs, Inl WouldBlock)
        | Some (receiver, packet) \<Rightarrow> do {
            bs \<leftarrow> copy_packet packet n;
            Some (chs[mc_receiver (msc_channels self) := receiver], Inr (bs, in_memory_server_addr))
          }
      })"

definition msc_send ::
  "'q channel_lib \<Rightarrow> 'q list \<Rightarrow> MemorySocketClient \<Rightarrow> SocketAddr \<Rightarrow> bytes \<Rightarrow> ('q list \<times> (NetcodeTransportError + unit)) option" where
  "msc_send lib chs self addr packet =
     (if addr \<noteq> in_memory_server_addr then None
      else do {
        mem_packet \<leftarrow> memory_packet packet;
        sender \<leftarrow> index chs (mc_sender (msc_channels self));
        case chan_send lib sender mem_packet of
          None \<Rightarrow> Some (chs, Inl (TransportIO ConnectionAborted))
        | Some sender \<Rightarrow> Some (chs[mc_sender (msc_channels self) := sender], Inr ())
      })"

subsection \<open>The sockets as implementations of the traits\<close>

record 'q memory_world =
  mw_channels :: "'q list"
  mw_server :: MemorySocketServer
  mw_clients :: "MemorySocketClient list"

definition memory_server_socket :: "'q channel_lib \<Rightarrow> 'q memory_world ServerSocket" where
  "memory_server_socket lib =
     \<lparr>ss_is_encrypted = \<lambda>w _. mss_encrypted (mw_server w),
       ss_is_reliable = \<lambda>w _. mss_reliable (mw_server w),
       ss_connection_denied = \<lambda>w _ _. w,
       ss_connection_accepted = \<lambda>w _ _ _. w,
       ss_disconnect = \<lambda>w _ _. w,
       ss_preupdate = \<lambda>w _. w\<lparr>mw_server := (mw_server w)\<lparr>drain_index := 0\<rparr>\<rparr>,
       ss_try_recv = \<lambda>w _ n. do {
         (chs, server, r) \<leftarrow> mss_try_recv lib (mw_channels w) (mw_server w) n;
         Some (w\<lparr>mw_channels := chs, mw_server := server\<rparr>, r)
       },
       ss_postupdate = \<lambda>w _. w,
       ss_send = \<lambda>w _ addr packet. do {
         (chs, r) \<leftarrow> mss_send lib (mw_channels w) (mw_server w) addr packet;
         Some (w\<lparr>mw_channels := chs\<rparr>, r)
       }\<rparr>"

definition memory_client_socket :: "'q channel_lib \<Rightarrow> 'q memory_world ClientSocket" where
  "memory_client_socket lib =
     \<lparr>cs_is_encrypted = \<lambda>w i. msc_encrypted (mw_clients w ! i),
       cs_is_reliable = \<lambda>w i. msc_reliable (mw_clients w ! i),
       cs_is_closed = \<lambda>w _. (w, False),
       cs_close = \<lambda>w _. w,
       cs_preupdate = \<lambda>w _. w,
       cs_try_recv = \<lambda>w i n. do {
         (chs, r) \<leftarrow> msc_try_recv lib (mw_channels w) (mw_clients w ! i) n;
         Some (w\<lparr>mw_channels := chs\<rparr>, r)
       },
       cs_postupdate = \<lambda>w _. w,
       cs_send = \<lambda>w i addr packet. do {
         (chs, r) \<leftarrow> msc_send lib (mw_channels w) (mw_clients w ! i) addr packet;
         Some (w\<lparr>mw_channels := chs\<rparr>, r)
       }\<rparr>"
subsection \<open>The datagrams on their way to the server\<close>

definition packet_ok :: "InMemoryPacket \<Rightarrow> bool" where
  "packet_ok p \<longleftrightarrow> mp_len p \<le> NETCODE_MAX_PACKET_BYTES \<and> length (mp_bytes p) = NETCODE_MAX_PACKET_BYTES"

definition datagram :: "InMemoryPacket \<Rightarrow> bytes" where
  "datagram p = take (mp_len p) (mp_bytes p)"

definition inbox_from :: "('q \<Rightarrow> InMemoryPacket list) \<Rightarrow> 'q list \<Rightarrow> (u16 \<times> MemorySocketChannels) list \<Rightarrow> (bytes \<times> SocketAddr) list" where
  "inbox_from contents chs cs = concat (map (\<lambda>(id, ch). map (\<lambda>p. (datagram p, in_memory_client_addr id)) (contents (chs ! mc_receiver ch))) cs)"

definition memory_inbox :: "('q \<Rightarrow> InMemoryPacket list) \<Rightarrow> 'q memory_world \<Rightarrow> (bytes \<times> SocketAddr) list" where
  "memory_inbox contents w = inbox_from contents (mw_channels w) (drop (drain_index (mw_server w)) (mss_clients (mw_server w)))"

text \<open>The channels of the server exist, no channel has two receivers or is read and written by the server, and every packet fits its array.\<close>

definition receivers :: "(u16 \<times> MemorySocketChannels) list \<Rightarrow> nat list" where
  "receivers cs = map (mc_receiver \<circ> snd) cs"

definition wired :: "'q list \<Rightarrow> (u16 \<times> MemorySocketChannels) list \<Rightarrow> bool" where
  "wired chs cs \<longleftrightarrow> distinct (receivers cs) \<and> (\<forall>(_, ch) \<in> set cs. mc_receiver ch < length chs \<and> mc_sender ch < length chs \<and> mc_sender ch \<notin> set (receivers cs))"

definition memory_ok :: "('q \<Rightarrow> InMemoryPacket list) \<Rightarrow> 'q memory_world \<Rightarrow> bool" where
  "memory_ok contents w \<longleftrightarrow> wired (mw_channels w) (mss_clients (mw_server w)) \<and>
     (\<forall>q \<in> set (mw_channels w). \<forall>p \<in> set (contents q). packet_ok p)"

lemma wired_update [simp]: "wired (chs[i := q]) cs = wired chs cs"
  by (simp add: wired_def)

lemma inbox_from_Nil [simp]: "inbox_from contents chs [] = []"
  by (simp add: inbox_from_def)

lemma inbox_from_update: "i \<notin> set (receivers cs) \<Longrightarrow> inbox_from contents (chs[i := q]) cs = inbox_from contents chs cs"
  by (induction cs) (auto simp: inbox_from_def receivers_def)

lemma packets_ok_update:
  "\<forall>q \<in> set chs. \<forall>p \<in> set (contents q). packet_ok p \<Longrightarrow> \<forall>p \<in> set (contents q'). packet_ok p \<Longrightarrow> \<forall>q \<in> set (chs[i := q']). \<forall>p \<in> set (contents q). packet_ok p"
  using set_update_subset_insert by fastforce

lemma memory_packet_ok: "length bs \<le> 1400 \<Longrightarrow> \<exists>p. memory_packet bs = Some p \<and> packet_ok p \<and> datagram p = bs"
  by (simp add: memory_packet_def packet_ok_def datagram_def netcode_sizes)

lemma memory_packet_SomeD: "memory_packet bs = Some p \<Longrightarrow> packet_ok p"
  by (auto simp: memory_packet_def packet_ok_def split: if_splits)

locale channel =
  fixes chan :: "'q channel_lib" and contents :: "'q \<Rightarrow> InMemoryPacket list"
  assumes unbounded_empty: "contents (chan_unbounded chan) = []"
    and send: "\<exists>q'. chan_send chan q p = Some q' \<and> contents q' = contents q @ [p]"
    and recv_empty: "contents q = [] \<Longrightarrow> chan_try_recv chan q = None"
    and recv_first: "contents q = p # ps \<Longrightarrow> \<exists>q'. chan_try_recv chan q = Some (q', p) \<and> contents q' = ps"
begin

lemma mss_recv:
  assumes "wired chs (mss_clients self)" "\<forall>q \<in> set chs. \<forall>p \<in> set (contents q). packet_ok p"
  shows "case inbox_from contents chs (drop (drain_index self) (mss_clients self)) of
      [] \<Rightarrow> \<exists>d. mss_try_recv chan chs self NETCODE_MAX_PACKET_BYTES = Some (chs, self\<lparr>drain_index := d\<rparr>, Inl WouldBlock) \<and> length (mss_clients self) \<le> d
    | x # xs \<Rightarrow> \<exists>d chs'. mss_try_recv chan chs self NETCODE_MAX_PACKET_BYTES = Some (chs', self\<lparr>drain_index := d\<rparr>, Inr x) \<and>
        inbox_from contents chs' (drop d (mss_clients self)) = xs \<and> wired chs' (mss_clients self) \<and>
        (\<forall>q \<in> set chs'. \<forall>p \<in> set (contents q). packet_ok p) \<and> length (fst x) \<le> NETCODE_MAX_PACKET_BYTES"
  using assms
proof (induction "length (mss_clients self) - drain_index self" arbitrary: self)
  case 0
  then have "mss_try_recv chan chs self NETCODE_MAX_PACKET_BYTES = Some (chs, self, Inl WouldBlock)" "inbox_from contents chs (drop (drain_index self) (mss_clients self)) = []"
    by (simp_all add: mss_try_recv.simps inbox_from_def)
  then show ?case
    using 0 by (auto intro!: exI [of _ "drain_index self"])
next
  case (Suc n)
  let ?cs = "mss_clients self" and ?d = "drain_index self"
  obtain id ch where head: "?cs ! ?d = (id, ch)" "?d < length ?cs"
    using Suc.hyps(2) by (cases "?cs ! ?d") auto
  have cs: "drop ?d ?cs = (id, ch) # drop (Suc ?d) ?cs"
    using head Cons_nth_drop_Suc [of ?d ?cs] by simp
  have mem: "(id, ch) \<in> set ?cs"
    using head by (metis nth_mem)
  then have r: "mc_receiver ch < length chs"
    using Suc.prems(1) by (auto simp: wired_def)
  have "distinct (receivers (drop ?d ?cs))"
    using Suc.prems(1) by (simp add: wired_def receivers_def drop_map [symmetric])
  then have new: "mc_receiver ch \<notin> set (receivers (drop (Suc ?d) ?cs))"
    by (simp add: cs receivers_def)
  let ?q = "chs ! mc_receiver ch"
  show ?case
  proof (cases "contents ?q")
    case Nil
    have "inbox_from contents chs (drop ?d ?cs) = inbox_from contents chs (drop (Suc ?d) ?cs)"
      using Nil by (simp add: cs inbox_from_def)
    moreover have "mss_try_recv chan chs self NETCODE_MAX_PACKET_BYTES = mss_try_recv chan chs (self\<lparr>drain_index := ?d + 1\<rparr>) NETCODE_MAX_PACKET_BYTES"
      using head r recv_empty [OF Nil] by (subst mss_try_recv.simps) simp
    moreover have "n = length (mss_clients (self\<lparr>drain_index := ?d + 1\<rparr>)) - drain_index (self\<lparr>drain_index := ?d + 1\<rparr>)"
      using Suc.hyps(2) by simp
    ultimately show ?thesis
      using Suc.hyps(1) [of "self\<lparr>drain_index := ?d + 1\<rparr>"] Suc.prems
      by (cases "inbox_from contents chs (drop (Suc ?d) ?cs)") simp_all
  next
    case (Cons p ps)
    have ok: "packet_ok p" "\<forall>p \<in> set ps. packet_ok p"
      using Suc.prems(2) r Cons by (metis list.set_intros nth_mem)+
    obtain q where q: "chan_try_recv chan ?q = Some (q, p)" "contents q = ps"
      using recv_first [OF Cons] by blast
    have copy: "copy_packet p NETCODE_MAX_PACKET_BYTES = Some (datagram p)" "length (datagram p) \<le> NETCODE_MAX_PACKET_BYTES"
      using ok(1) by (simp_all add: copy_packet_def packet_ok_def datagram_def)
    have "inbox_from contents chs (drop ?d ?cs) = (datagram p, in_memory_client_addr id) # map (\<lambda>p. (datagram p, in_memory_client_addr id)) ps @ inbox_from contents chs (drop (Suc ?d) ?cs)"
      using Cons by (simp add: cs inbox_from_def)
    moreover have "inbox_from contents (chs[mc_receiver ch := q]) (drop ?d ?cs) = map (\<lambda>p. (datagram p, in_memory_client_addr id)) ps @ inbox_from contents chs (drop (Suc ?d) ?cs)"
      using inbox_from_update [OF new, of contents chs q] r q(2) by (simp add: cs inbox_from_def)
    moreover have "mss_try_recv chan chs self NETCODE_MAX_PACKET_BYTES =
        Some (chs[mc_receiver ch := q], self\<lparr>drain_index := ?d\<rparr>, Inr (datagram p, in_memory_client_addr id))"
      using head r q(1) copy(1) by (subst mss_try_recv.simps) simp
    moreover have "\<forall>x \<in> set (chs[mc_receiver ch := q]). \<forall>p \<in> set (contents x). packet_ok p"
      using packets_ok_update [OF Suc.prems(2), of q] q(2) ok(2) by simp
    ultimately show ?thesis
      using Suc.prems(1) copy(2) by (auto intro!: exI [of _ ?d])
  qed
qed

lemma mss_send_keeps:
  assumes "memory_ok contents w" "mss_send chan (mw_channels w) (mw_server w) addr bs = Some (chs, r)"
  shows "memory_ok contents (w\<lparr>mw_channels := chs\<rparr>) \<and> memory_inbox contents (w\<lparr>mw_channels := chs\<rparr>) = memory_inbox contents w"
proof -
  let ?cs = "mss_clients (mw_server w)"
  obtain p where p: "memory_packet bs = Some p" "packet_ok p"
    using assms(2) memory_packet_SomeD by (auto simp: mss_send_def bind_eq_Some_conv)
  show ?thesis
  proof (cases "position (\<lambda>(id, _). id = port addr) ?cs")
    case None
    then show ?thesis
      using assms p by (auto simp: mss_send_def memory_ok_def memory_inbox_def)
  next
    case (Some i)
    let ?s = "mc_sender (snd (?cs ! i))"
    have i: "?cs ! i \<in> set ?cs"
      using position_Some [OF Some] by simp
    have s: "?s < length (mw_channels w)" "?s \<notin> set (receivers ?cs)"
      using assms(1) i by (auto simp: memory_ok_def wired_def split: prod.splits)
    obtain q where q: "chan_send chan (mw_channels w ! ?s) p = Some q" "contents q = contents (mw_channels w ! ?s) @ [p]"
      using send by blast
    have chs: "chs = (mw_channels w)[?s := q]"
      using assms(2) p(1) Some s(1) q(1) by (simp add: mss_send_def)
    have "?s \<notin> set (receivers (drop (drain_index (mw_server w)) ?cs))"
      using s(2) set_drop_subset by (fastforce simp: receivers_def)
    moreover have "\<forall>x \<in> set chs. \<forall>p \<in> set (contents x). packet_ok p"
      unfolding chs using assms(1) p(2) s(1) q(2) by (intro packets_ok_update) (auto simp: memory_ok_def)
    ultimately show ?thesis
      using assms(1) by (simp add: chs memory_ok_def memory_inbox_def inbox_from_update)
  qed
qed

end

sublocale channel \<subseteq> memory: queue_socket "memory_server_socket chan" "memory_ok contents" "memory_inbox contents"
proof (unfold_locales, goal_cases)
  case (1 w socket)
  then show ?case
    using mss_recv [of "mw_channels w" "mw_server w"]
    by (auto simp: memory_server_socket_def memory_ok_def memory_inbox_def)
next
  case (2 w d ds socket)
  then show ?case
    using mss_recv [of "mw_channels w" "mw_server w"] by (auto simp: memory_server_socket_def memory_ok_def memory_inbox_def)
next
  case (3 w socket addr bs w' r)
  then show ?case
    using mss_send_keeps by (auto simp: memory_server_socket_def bind_eq_Some_conv)
qed (auto simp: memory_server_socket_def memory_ok_def)
text \<open>Channels as lists.\<close>

definition list_channel :: "InMemoryPacket list channel_lib" where
  "list_channel = \<lparr>chan_unbounded = [], chan_send = \<lambda>q p. Some (q @ [p]),
     chan_try_recv = \<lambda>q. case q of [] \<Rightarrow> None | p # ps \<Rightarrow> Some (ps, p)\<rparr>"

interpretation fifo: channel list_channel "\<lambda>q. q"
  by unfold_locales (simp_all add: list_channel_def)

subsection \<open>New sockets\<close>

text \<open>The i-th client socket writes to the channel that the server reads for its j-th client, under the id of the socket.\<close>

definition joined :: "'q memory_world \<Rightarrow> nat \<Rightarrow> nat \<Rightarrow> bool" where
  "joined w i j \<longleftrightarrow> i < length (mw_clients w) \<and> j < length (mss_clients (mw_server w)) \<and>
     fst (mss_clients (mw_server w) ! j) = msc_client_id (mw_clients w ! i) \<and>
     mc_sender (msc_channels (mw_clients w ! i)) = mc_receiver (snd (mss_clients (mw_server w) ! j))"

lemma connect_memory_clients_spec:
  assumes "connect_memory_clients chan chs ids e r = Some (chs', ss, cs)"
  shows "chs' = chs @ replicate (2 * length ids) (chan_unbounded chan) \<and>
    ss = map (\<lambda>j. (ids ! j, \<lparr>mc_sender = length chs + 2 * j, mc_receiver = length chs + 2 * j + 1\<rparr>)) [0..<length ids] \<and>
    cs = map (\<lambda>j. \<lparr>msc_client_id = ids ! j, msc_channels = \<lparr>mc_sender = length chs + 2 * j + 1, mc_receiver = length chs + 2 * j\<rparr>,
      msc_encrypted = e, msc_reliable = r\<rparr>) [0..<length ids]"
  using assms
proof (induction ids arbitrary: chs chs' ss cs)
  case (Cons i ids)
  obtain ss0 cs0 where rest: "connect_memory_clients chan (chs @ [chan_unbounded chan, chan_unbounded chan]) ids e r = Some (chs', ss0, cs0)"
    "ss = (i, \<lparr>mc_sender = length chs, mc_receiver = length chs + 1\<rparr>) # ss0"
    "cs = \<lparr>msc_client_id = i, msc_channels = \<lparr>mc_sender = length chs + 1, mc_receiver = length chs\<rparr>, msc_encrypted = e, msc_reliable = r\<rparr> # cs0"
    using Cons.prems by (auto simp: channel_pair_def bind_eq_Some_conv split: if_splits)
  have upt: "[0..<length (i # ids)] = 0 # map Suc [0..<length ids]"
    by (simp add: map_Suc_upt upt_conv_Cons del: upt_Suc)
  show ?case
    using Cons.IH [OF rest(1)] unfolding rest(2,3) upt by (simp add: comp_def)
qed simp

lemma new_memory_sockets_ok:
  assumes chan: "channel chan contents" and new: "new_memory_sockets chan [] ids e r = Some (chs, server, cs)"
    and w: "w = \<lparr>mw_channels = chs, mw_server = server, mw_clients = cs\<rparr>"
  shows "memory_ok contents w \<and> memory_inbox contents w = [] \<and> (\<forall>i < length cs. joined w i i) \<and> map msc_client_id cs = remdups_adj (sort ids)"
proof -
  let ?ids = "remdups_adj (sort ids)"
  let ?ss = "map (\<lambda>j. (?ids ! j, \<lparr>mc_sender = 2 * j, mc_receiver = 2 * j + 1\<rparr>)) [0..<length ?ids]"
  have spec: "chs = replicate (2 * length ?ids) (chan_unbounded chan)" "mss_clients server = ?ss"
    "cs = map (\<lambda>j. \<lparr>msc_client_id = ?ids ! j, msc_channels = \<lparr>mc_sender = 2 * j + 1, mc_receiver = 2 * j\<rparr>, msc_encrypted = e, msc_reliable = r\<rparr>) [0..<length ?ids]"
    using new connect_memory_clients_spec [of chan "[]" ?ids e r] by (auto simp: new_memory_sockets_def bind_eq_Some_conv)
  have receivers: "receivers ?ss = map (\<lambda>j. 2 * j + 1) [0..<length ?ids]"
    by (simp add: receivers_def comp_def)
  have "wired chs ?ss"
    unfolding wired_def receivers by (auto simp: spec(1) distinct_map inj_on_def) presburger+
  moreover have empty: "contents q = []" if "q \<in> set chs" for q
    using that channel.unbounded_empty [OF chan] by (auto simp: spec(1))
  moreover have "inbox_from contents chs (drop d ?ss) = []" for d
    using channel.unbounded_empty [OF chan] by (auto simp: inbox_from_def spec(1) dest!: in_set_dropD)
  moreover have "map msc_client_id cs = ?ids"
    by (simp add: spec(3) comp_def map_nth)
  ultimately show ?thesis
    by (auto simp: w memory_ok_def memory_inbox_def spec(2) joined_def spec(3))
qed

context channel
begin

lemma memory_update: "memory_ok contents w \<Longrightarrow> \<exists>r. ts_update lib oct (memory_server_socket chan) self elapsed w server = Some r"
  by (rule memory.update_returns)

end


subsection \<open>From a client to the server\<close>

text \<open>Only the j-th client has datagrams on their way.\<close>

definition only_from :: "('q \<Rightarrow> InMemoryPacket list) \<Rightarrow> 'q memory_world \<Rightarrow> nat \<Rightarrow> bytes list \<Rightarrow> bool" where
  "only_from contents w j frames \<longleftrightarrow>
     (\<forall>k < length (mss_clients (mw_server w)). map datagram (contents (mw_channels w ! mc_receiver (snd (mss_clients (mw_server w) ! k)))) = (if k = j then frames else []))"

lemma inbox_from_append: "inbox_from contents chs (as @ bs) = inbox_from contents chs as @ inbox_from contents chs bs"
  by (simp add: inbox_from_def)

lemma inbox_only_from:
  assumes "only_from contents w j frames" "j < length (mss_clients (mw_server w))"
  shows "inbox_from contents (mw_channels w) (mss_clients (mw_server w)) = map (\<lambda>b. (b, in_memory_client_addr (fst (mss_clients (mw_server w) ! j)))) frames"
proof -
  let ?cs = "mss_clients (mw_server w)"
  have "contents (mw_channels w ! mc_receiver (snd (?cs ! k))) = []" if "k < length ?cs" "k \<noteq> j" for k
    using that assms(1) unfolding only_from_def by (metis map_is_Nil_conv)
  then have none: "contents (mw_channels w ! mc_receiver ch) = []" if "?cs ! k = (i, ch)" "k < length ?cs" "k \<noteq> j" for k i ch
    using that by (metis snd_conv)
  have "contents (mw_channels w ! mc_receiver ch) = []" if "(i, ch) \<in> set (take j ?cs)" for i ch
    using that assms(2) none [of _ i ch] by (fastforce simp: in_set_conv_nth)
  moreover have "contents (mw_channels w ! mc_receiver ch) = []" if "(i, ch) \<in> set (drop (Suc j) ?cs)" for i ch
    using that assms(2) none [of "Suc (j + _)" i ch] by (fastforce simp: in_set_conv_nth)
  ultimately have "inbox_from contents (mw_channels w) (take j ?cs) = []" "inbox_from contents (mw_channels w) (drop (Suc j) ?cs) = []"
    by (auto simp: inbox_from_def)
  moreover have "inbox_from contents (mw_channels w) [?cs ! j] = map (\<lambda>b. (b, in_memory_client_addr (fst (?cs ! j)))) frames"
  proof -
    have "frames = map datagram (contents (mw_channels w ! mc_receiver (snd (?cs ! j))))"
      using assms by (simp add: only_from_def)
    then show ?thesis
      by (simp add: inbox_from_def split_beta)
  qed
  ultimately have "inbox_from contents (mw_channels w) (take j ?cs @ [?cs ! j] @ drop (Suc j) ?cs) = map (\<lambda>b. (b, in_memory_client_addr (fst (?cs ! j)))) frames"
    by (simp only: inbox_from_append append_Nil append_Nil2)
  then show ?thesis
    using id_take_nth_drop [OF assms(2)] by simp
qed

lemma inbox_only_from_none: "only_from contents w j [] \<longleftrightarrow> inbox_from contents (mw_channels w) (mss_clients (mw_server w)) = []"
  by (simp add: only_from_def inbox_from_def split_beta all_set_conv_all_nth)

lemma payload_packet_addr:
  assumes "nc_generate_payload_packet lib c p = Some (c', Inr (a, f))"
  shows "a = nc_server_addr c" "nc_server_addr c' = nc_server_addr c"
  using assms by (auto simp: nc_generate_payload_packet_def client_encode_def Let_def split: if_splits bind_splits sum.splits)

context channel
begin

lemma client_sends:
  assumes ok: "memory_ok contents w" and join: "joined w i j" and only: "only_from contents w j frames" and bs: "length bs \<le> 1400"
  obtains w' where "cs_send (memory_client_socket chan) w i in_memory_server_addr bs = Some (w', Inr ())" "memory_ok contents w'" "joined w' i j"
    "only_from contents w' j (frames @ [bs])" "mw_server w' = mw_server w" "mw_clients w' = mw_clients w"
proof -
  let ?cs = "mss_clients (mw_server w)" and ?s = "mc_sender (msc_channels (mw_clients w ! i))"
  have s: "?s = mc_receiver (snd (?cs ! j))" "j < length ?cs"
    using join by (simp_all add: joined_def)
  have wired: "wired (mw_channels w) ?cs"
    using ok by (simp add: memory_ok_def)
  have recv: "mc_receiver (snd (?cs ! k)) < length (mw_channels w)" if "k < length ?cs" for k
    using wired nth_mem [OF that] by (auto simp: wired_def split_beta)
  have inj: "mc_receiver (snd (?cs ! k)) = ?s \<longleftrightarrow> k = j" if "k < length ?cs" for k
    using wired that s by (auto simp: wired_def receivers_def distinct_conv_nth)
  obtain p where p: "memory_packet bs = Some p" "packet_ok p" "datagram p = bs"
    using memory_packet_ok [OF bs] by blast
  obtain q where q: "chan_send chan (mw_channels w ! ?s) p = Some q" "contents q = contents (mw_channels w ! ?s) @ [p]"
    using send by blast
  let ?w = "w\<lparr>mw_channels := (mw_channels w)[?s := q]\<rparr>"
  have "cs_send (memory_client_socket chan) w i in_memory_server_addr bs = Some (?w, Inr ())"
    using p(1) q(1) recv [OF s(2)] s(1) by (simp add: memory_client_socket_def msc_send_def)
  moreover have "memory_ok contents ?w"
  proof -
    have "\<forall>x \<in> set ((mw_channels w)[?s := q]). \<forall>p \<in> set (contents x). packet_ok p"
      using ok p(2) q(2) recv [OF s(2)] s(1) by (intro packets_ok_update) (auto simp: memory_ok_def)
    then show ?thesis
      using wired by (simp add: memory_ok_def)
  qed
  moreover have "only_from contents ?w j (frames @ [bs])"
    unfolding only_from_def
  proof (intro allI impI)
    fix k
    assume "k < length (mss_clients (mw_server ?w))"
    then have k: "k < length ?cs"
      by simp
    have "map datagram (contents (mw_channels w ! mc_receiver (snd (?cs ! k)))) = (if k = j then frames else [])"
      using only k unfolding only_from_def by blast
    then show "map datagram (contents (mw_channels ?w ! mc_receiver (snd (mss_clients (mw_server ?w) ! k)))) = (if k = j then frames @ [bs] else [])"
      using inj [OF k] recv [OF k] q(2) p(3) s(1) by (cases "k = j") simp_all
  qed
  moreover have "joined ?w i j"
    using join by (simp add: joined_def)
  ultimately show thesis
    using that [of ?w] by simp
qed

lemma client_sends_all:
  assumes "payload_frames lib (netcode_client self) ps = Some (nc', frames)" "list_all (\<lambda>b. length b \<le> 1400) frames"
    and "memory_ok contents w" "joined w (tc_socket self) j" "only_from contents w j earlier" "nc_server_addr (netcode_client self) = in_memory_server_addr"
  shows "\<exists>w'. tc_send_all lib (memory_client_socket chan) self w ps = Some (self\<lparr>netcode_client := nc'\<rparr>, w', Inr ()) \<and> memory_ok contents w' \<and>
    only_from contents w' j (earlier @ frames) \<and> mw_server w' = mw_server w"
  using assms
proof (induction ps arbitrary: self frames w earlier)
  case Nil
  then show ?case
    by auto
next
  case (Cons p ps)
  obtain nc1 r where r: "nc_generate_payload_packet lib (netcode_client self) p = Some (nc1, r)"
    using Cons.prems(1) by (cases "nc_generate_payload_packet lib (netcode_client self) p") auto
  then obtain a f frames1 where step: "nc_generate_payload_packet lib (netcode_client self) p = Some (nc1, Inr (a, f))"
    "payload_frames lib nc1 ps = Some (nc', frames1)" "frames = f # frames1"
    using Cons.prems(1) by (cases r) (auto simp: bind_eq_Some_conv)
  note addr = payload_packet_addr [OF step(1)]
  obtain w1 where w1: "cs_send (memory_client_socket chan) w (tc_socket self) in_memory_server_addr f = Some (w1, Inr ())" "memory_ok contents w1"
    "joined w1 (tc_socket self) j" "only_from contents w1 j (earlier @ [f])" "mw_server w1 = mw_server w"
    by (rule client_sends [OF Cons.prems(3-5)]) (use Cons.prems(2) step(3) in auto)
  have "tc_send_all lib (memory_client_socket chan) self w (p # ps) = tc_send_all lib (memory_client_socket chan) (self\<lparr>netcode_client := nc1\<rparr>) w1 ps"
    using step(1) addr Cons.prems(6) w1(1) by (simp add: Let_def)
  then show ?case
    using Cons.IH [of "self\<lparr>netcode_client := nc1\<rparr>" frames1 w1 "earlier @ [f]"] step(2,3) Cons.prems(2,6) addr w1(2-5) by simp
qed

end

context channel
begin

lemma delivers:
  assumes lib: "aead_laws lib" and ok: "memory_ok contents w" and empty: "inbox_from contents (mw_channels w) (mss_clients (mw_server w)) = []"
    and join: "joined w (tc_socket self) j" and addr: "nc_server_addr (netcode_client self) = in_memory_server_addr"
    and link: "linked (netcode_client self) ns 0 (in_memory_client_addr (msc_client_id (mw_clients w ! tc_socket self))) client_id"
    and packets: "client_get_packets_to_send oct connection = Some (connection', ps)" "list_all (\<lambda>p. 0 < length p \<and> length p \<le> 1300) ps"
    and n: "unat (nc_sequence (netcode_client self)) + length ps + 256 < 2 ^ 64" and socket: "index socks 0 = Some socket"
    and deliver: "deliver_to_server oct server (unat client_id) ps = Some (server', Inr ())"
  shows "\<exists>self' w' ns' w''. tc_send_packets lib oct (memory_client_socket chan) self w connection = Some (self', w', connection', Inr ()) \<and>
    receive_sockets lib oct (memory_server_socket chan) socks [0] ns w' server [] = Some (Some (ns', w'', server', [])) \<and>
    memory_ok contents w'' \<and> memory_inbox contents w'' = [] \<and>
    linked (netcode_client self') ns' 0 (in_memory_client_addr (msc_client_id (mw_clients w ! tc_socket self))) client_id"
proof -
  let ?addr = "in_memory_client_addr (msc_client_id (mw_clients w ! tc_socket self))"
  obtain nc' ns' frames where run: "payload_frames lib (netcode_client self) ps = Some (nc', frames)" "list_all (\<lambda>b. length b \<le> 1400) frames"
    "process_frames lib 0 ?addr ns frames = Some (ns', map (ResultPayload client_id) ps)" "linked nc' ns' 0 ?addr client_id"
    using payloads_run [OF lib link packets(2) n] by blast
  obtain w1 where w1: "tc_send_all lib (memory_client_socket chan) self w ps = Some (self\<lparr>netcode_client := nc'\<rparr>, w1, Inr ())" "memory_ok contents w1"
    "only_from contents w1 j frames" "mw_server w1 = mw_server w"
    using client_sends_all [OF run(1,2) ok join _ addr, of "[]"] empty by (auto simp: inbox_only_from_none)
  have "nc_disconnect_reason (netcode_client self) = None"
    using link by (simp add: linked_def nc_is_connected_def nc_disconnect_reason_def)
  then have sent: "tc_send_packets lib oct (memory_client_socket chan) self w connection = Some (self\<lparr>netcode_client := nc'\<rparr>, w1, connection', Inr ())"
    using packets(1) w1(1) by (simp add: tc_send_packets_def)
  let ?w2 = "ss_preupdate (memory_server_socket chan) w1 socket"
  have "memory_ok contents ?w2"
    by (rule memory.preupdate_keeps [OF w1(2)])
  moreover have "memory_inbox contents ?w2 = map (\<lambda>b. (b, ?addr)) frames"
    using inbox_only_from [OF w1(3)] join w1(4) by (simp add: memory_server_socket_def memory_inbox_def joined_def)
  ultimately obtain w3 where "receive_loop lib oct (memory_server_socket chan) socks 0 ns ?w2 server [] = Some (Some (ns', w3, server', []))"
    "memory_ok contents w3" "memory_inbox contents w3 = []"
    using memory.loop_delivers [OF _ _ socket run(3) deliver] by blast
  then show ?thesis
    using sent run(4) socket by simp
qed

end

text \<open>
  C2: From one end to the other: over in-memory sockets with nothing on its way, what a connected client sends in a tick
  reaches the connection of the client at the server. Every packet the client's connection produces is sealed, queued,
  opened and handed on, in order and exactly once; the state of the server afterwards is the one that results from
  processing the same packets directly; and the two ends can go on, with nothing left on its way.
\<close>

theorem transport_delivers:
  assumes "channel chan contents" "aead_laws lib" "memory_ok contents w" "inbox_from contents (mw_channels w) (mss_clients (mw_server w)) = []"
    and "joined w (tc_socket self) j" "nc_server_addr (netcode_client self) = in_memory_server_addr"
    and "linked (netcode_client self) ns 0 (in_memory_client_addr (msc_client_id (mw_clients w ! tc_socket self))) client_id"
    and "client_get_packets_to_send oct connection = Some (connection', ps)" "list_all (\<lambda>p. 0 < length p \<and> length p \<le> 1300) ps"
    and "unat (nc_sequence (netcode_client self)) + length ps + 256 < 2 ^ 64" "index socks 0 = Some socket"
    and "deliver_to_server oct server (unat client_id) ps = Some (server', Inr ())"
  shows "\<exists>self' w' ns' w''. tc_send_packets lib oct (memory_client_socket chan) self w connection = Some (self', w', connection', Inr ()) \<and>
    receive_sockets lib oct (memory_server_socket chan) socks [0] ns w' server [] = Some (Some (ns', w'', server', [])) \<and>
    memory_ok contents w'' \<and> memory_inbox contents w'' = [] \<and>
    linked (netcode_client self') ns' 0 (in_memory_client_addr (msc_client_id (mw_clients w ! tc_socket self))) client_id"
  by (rule channel.delivers [OF assms])

text \<open>A client that acknowledges a range of packets, the session it belongs to, and the server at the other end.\<close>

definition demo_acking :: renet_client where
  "demo_acking = demo_sending\<lparr>send_channels := [], channel_send_order := []\<rparr>"

definition demo_session_server :: NetcodeServer where
  "demo_session_server = demo_server\<lparr>clients := [Some ((demo_connection (in_memory_client_addr 9))\<lparr>cn_state := ConnConnected, receive_key := replicate 32 1\<rparr>)],
     sv_protocol_id := 2\<rparr>"

definition demo_session_token :: ConnectToken where
  "demo_session_token = demo_client_token\<lparr>ct_server_addresses := Some in_memory_server_addr # replicate 31 None\<rparr>"

lemma demo_acking_packets:
  obtains connection' where "client_get_packets_to_send quic_lib demo_acking =
    Some (connection', [packet_bytes (\<lambda>h. be_bytes 2 (unat h)) quic_enc_varint (Ack 0 [(3, 7)])])"
proof -
  have inv: "client_inv demo_acking" "\<not> is_disconnected demo_acking"
    using demo_sending_ok by (auto simp: demo_acking_def demo_sending_def client_inv_def channels_ok_def is_disconnected_def sent_ok_def demo_client_channels)
  have limits: "list_all channel_limits (send_channels demo_acking)" "next_sequence demo_acking < varint_limit"
    by (simp_all add: demo_acking_def demo_sending_def demo_client_channels)
  have run: "channel_packets quic_lib (current_time demo_acking) (channel_send_order demo_acking)
      (send_channels demo_acking, next_sequence demo_acking, available_bytes_per_tick demo_acking, []) =
      Some (send_channels demo_acking, next_sequence demo_acking, available_bytes_per_tick demo_acking, [])"
    by (simp add: demo_acking_def)
  have ack: "[] @ ack_packet_of demo_acking (next_sequence demo_acking) = [Ack 0 [(3, 7)]]"
    by (simp add: ack_packet_of_def demo_acking_def demo_sending_def demo_client_channels)
  have short: "\<forall>p \<in> set [Ack 0 [(3, 7)]]. length (packet_bytes (\<lambda>h. be_bytes 2 (unat h)) quic_enc_varint p) \<le> 1400"
    by (simp add: quic_enc_varint_def)
  show thesis
    by (rule client_get_packets_spec [OF quic.octets_laws_axioms inv limits(1) run limits(2)]) (use that ack short in auto)
qed


lemma demo_session:
  obtains nc where "linked nc demo_session_server 0 (in_memory_client_addr 9) 7" "nc_server_addr nc = in_memory_server_addr" "nc_sequence nc = 0"
proof -
  have wf: "connect_token_wf demo_session_token"
    using demo_client_token_wf by (simp add: demo_session_token_def connect_token_wf_def addrs_wf_def in_memory_server_addr_def list_all_iff)
  have token: "ct_server_addresses demo_session_token ! 0 = Some in_memory_server_addr"
    "create_timestamp demo_session_token \<le> ct_expire_timestamp demo_session_token"
    by (simp_all add: demo_session_token_def demo_client_token_def sample_token_def)
  obtain nc where nc: "nc_inv nc" "nc_connect_token nc = demo_session_token" "nc_state nc = SendingConnectionRequest" "nc_server_addr nc = in_memory_server_addr"
    "nc_sequence nc = 0" "nc_encryption_policy nc"
    by (rule netcode_client_new_inv [OF wf token]) blast
  let ?nc = "nc\<lparr>nc_state := ClientState.ClientConnected\<rparr>"
  have "nc_inv ?nc" "nc_is_connected ?nc"
    using nc(1,3) by (simp_all add: nc_inv_def nc_is_connected_def nc_is_disconnected_def connection_timed_out_def)
  then have "linked ?nc demo_session_server 0 (in_memory_client_addr 9) 7"
    using nc replay_inv_new
    by (auto simp: linked_def demo_session_server_def demo_server_def demo_connection_def server_socket_config_new_def demo_session_token_def demo_client_token_def
        sample_token_def find_client_mut_by_addr_def at_slot_def has_addr_def intro!: exI [of _ "[] :: u64 list"])
  then show thesis
    using that [of ?nc] nc(4,5) by simp
qed

theorem transport_delivers_witness:
  "\<exists>chs server clients nc connection' ps self' w' ns' w'' r.
     new_memory_sockets list_channel [] [9] False False = Some (chs, server, clients) \<and>
     client_get_packets_to_send quic_lib demo_acking = Some (connection', ps) \<and> length ps = 1 \<and>
     tc_send_packets rfc_aead quic_lib (memory_client_socket list_channel) \<lparr>tc_socket = 0, netcode_client = nc\<rparr>
       \<lparr>mw_channels = chs, mw_server = server, mw_clients = clients\<rparr> demo_acking = Some (self', w', connection', Inr ()) \<and>
     receive_sockets rfc_aead quic_lib (memory_server_socket list_channel) [0] [0] demo_session_server w'
       \<lparr>connections = [(7, demo_sending)], connection_config = config_test, events = []\<rparr> [] = Some (Some (ns', w'', r, []))"
proof -
  let ?server = "\<lparr>connections = [(7, demo_sending)], connection_config = config_test, events = []\<rparr>"
  have "new_memory_sockets list_channel [] [9] False False \<noteq> None"
    by (simp add: new_memory_sockets_def channel_pair_def IN_MEMORY_SERVER_ID_def)
  then obtain chs server clients where new: "new_memory_sockets list_channel [] [9] False False = Some (chs, server, clients)"
    by (metis not_None_eq prod_cases3)
  let ?w = "\<lparr>mw_channels = chs, mw_server = server, mw_clients = clients\<rparr>"
  have w: "memory_ok (\<lambda>q. q) ?w" "memory_inbox (\<lambda>q. q) ?w = []" "\<forall>i < length clients. joined ?w i i" "map msc_client_id clients = [9]"
    using new_memory_sockets_ok [OF fifo.channel_axioms new refl] by simp_all
  have start: "drain_index server = 0"
    using new by (auto simp: new_memory_sockets_def bind_eq_Some_conv)
  have client: "joined ?w 0 0" "msc_client_id (clients ! 0) = 9"
    using w(3,4) by (cases clients; auto)+
  obtain nc where nc: "linked nc demo_session_server 0 (in_memory_client_addr 9) 7" "nc_server_addr nc = in_memory_server_addr" "nc_sequence nc = 0"
    by (rule demo_session)
  let ?p = "packet_bytes (\<lambda>h. be_bytes 2 (unat h)) quic_enc_varint (Ack 0 [(3, 7)])"
  obtain connection' where packets: "client_get_packets_to_send quic_lib demo_acking = Some (connection', [?p])"
    by (rule demo_acking_packets)
  have read: "from_bytes quic_lib ?p = Ok (Ack 0 [(3, 7)], [])"
    using octets_laws.from_bytes_packet_bytes [OF quic.octets_laws_axioms, of "Ack 0 [(3, 7)]" "[]"] by (simp add: ack_ranges_wf_def)
  have size: "0 < length ?p" "length ?p \<le> 1300"
    by (simp_all add: quic_enc_varint_def)
  obtain c' where "client_process_packet quic_lib demo_sending ?p = Some c'"
    using client_process_packet_spec [OF quic.octets_laws_axioms demo_sending_ok(1), of ?p] read by auto
  then obtain r where deliver: "deliver_to_server quic_lib ?server 7 [?p] = Some (r, Inr ())"
    by (simp add: process_packet_from_def bt_get_def put_connection_def)
  have "\<exists>self' w' ns' w''. tc_send_packets rfc_aead quic_lib (memory_client_socket list_channel) \<lparr>tc_socket = 0, netcode_client = nc\<rparr> ?w demo_acking =
      Some (self', w', connection', Inr ()) \<and>
    receive_sockets rfc_aead quic_lib (memory_server_socket list_channel) [0] [0] demo_session_server w' ?server [] = Some (Some (ns', w'', r, []))"
    using transport_delivers [OF fifo.channel_axioms rfc.aead_laws_axioms w(1), of "\<lparr>tc_socket = 0, netcode_client = nc\<rparr>" 0 demo_session_server 7 quic_lib
        demo_acking connection' "[?p]" "[0]" 0 ?server r] w(2) start client nc packets size deliver
    by (simp add: memory_inbox_def del: packet_bytes.simps) blast
  then show ?thesis
    using new packets by fastforce
qed

end
