(* ===== verification/Spec2Isabelle.thy ===== *)
theory Spec2Isabelle
  imports Memory_Socket
begin

text \<open>
  A verification development for renet2, a Rust library for games that sends messages between clients and a server
  over datagrams.

  \<^bold>\<open>The program.\<close> It has three layers.

  \<^item> \<open>src/renet2\<close> is the message layer. A \<open>RenetClient\<close> is one end of a connection: it owns reliable and unreliable
    channels, cuts large messages into slices, packs small ones together, numbers its packets, keeps what was sent until
    it is acknowledged, and acknowledges what it receives. A \<open>RenetServer\<close> holds one such end per client and a queue of
    events. This layer produces and consumes packets of bytes and never touches a socket.
  \<^item> \<open>src/renetcode2\<close> is the connection layer: connect tokens, the handshake of request, challenge, response and
    keep-alive, encryption, replay protection and timeouts, for a \<open>NetcodeClient\<close> and a \<open>NetcodeServer\<close>. It turns payloads
    into datagrams and datagrams into payloads and never touches a socket either.
  \<^item> \<open>src/renet2_netcode\<close> joins them: the transports read sockets, hand datagrams to the connection layer and payloads to the
    message layer, and back. Sockets are implementations of two traits.

  \<^bold>\<open>Conventions.\<close> Words of 8 to 64 bits stand for machine integers whose bits or overflow matter; sizes, durations (in
  nanoseconds) and the counters of the message layer are natural numbers. A panic is \<open>None\<close> (or \<open>Panic\<close> of the type \<open>outcome\<close>): an
  index out of range, an arithmetic overflow or underflow, \<open>unwrap\<close> and \<open>unreachable\<close>. An operation with an error result
  returns the state it leaves behind together with the error. \<open>BTreeMap\<close> is a sorted association list, \<open>HashMap\<close> an association
  list. Logging is left out, and floating point results are exact rationals. Third-party code is an argument of the definitions
  that call it, with its documented behaviour as a locale: the \<open>octets\<close> crate (\<open>octets_laws\<close>), the AEAD ciphers
  (\<open>aead_laws\<close>) and the channels of crossbeam (\<open>channel\<close>). Each locale is interpreted: on QUIC's variable-length integers, on
  ChaCha20-Poly1305 and XChaCha20-Poly1305 as RFC 8439 defines them, and on lists. Random bytes are arguments.

  \<^bold>\<open>Message layer.\<close>

  \<^item> \<open>Renet_Prelude\<close>, \<open>Ordered_Map\<close>, \<open>Octets\<close>: vocabulary, the maps of the standard library, the interface of \<open>octets\<close>.
  \<^item> \<open>Renet_Packet\<close> (\<open>packet.rs\<close>), \<open>Renet_Error\<close> (\<open>error.rs\<close>): the wire format. Writing and reading are inverse, and the parser
    never panics on any input.
  \<^item> \<open>Slice_Constructor\<close> (\<open>channel/slice_constructor.rs\<close>): slices in any order and with repetitions give the message back; exactly
    which slices panic.
  \<^item> \<open>Channel_Send\<close>: the contract of the two send channels as a locale. \<open>Channel_Reliable_Send\<close>, \<open>Channel_Reliable_Receive\<close>
    (\<open>channel/reliable.rs\<close>), \<open>Channel_Unreliable_Send\<close>, \<open>Channel_Unreliable_Receive\<close> (\<open>channel/unreliable.rs\<close>): the channels, their
    invariants (memory accounting, what waits, what is being assembled), and what a tick puts on the wire.
  \<^item> \<open>Reliable_Delivery\<close>: both halves of a reliable channel joined by a network that loses, repeats and reorders. What the
    receiver has delivered is a prefix of what was sent (ordered) or a sub-multiset of it (unordered), nothing is forgotten
    before it has arrived, and no step panics.
  \<^item> \<open>Pending_Acks\<close>: the ranges of numbers to acknowledge refine a set of numbers.
  \<^item> \<open>Channel_Config\<close> (\<open>channel/mod.rs\<close>), \<open>Connection_Stats\<close> (\<open>connection_stats.rs\<close>), \<open>Remote_Connection\<close>
    (\<open>remote_connection.rs\<close>): the connection. \<open>Connection_Invariant\<close>, \<open>Connection_Sending\<close> and \<open>Connection_Theorems\<close>: its invariant, that
    every operation keeps it for every history of calls and packets, what a tick sends and what an acknowledgement forgets.
  \<^item> \<open>Renet_Server\<close> (\<open>server.rs\<close>): the server; the events of a client alternate, and clients do not disturb each other.

  \<^bold>\<open>Connection layer.\<close>

  \<^item> \<open>Netcode_Serialize\<close> (\<open>lib.rs\<close>, \<open>error.rs\<close>, \<open>serialize.rs\<close>), \<open>Netcode_Replay\<close> (\<open>replay_protection.rs\<close>), \<open>Netcode_Crypto\<close>
    (\<open>crypto.rs\<close>), \<open>Netcode_Token\<close> (\<open>token.rs\<close>), \<open>Netcode_Packet\<close> (\<open>packet.rs\<close>): the ring of 256 numbers answers like a
    memory of all of them; tokens and packets survive writing and reading; no number is accepted twice; exactly which datagrams panic.
  \<^item> \<open>Netcode_Client\<close> (\<open>client.rs\<close>): its invariant, and that a client that hears nothing gives up.
  \<^item> \<open>Netcode_Server\<close> (\<open>server.rs\<close>), \<open>Netcode_Server_Invariant\<close>: the server and the invariant of its reachable states
    (\<open>sv_reach\<close>, an inductive predicate over all operations); a datagram from a stranger never panics.
  \<^item> \<open>Netcode_Handshake\<close>: a client and a server together reach a connection with matching keys; the nonce that the first
    handshake uses twice; how a response can connect a client id twice.

  \<^bold>\<open>Transports.\<close>

  \<^item> \<open>Netcode_Transport\<close> (\<open>src/renet2_netcode/src/server.rs\<close>, \<open>client.rs\<close>, \<open>sockets.rs\<close>): both transports over the socket traits, which are
    records of functions on one state \<open>w\<close> of all sockets. The receive loops are partial functions: an outer \<open>None\<close> is a loop
    that does not end. The locale \<open>queue_socket\<close> says what a socket must do for the loop of the server to end, and a socket that
    keeps failing makes it run for ever.
  \<^item> \<open>Memory_Socket\<close> (\<open>memory_socket/\<close>): the in-memory sockets, with the channels in a shared list. They satisfy \<open>queue_socket\<close>, so
    \<open>update\<close> returns, and what a client's connection sends in a tick is what the server's connection processes.

  \<^bold>\<open>Bounds.\<close> No definition uses fuel. Recursion is structural except for \<open>mss_try_recv\<close>, whose measure is the number of clients not
  yet drained, \<open>drain_received\<close>, whose measure is the number of ids left, and \<open>chunks\<close>, whose measure is the length of the list. Statements about long runs of the connection layer assume that 64-bit
  counters have not run out; those about the message layer assume that packet numbers and message ids fit the 62 bits of a variable-length integer.

  \<^bold>\<open>Not modelled.\<close> The UDP socket (\<open>native_socket.rs\<close>) is one call of \<open>std::net\<close> per method. The WebSocket and WebTransport
  sockets are asynchronous tasks around third-party streams; their behaviour is that of tokio, tungstenite, quinn, h3 and the browser.
  \<open>renet2_steam\<close> calls the Steam library, \<open>renet2_visualizer\<close> draws, \<open>renet2_setup\<close> constructs sockets and tokens for applications, and the bevy
  crates register the calls modelled here with a scheduler. Demos, examples and the texts of errors (\<open>Display\<close>) are left out. Within the
  modelled files, accessors that return a field are that field, and the time after which a \<open>Duration\<close> or a \<open>usize\<close> overflows is not
  considered.
\<close>

end
